(* ===== verification/Prelude.thy ===== *)
theory Prelude
  imports Main "HOL-Library.AList" "HOL-Library.Char_ord" "HOL-Library.List_Lexorder"
begin

text \<open>
  Shared vocabulary of the development.

  \<^item> Rust's \<^verbatim>\<open>Result<T, E>\<close> is the datatype \<open>result\<close>; the \<^verbatim>\<open>?\<close> operator is \<open>and_then\<close>,
    a \<^verbatim>\<open>for\<close> loop whose body may return early is \<open>fold_res\<close>, and collecting an
    iterator of results is \<open>collect_res\<close>.
  \<^item> A Rust \<^verbatim>\<open>&str\<close> or \<^verbatim>\<open>String\<close> is a \<open>string\<close>, read as its sequence of UTF-8 bytes: a HOL
    character has exactly eight bits. Byte-wise lexicographic order
    (\<^verbatim>\<open>str: Ord\<close>) is the library's lexicographic order on lists of characters.
  \<^item> An \<^verbatim>\<open>IndexMap\<close> is an association list in insertion order; \<^verbatim>\<open>insert\<close> is
    \<open>AList.update\<close>, \<^verbatim>\<open>shift_remove\<close> is \<open>AList.delete\<close>.
\<close>

named_theorems result_simps \<open>evaluation of result computations\<close>
named_theorems ascii_simps \<open>definitions of the ASCII classes\<close>

section \<open>Results\<close>

datatype ('a, 'e) result = Ok (the_ok: 'a) | Err (the_err: 'e)

primrec is_ok :: "('a, 'e) result \<Rightarrow> bool" where
  "is_ok (Ok a) = True"
| "is_ok (Err e) = False"

primrec and_then :: "('a, 'e) result \<Rightarrow> ('a \<Rightarrow> ('b, 'e) result) \<Rightarrow> ('b, 'e) result" where
  "and_then (Ok a) f = f a"
| "and_then (Err e) f = Err e"

primrec map_err :: "('e \<Rightarrow> 'f) \<Rightarrow> ('a, 'e) result \<Rightarrow> ('a, 'f) result" where
  "map_err f (Ok a) = Ok a"
| "map_err f (Err e) = Err (f e)"

primrec map_ok :: "('a \<Rightarrow> 'b) \<Rightarrow> ('a, 'e) result \<Rightarrow> ('b, 'e) result" where
  "map_ok f (Ok a) = Ok (f a)"
| "map_ok f (Err e) = Err e"

primrec ok :: "('a, 'e) result \<Rightarrow> 'a option" where
  "ok (Ok a) = Some a"
| "ok (Err e) = None"

fun ok_or :: "'a option \<Rightarrow> 'e \<Rightarrow> ('a, 'e) result" where
  "ok_or (Some a) e = Ok a"
| "ok_or None e = Err e"

fun fold_res :: "('s \<Rightarrow> 'a \<Rightarrow> ('s, 'e) result) \<Rightarrow> 's \<Rightarrow> 'a list \<Rightarrow> ('s, 'e) result" where
  "fold_res f s [] = Ok s"
| "fold_res f s (x # xs) = and_then (f s x) (\<lambda>s'. fold_res f s' xs)"

fun collect_res :: "('a \<Rightarrow> ('b, 'e) result) \<Rightarrow> 'a list \<Rightarrow> ('b list, 'e) result" where
  "collect_res f [] = Ok []"
| "collect_res f (x # xs) = and_then (f x) (\<lambda>y. map_ok ((#) y) (collect_res f xs))"

lemma and_then_eq_Ok [simp]:
  "and_then r f = Ok b \<longleftrightarrow> (\<exists>a. r = Ok a \<and> f a = Ok b)"
  by (cases r) auto

lemma and_then_eq_Err:
  "and_then r f = Err e \<longleftrightarrow> r = Err e \<or> (\<exists>a. r = Ok a \<and> f a = Err e)"
  by (cases r) auto

lemma map_err_eq_Ok [simp]: "map_err f r = Ok a \<longleftrightarrow> r = Ok a"
  by (cases r) auto

lemma map_err_eq_Err [simp]: "map_err f r = Err e \<longleftrightarrow> (\<exists>x. r = Err x \<and> e = f x)"
  by (cases r) auto

lemma map_ok_eq_Ok [simp]: "map_ok f r = Ok b \<longleftrightarrow> (\<exists>a. r = Ok a \<and> b = f a)"
  by (cases r) auto

lemma map_ok_eq_Err [simp]: "map_ok f r = Err e \<longleftrightarrow> r = Err e"
  by (cases r) auto

lemma ok_or_eq_Ok [simp]: "ok_or v e = Ok a \<longleftrightarrow> v = Some a"
  by (cases v) auto

lemma is_ok_iff: "is_ok r \<longleftrightarrow> (\<exists>a. r = Ok a)"
  by (cases r) auto

lemma collect_res_Ok:
  "collect_res f xs = Ok ys \<longleftrightarrow> list_all2 (\<lambda>x y. f x = Ok y) xs ys"
proof (induction xs arbitrary: ys)
  case Nil
  show ?case by auto
next
  case (Cons x xs)
  then show ?case by (cases ys) (auto simp: list_all2_Cons1)
qed

lemma collect_res_length: "collect_res f xs = Ok ys \<Longrightarrow> length ys = length xs"
  by (simp add: collect_res_Ok list_all2_lengthD)

lemma fold_res_append:
  "fold_res f s (xs @ ys) = and_then (fold_res f s xs) (\<lambda>s'. fold_res f s' ys)"
proof (induction xs arbitrary: s)
  case Nil
  show ?case by simp
next
  case (Cons x xs)
  then show ?case by (cases "f s x") auto
qed

text \<open>The loop rule: an invariant established before the loop and kept by every
  iteration that succeeds holds when the loop ends normally.\<close>

lemma fold_res_invariant:
  assumes "fold_res f s xs = Ok t"
    and "P s"
    and "\<And>s x s'. x \<in> set xs \<Longrightarrow> P s \<Longrightarrow> f s x = Ok s' \<Longrightarrow> P s'"
  shows "P t"
  using assms
proof (induction xs arbitrary: s)
  case Nil
  then show ?case by simp
next
  case (Cons x xs)
  from Cons.prems(1) obtain s' where s': "f s x = Ok s'" "fold_res f s' xs = Ok t"
    by auto
  have "P s'" using Cons.prems(2,3) s'(1) by auto
  then show ?case using Cons.IH [OF s'(2)] Cons.prems(3) by auto
qed

lemma fold_res_total:
  "(\<And>s x. x \<in> set xs \<Longrightarrow> \<exists>s'. f s x = Ok s') \<Longrightarrow> \<exists>t. fold_res f s xs = Ok t"
proof (induction xs arbitrary: s)
  case Nil
  show ?case by simp
next
  case (Cons x xs)
  then obtain s' where "f s x = Ok s'" by fastforce
  moreover obtain t where "fold_res f s' xs = Ok t" using Cons by force
  ultimately show ?case by simp
qed

lemma fold_res_unit:
  "fold_res (\<lambda>_ x. f x) () xs = Ok u \<longleftrightarrow> (\<forall>x \<in> set xs. f x = Ok ())"
  by (induction xs) auto

section \<open>ASCII characters\<close>

definition byte :: "char \<Rightarrow> nat" where
  "byte c = of_char c"

definition is_ascii_lowercase :: "char \<Rightarrow> bool" where [ascii_simps]:
  "is_ascii_lowercase c \<longleftrightarrow> 97 \<le> byte c \<and> byte c \<le> 122"

definition is_ascii_uppercase :: "char \<Rightarrow> bool" where [ascii_simps]:
  "is_ascii_uppercase c \<longleftrightarrow> 65 \<le> byte c \<and> byte c \<le> 90"

definition is_ascii_digit :: "char \<Rightarrow> bool" where [ascii_simps]:
  "is_ascii_digit c \<longleftrightarrow> 48 \<le> byte c \<and> byte c \<le> 57"

definition is_ascii_alphabetic :: "char \<Rightarrow> bool" where
  "is_ascii_alphabetic c \<longleftrightarrow> is_ascii_lowercase c \<or> is_ascii_uppercase c"

definition is_ascii_alphanumeric :: "char \<Rightarrow> bool" where
  "is_ascii_alphanumeric c \<longleftrightarrow> is_ascii_alphabetic c \<or> is_ascii_digit c"

definition ascii_lower :: "char \<Rightarrow> char" where
  "ascii_lower c = (if is_ascii_uppercase c then char_of (byte c + 32) else c)"

definition to_ascii_lowercase :: "string \<Rightarrow> string" where
  "to_ascii_lowercase s = map ascii_lower s"

definition eq_ignore_ascii_case :: "string \<Rightarrow> string \<Rightarrow> bool" where
  "eq_ignore_ascii_case s t \<longleftrightarrow> to_ascii_lowercase s = to_ascii_lowercase t"

lemma byte_less_256 [simp]: "byte c < 256"
  by (simp add: byte_def)

lemma byte_char_of [simp]: "n < 256 \<Longrightarrow> byte (char_of n) = n"
  by (simp add: byte_def)

lemma byte_inject [simp]: "byte c = byte d \<longleftrightarrow> c = d"
  by (simp add: byte_def)

lemma ascii_lower_not_upper [simp]: "\<not> is_ascii_uppercase (ascii_lower c)"
  by (auto simp: ascii_lower_def is_ascii_uppercase_def)

lemma ascii_lower_idem [simp]: "ascii_lower (ascii_lower c) = ascii_lower c"
  using ascii_lower_not_upper [of c] by (simp add: ascii_lower_def [of "ascii_lower c"])

lemma ascii_lower_fixes_lower [simp]: "is_ascii_lowercase c \<Longrightarrow> ascii_lower c = c"
  by (auto simp: ascii_lower_def ascii_simps)

lemma ascii_lower_fixes_digit [simp]: "is_ascii_digit c \<Longrightarrow> ascii_lower c = c"
  by (auto simp: ascii_lower_def ascii_simps)

lemma to_ascii_lowercase_idem [simp]:
  "to_ascii_lowercase (to_ascii_lowercase s) = to_ascii_lowercase s"
  by (simp add: to_ascii_lowercase_def)

lemma length_to_ascii_lowercase [simp]: "length (to_ascii_lowercase s) = length s"
  by (simp add: to_ascii_lowercase_def)

section \<open>UTF-8\<close>

text \<open>Well-formed UTF-8 byte sequences, as checked by \<^verbatim>\<open>str::from_utf8\<close>.\<close>

definition cont_byte :: "char \<Rightarrow> bool" where
  "cont_byte c \<longleftrightarrow> 128 \<le> byte c \<and> byte c \<le> 191"

definition byte_in :: "nat \<Rightarrow> nat \<Rightarrow> char \<Rightarrow> bool" where
  "byte_in l h c \<longleftrightarrow> l \<le> byte c \<and> byte c \<le> h"

definition utf8_two :: "char \<Rightarrow> char \<Rightarrow> bool" where
  "utf8_two a b \<longleftrightarrow> byte_in 194 223 a \<and> cont_byte b"

definition utf8_three :: "char \<Rightarrow> char \<Rightarrow> char \<Rightarrow> bool" where
  "utf8_three a b c \<longleftrightarrow> cont_byte c \<and>
     (byte a = 224 \<and> byte_in 160 191 b \<or> byte_in 225 236 a \<and> cont_byte b
      \<or> byte a = 237 \<and> byte_in 128 159 b \<or> byte_in 238 239 a \<and> cont_byte b)"

definition utf8_four :: "char \<Rightarrow> char \<Rightarrow> char \<Rightarrow> char \<Rightarrow> bool" where
  "utf8_four a b c d \<longleftrightarrow> cont_byte c \<and> cont_byte d \<and>
     (byte a = 240 \<and> byte_in 144 191 b \<or> byte_in 241 243 a \<and> cont_byte b
      \<or> byte a = 244 \<and> byte_in 128 143 b)"

fun utf8_valid :: "string \<Rightarrow> bool" where
  "utf8_valid [] = True"
| "utf8_valid (a # r) =
    (if byte a < 128 then utf8_valid r
     else (case r of
        b # r2 \<Rightarrow>
          if utf8_two a b then utf8_valid r2
          else (case r2 of
            c # r3 \<Rightarrow>
              if utf8_three a b c then utf8_valid r3
              else (case r3 of
                d # r4 \<Rightarrow> if utf8_four a b c d then utf8_valid r4 else False
              | [] \<Rightarrow> False)
          | [] \<Rightarrow> False)
      | [] \<Rightarrow> False))"

lemma utf8_valid_ascii: "list_all (\<lambda>c. byte c < 128) s \<Longrightarrow> utf8_valid s"
  by (induction s) auto

declare utf8_valid.simps [simp del]

section \<open>Decimal numbers\<close>

text \<open>The decimal digits of a number, as \<^verbatim>\<open>write!\<close> prints it.\<close>

fun display_nat :: "nat \<Rightarrow> string" where
  "display_nat n =
    (if n < 10 then [char_of (48 + n)] else display_nat (n div 10) @ [char_of (48 + n mod 10)])"

declare display_nat.simps [simp del]

fun digits_value :: "nat \<Rightarrow> string \<Rightarrow> nat" where
  "digits_value acc [] = acc"
| "digits_value acc (c # cs) = digits_value (10 * acc + (byte c - 48)) cs"

lemma digits_value_append: "digits_value a (xs @ ys) = digits_value (digits_value a xs) ys"
  by (induction xs arbitrary: a) auto

lemma digits_value_display: "digits_value 0 (display_nat n) = n"
proof (induction n rule: display_nat.induct)
  case (1 n)
  then show ?case by (simp add: display_nat.simps [of n] digits_value_append)
qed

lemma display_nat_inject [simp]: "display_nat m = display_nat n \<longleftrightarrow> m = n"
  by (metis digits_value_display)

lemma length_display_nat: "n < 10 ^ Suc k \<Longrightarrow> length (display_nat n) \<le> Suc k"
proof (induction k arbitrary: n)
  case 0
  then show ?case by (simp add: display_nat.simps)
next
  case (Suc k)
  then have "n div 10 < 10 ^ Suc k" by simp
  from Suc.IH [OF this] show ?case by (simp add: display_nat.simps [of n])
qed

lemma display_nat_digits: "c \<in> set (display_nat n) \<Longrightarrow> 48 \<le> byte c \<and> byte c \<le> 57"
proof (induction n rule: display_nat.induct)
  case (1 n)
  have "n mod 10 < 10" by simp
  then show ?case using 1 by (auto simp: display_nat.simps [of n] split: if_splits)
qed

section \<open>Splitting and joining strings\<close>

text \<open>\<open>split_on c s\<close> is \<^verbatim>\<open>s.split(c)\<close> for a character pattern: one piece more than there are
  occurrences of \<open>c\<close>, empty pieces included.\<close>

fun split_on :: "char \<Rightarrow> string \<Rightarrow> string list" where
  "split_on c [] = [[]]"
| "split_on c (x # xs) =
    (if x = c then [] # split_on c xs
     else (case split_on c xs of
             [] \<Rightarrow> [[x]]
           | w # ws \<Rightarrow> (x # w) # ws))"

fun join_with :: "char \<Rightarrow> string list \<Rightarrow> string" where
  "join_with c [] = []"
| "join_with c [w] = w"
| "join_with c (w # v # ws) = w @ c # join_with c (v # ws)"

lemma split_on_not_Nil [simp]: "split_on c s \<noteq> []"
  by (induction s) (auto split: list.splits)

lemma join_with_Cons:
  "ws \<noteq> [] \<Longrightarrow> join_with c (w # ws) = w @ c # join_with c ws"
  by (cases ws) auto

lemma join_split [simp]: "join_with c (split_on c s) = s"
proof (induction s)
  case Nil
  show ?case by simp
next
  case (Cons x xs)
  obtain w ws where sp: "split_on c xs = w # ws"
    using split_on_not_Nil [of c xs] by (cases "split_on c xs") auto
  have "join_with c ((x # w) # ws) = x # join_with c (w # ws)"
    by (cases ws) auto
  then show ?case using Cons.IH sp by (auto simp: join_with_Cons)
qed

lemma split_on_free: "w \<in> set (split_on c s) \<Longrightarrow> c \<notin> set w"
proof (induction s arbitrary: w)
  case Nil
  then show ?case by simp
next
  case (Cons x xs)
  then show ?case by (fastforce split: if_splits list.splits)
qed

lemma split_on_no_sep: "c \<notin> set s \<Longrightarrow> split_on c s = [s]"
  by (induction s) auto

lemma split_on_append_sep:
  "c \<notin> set w \<Longrightarrow> split_on c (w @ c # s) = w # split_on c s"
  by (induction w) auto

lemma split_join [simp]:
  assumes "ws \<noteq> []" and "\<forall>w \<in> set ws. c \<notin> set w"
  shows "split_on c (join_with c ws) = ws"
  using assms
  by (induction ws rule: induct_list012) (auto simp: split_on_no_sep split_on_append_sep)

lemma split_on_two:
  "split_on c s = [u, v] \<longleftrightarrow> s = u @ c # v \<and> c \<notin> set u \<and> c \<notin> set v"
proof
  assume sp: "split_on c s = [u, v]"
  then have "s = join_with c [u, v]" by (metis join_split)
  moreover have "c \<notin> set u" "c \<notin> set v"
    using split_on_free [of _ c s] sp by auto
  ultimately show "s = u @ c # v \<and> c \<notin> set u \<and> c \<notin> set v" by simp
next
  assume "s = u @ c # v \<and> c \<notin> set u \<and> c \<notin> set v"
  then show "split_on c s = [u, v]"
    by (simp add: split_on_append_sep split_on_no_sep)
qed

definition starts_with :: "string \<Rightarrow> string \<Rightarrow> bool" where
  "starts_with p s \<longleftrightarrow> take (length p) s = p"

definition ends_with :: "string \<Rightarrow> string \<Rightarrow> bool" where
  "ends_with p s \<longleftrightarrow> length p \<le> length s \<and> drop (length s - length p) s = p"

definition strip_prefix :: "string \<Rightarrow> string \<Rightarrow> string option" where
  "strip_prefix p s = (if starts_with p s then Some (drop (length p) s) else None)"

definition strip_suffix :: "string \<Rightarrow> string \<Rightarrow> string option" where
  "strip_suffix p s = (if ends_with p s then Some (take (length s - length p) s) else None)"

lemma starts_with_iff: "starts_with p s \<longleftrightarrow> (\<exists>t. s = p @ t)"
  by (auto simp: starts_with_def) (metis append_take_drop_id)

lemma ends_with_iff: "ends_with p s \<longleftrightarrow> (\<exists>t. s = t @ p)"
  by (auto simp: ends_with_def) (metis append_take_drop_id)

lemma strip_prefix_Some [simp]: "strip_prefix p s = Some t \<longleftrightarrow> s = p @ t"
  by (auto simp: strip_prefix_def starts_with_iff)

lemma strip_prefix_None: "strip_prefix p s = None \<longleftrightarrow> (\<forall>t. s \<noteq> p @ t)"
  by (auto simp: strip_prefix_def starts_with_iff)

lemma strip_suffix_Some [simp]: "strip_suffix p s = Some t \<longleftrightarrow> s = t @ p"
  by (auto simp: strip_suffix_def ends_with_iff)

lemma strip_suffix_None: "strip_suffix p s = None \<longleftrightarrow> (\<forall>t. s \<noteq> t @ p)"
  by (auto simp: strip_suffix_def ends_with_iff)

section \<open>Insertion-ordered maps\<close>

abbreviation keys :: "('k \<times> 'v) list \<Rightarrow> 'k list" where
  "keys al \<equiv> map fst al"

lemma update_new [simp]: "k \<notin> set (keys al) \<Longrightarrow> AList.update k v al = al @ [(k, v)]"
  by (induction al) auto

lemma map_of_delete_same: "map_of (AList.delete k al) k = None"
  by (simp add: AList.delete_conv')

lemma map_of_delete_other: "k' \<noteq> k \<Longrightarrow> map_of (AList.delete k al) k' = map_of al k'"
  by (simp add: AList.delete_conv')

lemma map_of_update_same [simp]: "map_of (AList.update k v al) k = Some v"
  by (simp add: update_conv')

lemma map_of_update_other: "k' \<noteq> k \<Longrightarrow> map_of (AList.update k v al) k' = map_of al k'"
  by (simp add: update_conv')

lemma delete_fresh [simp]: "k \<notin> set (keys al) \<Longrightarrow> AList.delete k al = al"
  by (induction al) auto

lemma delete_append [simp]: "AList.delete k (xs @ ys) = AList.delete k xs @ AList.delete k ys"
  by (induction xs) auto

lemma map_of_eq_None: "map_of al k = None \<longleftrightarrow> k \<notin> set (keys al)"
  by (simp add: map_of_eq_None_iff)

text \<open>A loop that checks each entry of a map with distinct keys and inserts the checked value
  under the same key rebuilds the map in order.\<close>

lemma fold_insert_checked:
  assumes step: "\<And>acc k v. step acc (k, v) = map_ok (\<lambda>w. AList.update k w acc) (chk k v)"
    and "distinct (keys acc @ keys es)"
  shows "fold_res step acc es =
    map_ok (\<lambda>ws. acc @ zip (keys es) ws) (collect_res (\<lambda>(k, v). chk k v) es)"
  using assms(2)
proof (induction es arbitrary: acc)
  case Nil
  show ?case by simp
next
  case (Cons e es)
  obtain k v where e: "e = (k, v)" by (cases e)
  show ?case
  proof (cases "chk k v")
    case (Ok w)
    have fresh: "AList.update k w acc = acc @ [(k, w)]" using Cons.prems e by simp
    have "distinct (keys (acc @ [(k, w)]) @ keys es)" using Cons.prems e by simp
    note ih = Cons.IH [OF this]
    show ?thesis
      using Ok e fresh ih by (cases "collect_res (\<lambda>(k, v). chk k v) es") (auto simp: step)
  next
    case (Err x)
    then show ?thesis using e by (simp add: step)
  qed
qed

end
