(* ===== verification/Purl.thy ===== *)
theory Purl
  imports Prelude
begin

text \<open>
  Sysand package URLs, \<^verbatim>\<open>core/src/purl.rs\<close>: the field validator, field normalization
  and \<^verbatim>\<open>parse_sysand_purl\<close>. The validator is compared with a declarative reading of the
  field rules (words of lower-case letters and digits joined by single separators), and
  the parser with the shape of the strings it accepts.
\<close>

section \<open>Definitions\<close>

definition PKG_SYSAND_PREFIX :: string where
  "PKG_SYSAND_PREFIX = ''pkg:sysand/''"

datatype FieldKind = Publisher | Name

fun allows_dot_separator :: "FieldKind \<Rightarrow> bool" where
  "allows_dot_separator kind = (kind = Name)"

definition is_lower_or_digit :: "char \<Rightarrow> bool" where
  "is_lower_or_digit b \<longleftrightarrow> is_ascii_lowercase b \<or> is_ascii_digit b"

definition array_windows2 :: "'a list \<Rightarrow> ('a \<times> 'a) list" where
  "array_windows2 bytes = zip bytes (tl bytes)"

definition window_ok :: "FieldKind \<Rightarrow> char \<times> char \<Rightarrow> bool" where
  "window_ok kind = (\<lambda>(b_previous, b).
     if is_lower_or_digit b then True
     else if \<not> (b = CHR ''-'' \<or> (allows_dot_separator kind \<and> b = CHR ''.'')) then False
     else is_lower_or_digit b_previous)"

definition is_valid_sysand_purl_part :: "string \<Rightarrow> FieldKind \<Rightarrow> bool" where
  "is_valid_sysand_purl_part s kind =
    (if \<not> (3 \<le> length s \<and> length s \<le> 50) then False
     else if \<not> is_lower_or_digit (s ! 0) \<or> \<not> is_lower_or_digit (s ! (length s - 1)) then False
     else list_all (window_ok kind) (array_windows2 (take (length s - 1) s)))"

definition is_valid_purl_publisher :: "string \<Rightarrow> bool" where
  "is_valid_purl_publisher s = is_valid_sysand_purl_part s Publisher"

definition is_valid_purl_name :: "string \<Rightarrow> bool" where
  "is_valid_purl_name s = is_valid_sysand_purl_part s Name"

definition normalize_field :: "string \<Rightarrow> string" where
  "normalize_field s =
    map (\<lambda>c. if c = CHR '' '' then CHR ''-'' else c) (to_ascii_lowercase s)"

definition is_valid_unnormalized_field :: "string \<Rightarrow> FieldKind \<Rightarrow> bool" where
  "is_valid_unnormalized_field s kind = is_valid_sysand_purl_part (normalize_field s) kind"

definition is_valid_unnormalized_publisher :: "string \<Rightarrow> bool" where
  "is_valid_unnormalized_publisher s = is_valid_unnormalized_field s Publisher"

definition is_valid_unnormalized_name :: "string \<Rightarrow> bool" where
  "is_valid_unnormalized_name s = is_valid_unnormalized_field s Name"

datatype SysandPurlError =
    WrongShape string nat
  | InvalidPublisher string string
  | InvalidName string string
  | NotNormalized string string string

definition has_sysand_prefix :: "string \<Rightarrow> bool" where
  "has_sysand_prefix iri \<longleftrightarrow>
     length PKG_SYSAND_PREFIX \<le> length iri
     \<and> eq_ignore_ascii_case (take 3 iri) ''pkg''
     \<and> starts_with '':sysand/'' (drop 3 iri)"

definition parse_sysand_purl ::
  "string \<Rightarrow> ((string \<times> string) option, SysandPurlError) result" where
  "parse_sysand_purl iri =
    (if \<not> has_sysand_prefix iri then Ok None
     else (let parts = split_on CHR ''/'' (drop (length PKG_SYSAND_PREFIX) iri) in
       case parts of
         [publisher, name] \<Rightarrow>
           (let invalid_publisher = \<not> is_valid_purl_publisher publisher;
                invalid_name = \<not> is_valid_purl_name name in
            if invalid_publisher \<or> invalid_name then
              if is_valid_unnormalized_name name \<and> is_valid_unnormalized_publisher publisher
              then Err (NotNormalized iri (normalize_field publisher) (normalize_field name))
              else if invalid_publisher then Err (InvalidPublisher iri publisher)
              else Err (InvalidName iri name)
            else Ok (Some (publisher, name)))
       | _ \<Rightarrow> Err (WrongShape iri (length parts))))"

section \<open>The field rules, declaratively\<close>

text \<open>Words are maximal runs between separators; a field is valid when it has 3 to 50
  bytes and every word is a non-empty string of lower-case letters and digits.\<close>

fun separators :: "FieldKind \<Rightarrow> char set" where
  "separators Publisher = {CHR ''-''}"
| "separators Name = {CHR ''-'', CHR ''.''}"

fun field_words :: "FieldKind \<Rightarrow> string \<Rightarrow> string list" where
  "field_words k [] = [[]]"
| "field_words k (x # xs) =
    (if x \<in> separators k then [] # field_words k xs
     else (case field_words k xs of
             [] \<Rightarrow> [[x]]
           | w # ws \<Rightarrow> (x # w) # ws))"

definition field_spec :: "FieldKind \<Rightarrow> string \<Rightarrow> bool" where
  "field_spec k s \<longleftrightarrow> 3 \<le> length s \<and> length s \<le> 50
     \<and> (\<forall>w \<in> set (field_words k s). w \<noteq> [] \<and> (\<forall>c \<in> set w. is_lower_or_digit c))"

text \<open>The scan restated as a recursion that carries the previous byte.\<close>

fun scan :: "FieldKind \<Rightarrow> char \<Rightarrow> string \<Rightarrow> bool" where
  "scan k p [] = is_lower_or_digit p"
| "scan k p (b # bs) =
    ((is_lower_or_digit b \<or> b \<in> separators k \<and> is_lower_or_digit p) \<and> scan k b bs)"

lemma separator_not_lower: "b \<in> separators k \<Longrightarrow> \<not> is_lower_or_digit b"
  by (cases k) (auto simp: is_lower_or_digit_def ascii_simps byte_def)

lemma window_ok_iff:
  "window_ok k (p, b) \<longleftrightarrow> is_lower_or_digit b \<or> b \<in> separators k \<and> is_lower_or_digit p"
  by (cases k) (auto simp: window_ok_def)

lemma scan_windows:
  "scan k p bs \<longleftrightarrow> list_all (window_ok k) (array_windows2 (butlast (p # bs)))
     \<and> is_lower_or_digit (last (p # bs))"
proof (induction bs arbitrary: p)
  case Nil
  show ?case by (simp add: array_windows2_def)
next
  case (Cons b bs)
  show ?case
  proof (cases bs)
    case Nil
    then show ?thesis
      using separator_not_lower by (auto simp: array_windows2_def)
  next
    case (Cons b' bs')
    then show ?thesis
      using Cons.IH [of b] by (auto simp: array_windows2_def window_ok_iff)
  qed
qed


definition good_words :: "string list \<Rightarrow> bool" where
  "good_words ws \<longleftrightarrow> (\<forall>w \<in> set ws. w \<noteq> [] \<and> (\<forall>c \<in> set w. is_lower_or_digit c))"

lemma good_words_Cons [simp]:
  "good_words (w # ws) \<longleftrightarrow> w \<noteq> [] \<and> (\<forall>c \<in> set w. is_lower_or_digit c) \<and> good_words ws"
  by (auto simp: good_words_def)

lemma good_words_Nil [simp]: "good_words []"
  by (simp add: good_words_def)

lemma field_words_not_Nil [simp]: "field_words k s \<noteq> []"
  by (induction s) (auto split: list.splits)

lemma field_words_ConsE:
  obtains w ws where "field_words k s = w # ws"
  using field_words_not_Nil [of k s] by (cases "field_words k s") auto

lemma scan_words:
  "(is_lower_or_digit p \<longrightarrow> scan k p bs = good_words (field_words k (p # bs)))
   \<and> (p \<in> separators k \<longrightarrow> scan k p bs = good_words (field_words k bs))"
proof (induction bs arbitrary: p)
  case Nil
  then show ?case using separator_not_lower by auto
next
  case (Cons b bs)
  obtain w ws where "field_words k bs = w # ws" by (rule field_words_ConsE)
  then show ?case
    using Cons.IH [of b] separator_not_lower [of b k] separator_not_lower [of p k] by auto
qed

lemma take_butlast: "take (length s - 1) s = butlast s"
  by (simp add: butlast_conv_take)

lemma field_words_first_lower:
  "good_words (field_words k (p # bs)) \<Longrightarrow> is_lower_or_digit p"
  by (auto split: if_splits list.splits)

lemma is_valid_part_spec:
  "is_valid_sysand_purl_part s kind = field_spec kind s"
proof (cases s)
  case Nil
  then show ?thesis by (simp add: is_valid_sysand_purl_part_def field_spec_def)
next
  case (Cons p bs)
  have "last s = s ! (length s - 1)" using Cons by (simp add: last_conv_nth)
  then have "is_valid_sysand_purl_part s kind \<longleftrightarrow>
      3 \<le> length s \<and> length s \<le> 50 \<and> is_lower_or_digit p \<and> scan kind p bs"
    using scan_windows [of kind p bs] Cons
    unfolding is_valid_sysand_purl_part_def take_butlast by auto
  moreover have "good_words (field_words kind s) \<longleftrightarrow> is_lower_or_digit p \<and> scan kind p bs"
    using scan_words [of p kind bs] field_words_first_lower Cons by metis
  ultimately show ?thesis by (auto simp: field_spec_def good_words_def)
qed

section \<open>Normalization\<close>

lemma normalize_field_idem [simp]: "normalize_field (normalize_field s) = normalize_field s"
proof -
  have "ascii_lower CHR ''-'' = CHR ''-''"
    by (simp add: ascii_lower_def is_ascii_uppercase_def byte_def)
  then show ?thesis
    by (auto simp: normalize_field_def to_ascii_lowercase_def)
qed

lemma length_normalize_field [simp]: "length (normalize_field s) = length s"
  by (simp add: normalize_field_def)

lemma field_words_chars:
  "c \<in> set s \<Longrightarrow> c \<in> separators k \<or> (\<exists>w \<in> set (field_words k s). c \<in> set w)"
  by (induction s) (auto split: list.splits)

lemma valid_part_chars:
  assumes "is_valid_sysand_purl_part s k" and "c \<in> set s"
  shows "is_lower_or_digit c \<or> c \<in> separators k"
  using assms field_words_chars [of c s k] by (auto simp: is_valid_part_spec field_spec_def)

lemma normalize_field_valid:
  assumes "is_valid_sysand_purl_part s k"
  shows "normalize_field s = s"
proof -
  have "(if ascii_lower c = CHR '' '' then CHR ''-'' else ascii_lower c) = c" if "c \<in> set s" for c
  proof -
    have "\<not> is_ascii_uppercase c \<and> c \<noteq> CHR '' ''"
      using valid_part_chars [OF assms that]
      by (cases k) (auto simp: is_lower_or_digit_def ascii_simps byte_def)
    then show ?thesis by (auto simp: ascii_lower_def)
  qed
  then show ?thesis
    unfolding normalize_field_def to_ascii_lowercase_def map_map comp_def
    by (intro map_idI) simp
qed

lemma valid_part_no_slash:
  assumes "is_valid_sysand_purl_part s k"
  shows "CHR ''/'' \<notin> set s"
proof
  assume "CHR ''/'' \<in> set s"
  from valid_part_chars [OF assms this] show False
    by (cases k) (auto simp: is_lower_or_digit_def ascii_simps byte_def)
qed

section \<open>Parsing\<close>

lemma has_sysand_prefix_iff:
  "has_sysand_prefix iri \<longleftrightarrow>
    (\<exists>sch rest. iri = sch @ '':sysand/'' @ rest \<and> eq_ignore_ascii_case sch ''pkg'')"
proof
  assume h: "has_sysand_prefix iri"
  then obtain rest where "drop 3 iri = '':sysand/'' @ rest"
    by (auto simp: has_sysand_prefix_def starts_with_iff)
  then have "iri = take 3 iri @ '':sysand/'' @ rest" by (metis append_take_drop_id)
  then show "\<exists>sch rest. iri = sch @ '':sysand/'' @ rest \<and> eq_ignore_ascii_case sch ''pkg''"
    using h unfolding has_sysand_prefix_def by blast
next
  assume "\<exists>sch rest. iri = sch @ '':sysand/'' @ rest \<and> eq_ignore_ascii_case sch ''pkg''"
  then obtain sch rest where iri: "iri = sch @ '':sysand/'' @ rest"
    and e: "eq_ignore_ascii_case sch ''pkg''" by blast
  have "length sch = 3"
    using e unfolding eq_ignore_ascii_case_def
    by (metis length_to_ascii_lowercase length_Cons list.size(3) numeral_3_eq_3)
  then show "has_sysand_prefix iri"
    using e iri by (simp add: has_sysand_prefix_def PKG_SYSAND_PREFIX_def starts_with_def)
qed

lemma eq_ignore_case_length: "eq_ignore_ascii_case s t \<Longrightarrow> length s = length t"
  unfolding eq_ignore_ascii_case_def by (metis length_to_ascii_lowercase)

lemma sysand_prefix_rest:
  assumes "eq_ignore_ascii_case sch ''pkg''"
  shows "drop (length PKG_SYSAND_PREFIX) (sch @ '':sysand/'' @ rest) = rest"
  using eq_ignore_case_length [OF assms] by (simp add: PKG_SYSAND_PREFIX_def)

lemma parse_sysand_purl_rest:
  assumes "eq_ignore_ascii_case sch ''pkg''"
  shows "parse_sysand_purl (sch @ '':sysand/'' @ p @ CHR ''/'' # n) = Ok (Some (p, n)) \<longleftrightarrow>
    is_valid_purl_publisher p \<and> is_valid_purl_name n" (is "?l = ?r")
proof -
  let ?iri = "sch @ '':sysand/'' @ p @ CHR ''/'' # n"
  have pre: "has_sysand_prefix ?iri" using assms has_sysand_prefix_iff by blast
  have drp: "drop (length PKG_SYSAND_PREFIX) ?iri = p @ CHR ''/'' # n"
    by (rule sysand_prefix_rest [OF assms])
  show ?thesis
  proof
    assume ?l
    then show ?r using pre drp
      unfolding parse_sysand_purl_def by (auto simp: Let_def split: list.splits if_splits)
  next
    assume r: ?r
    then have "split_on CHR ''/'' (p @ CHR ''/'' # n) = [p, n]"
      using valid_part_no_slash unfolding split_on_two is_valid_purl_publisher_def is_valid_purl_name_def
      by blast
    then show ?l using r pre drp unfolding parse_sysand_purl_def by (simp add: Let_def)
  qed
qed

text \<open>Everything the parser can return, by cases.\<close>

lemma parse_sysand_purl_SomeD:
  assumes "parse_sysand_purl iri = Ok (Some (p, n))"
  obtains sch where "iri = sch @ '':sysand/'' @ p @ CHR ''/'' # n"
    and "eq_ignore_ascii_case sch ''pkg''"
    and "is_valid_purl_publisher p" and "is_valid_purl_name n"
proof -
  from assms have "has_sysand_prefix iri" by (auto simp: parse_sysand_purl_def split: if_splits)
  then obtain sch rest where iri: "iri = sch @ '':sysand/'' @ rest"
    and e: "eq_ignore_ascii_case sch ''pkg''" using has_sysand_prefix_iff by blast
  from assms have "split_on CHR ''/'' rest = [p, n]"
    unfolding parse_sysand_purl_def iri sysand_prefix_rest [OF e]
    by (auto simp: Let_def split: list.splits if_splits)
  then have "rest = p @ CHR ''/'' # n" by (simp add: split_on_two)
  then show ?thesis
    using that iri e assms parse_sysand_purl_rest [OF e, of p n] by blast
qed

section \<open>Properties\<close>

text \<open>C40: \<open>parse_sysand_purl\<close> yields a publisher and a name exactly for the IRIs
  \<^verbatim>\<open>pkg:sysand/<publisher>/<name>\<close> (the scheme in any letter case) whose two segments
  satisfy the field rules, and it yields those segments.\<close>

theorem parse_sysand_purl_accepts:
  "parse_sysand_purl iri = Ok (Some (p, n)) \<longleftrightarrow>
    (\<exists>sch. iri = sch @ '':sysand/'' @ p @ ''/'' @ n \<and> eq_ignore_ascii_case sch ''pkg''
      \<and> field_spec Publisher p \<and> field_spec Name n)"
proof
  assume "parse_sysand_purl iri = Ok (Some (p, n))"
  then show "\<exists>sch. iri = sch @ '':sysand/'' @ p @ ''/'' @ n \<and> eq_ignore_ascii_case sch ''pkg''
      \<and> field_spec Publisher p \<and> field_spec Name n"
    by (rule parse_sysand_purl_SomeD)
      (auto simp: is_valid_purl_publisher_def is_valid_purl_name_def is_valid_part_spec)
next
  assume "\<exists>sch. iri = sch @ '':sysand/'' @ p @ ''/'' @ n \<and> eq_ignore_ascii_case sch ''pkg''
      \<and> field_spec Publisher p \<and> field_spec Name n"
  then show "parse_sysand_purl iri = Ok (Some (p, n))"
    using parse_sysand_purl_rest
    by (auto simp: is_valid_purl_publisher_def is_valid_purl_name_def is_valid_part_spec)
qed

text \<open>when \<open>parse_sysand_purl\<close> rejects an IRI as not normalized, the URL it suggests in
  the error is itself accepted, with the normalized segments.\<close>

theorem parse_sysand_purl_suggestion:
  assumes "parse_sysand_purl iri = Err (NotNormalized purl np nn)"
  shows "purl = iri \<and> parse_sysand_purl (PKG_SYSAND_PREFIX @ np @ ''/'' @ nn) = Ok (Some (np, nn))"
proof -
  from assms have iri: "purl = iri"
    and v: "is_valid_purl_publisher np" "is_valid_purl_name nn"
    by (auto simp: parse_sysand_purl_def Let_def is_valid_unnormalized_name_def
        is_valid_unnormalized_publisher_def is_valid_unnormalized_field_def
        is_valid_purl_publisher_def is_valid_purl_name_def
        split: if_splits list.splits)
  have "eq_ignore_ascii_case ''pkg'' ''pkg''" by (simp add: eq_ignore_ascii_case_def)
  from parse_sysand_purl_rest [OF this, of np nn] v iri show ?thesis
    by (simp add: PKG_SYSAND_PREFIX_def)
qed

theorem parse_sysand_purl_suggestion_witness:
  "parse_sysand_purl ''pkg:sysand/acme-labs/my.project'' = Ok (Some (''acme-labs'', ''my.project''))"
  using parse_sysand_purl_suggestion
    [of "''PKG:sysand/Acme Labs/My.Project''" "''PKG:sysand/Acme Labs/My.Project''"
        "''acme-labs''" "''my.project''"]
  by code_simp

text \<open>the byte-window scan of \<open>is_valid_sysand_purl_part\<close> decides the documented field rules:
  3 to 50 bytes, non-empty words of lower-case letters and digits joined by single separators.\<close>

theorem is_valid_sysand_purl_part_spec:
  "is_valid_sysand_purl_part s kind \<longleftrightarrow> field_spec kind s"
  by (rule is_valid_part_spec)

end
