(* ===== verification/UnixPath.thy ===== *)
theory UnixPath
  imports Prelude
begin

text \<open>
  Path handling: \<^verbatim>\<open>RelativePathKind\<close> and \<^verbatim>\<open>parse_relative_unix_path\<close> of
  \<^verbatim>\<open>core/src/utils.rs\<close>, and \<^verbatim>\<open>relativize_path\<close> of \<^verbatim>\<open>core/src/project/utils.rs\<close>.
  The test for a Windows absolute path belongs to the \<^verbatim>\<open>typed_path\<close> crate and is an argument
  of the model. \<^verbatim>\<open>Utf8Path::components\<close> is modelled for Unix paths. The path that
  \<^verbatim>\<open>relativize_path\<close> builds is kept as the list of components it pushes, and a failed
  \<^verbatim>\<open>assert!\<close> is \<open>None\<close>.
\<close>

section \<open>Relative paths in manifests\<close>

datatype RelativeUnixPathError =
    Absolute string
  | ContainsBackslash string
  | ContainsDoubleSlash string
  | ContainsCurrent string
  | ContainsParent string
  | ContainsNull string
  | DirectoryPath string

datatype RelativePathKind = SubFile | File | SubDirectory | Directory

fun is_file :: "RelativePathKind \<Rightarrow> bool" where
  "is_file SubFile = True"
| "is_file File = True"
| "is_file SubDirectory = False"
| "is_file Directory = False"

fun allow_relative_components :: "RelativePathKind \<Rightarrow> bool" where
  "allow_relative_components SubFile = False"
| "allow_relative_components SubDirectory = False"
| "allow_relative_components File = True"
| "allow_relative_components Directory = True"

abbreviation (input) NUL :: char where "NUL \<equiv> CHR 0x00"
abbreviation (input) BACKSLASH :: char where "BACKSLASH \<equiv> CHR 0x5C"
abbreviation (input) SLASH :: char where "SLASH \<equiv> CHR ''/''"

fun check_path_bytes :: "string \<Rightarrow> string \<Rightarrow> (unit, RelativeUnixPathError) result" where
  "check_path_bytes path [] = Ok ()"
| "check_path_bytes path (c # cs) =
    (if c = NUL then Err (ContainsNull path)
     else if c = BACKSLASH then Err (ContainsBackslash path)
     else check_path_bytes path cs)"

fun check_components ::
  "string \<Rightarrow> RelativePathKind \<Rightarrow> string list \<Rightarrow> (unit, RelativeUnixPathError) result" where
  "check_components path kind [] = Ok ()"
| "check_components path kind (c # cs) =
    (if c = [] then Err (ContainsDoubleSlash path)
     else if \<not> allow_relative_components kind \<and> c = ''.'' then Err (ContainsCurrent path)
     else if \<not> allow_relative_components kind \<and> c = ''..'' then Err (ContainsParent path)
     else check_components path kind cs)"

definition strip_trailing_slash ::
  "string \<Rightarrow> RelativePathKind \<Rightarrow> (string, RelativeUnixPathError) result" where
  "strip_trailing_slash path kind =
    (case strip_suffix [SLASH] path of
       Some s \<Rightarrow> if is_file kind then Err (DirectoryPath path) else Ok s
     | None \<Rightarrow> Ok path)"

definition parse_relative_unix_path ::
  "(string \<Rightarrow> bool) \<Rightarrow> string \<Rightarrow> RelativePathKind \<Rightarrow> (string, RelativeUnixPathError) result" where
  "parse_relative_unix_path windows_is_absolute path kind =
    (if windows_is_absolute path \<or> starts_with [SLASH] path then Err (Absolute path)
     else and_then (check_path_bytes path path) (\<lambda>_.
          and_then (strip_trailing_slash path kind) (\<lambda>stripped.
          and_then (check_components path kind (split_on SLASH stripped)) (\<lambda>_.
          Ok path))))"

section \<open>Following a path\<close>

text \<open>The directory reached by following a relative path from a directory, both as lists of
  component names: \<^verbatim>\<open>..\<close> leaves the current directory, \<^verbatim>\<open>.\<close> and empty components
  stay in it.\<close>

fun walk :: "string list \<Rightarrow> string list \<Rightarrow> string list" where
  "walk dir [] = dir"
| "walk dir (c # cs) =
    (if c = ''..'' then walk (butlast dir) cs
     else if c = ''.'' \<or> c = [] then walk dir cs
     else walk (dir @ [c]) cs)"

lemma walk_append: "walk dir (xs @ ys) = walk (walk dir xs) ys"
  by (induction dir xs rule: walk.induct) auto

lemma walk_plain:
  "\<forall>c \<in> set cs. c \<noteq> ''..'' \<and> c \<noteq> ''.'' \<and> c \<noteq> [] \<Longrightarrow> walk dir cs = dir @ cs"
  by (induction cs arbitrary: dir) auto

lemma walk_up: "walk (dir @ xs) (replicate (length xs) ''..'') = dir"
proof (induction xs rule: rev_induct)
  case Nil
  show ?case by simp
next
  case (snoc x xs)
  have "butlast (dir @ xs @ [x]) = dir @ xs" by (simp add: butlast_append)
  with snoc show ?case by simp
qed

lemma check_path_bytes_Ok:
  "check_path_bytes path cs = Ok u \<longleftrightarrow> NUL \<notin> set cs \<and> BACKSLASH \<notin> set cs"
  by (induction cs) auto

lemma check_components_Ok:
  "check_components path kind cs = Ok u \<longleftrightarrow>
    [] \<notin> set cs \<and> (\<not> allow_relative_components kind \<longrightarrow> ''.'' \<notin> set cs \<and> ''..'' \<notin> set cs)"
  by (induction cs) auto

lemma strip_trailing_slash_Ok:
  "strip_trailing_slash path kind = Ok s \<longleftrightarrow>
    (path = s @ [SLASH] \<and> \<not> is_file kind) \<or> (path = s \<and> (\<forall>t. path \<noteq> t @ [SLASH]))"
  by (auto simp: strip_trailing_slash_def strip_suffix_None split: option.splits)

lemma split_on_trailing: "split_on c (s @ [c]) = split_on c s @ [[]]"
  by (induction s) (auto split: list.splits)

section \<open>Relativizing a path\<close>

datatype Utf8Component = RootDir | CurDir | ParentDir | is_Normal: Normal string

fun component_of :: "string \<Rightarrow> Utf8Component" where
  "component_of c = (if c = ''..'' then ParentDir else if c = ''.'' then CurDir else Normal c)"

definition components :: "string \<Rightarrow> Utf8Component list" where
  "components path =
    (let parts = split_on SLASH path in
     if starts_with [SLASH] path
     then RootDir # map component_of (filter (\<lambda>c. c \<noteq> [] \<and> c \<noteq> ''.'') parts)
     else (case parts of
             [] \<Rightarrow> []
           | c # cs \<Rightarrow> (if c = [] then [] else [component_of c])
               @ map component_of (filter (\<lambda>c. c \<noteq> [] \<and> c \<noteq> ''.'') cs)))"

definition contains_non_canonical_components :: "string \<Rightarrow> bool" where
  "contains_non_canonical_components path =
    list_ex (\<lambda>c. c = CurDir \<or> c = ParentDir) (components path)"

datatype RelativizePathError = NoCommonPrefix string string

fun skip_common :: "'a list \<Rightarrow> 'a list \<Rightarrow> 'a list \<times> 'a list" where
  "skip_common (p # ps) (r # rs) = (if p = r then skip_common ps rs else (p # ps, r # rs))"
| "skip_common ps rs = (ps, rs)"

fun component_str :: "Utf8Component \<Rightarrow> string" where
  "component_str RootDir = [SLASH]"
| "component_str CurDir = ''.''"
| "component_str ParentDir = ''..''"
| "component_str (Normal s) = s"

definition relativize_components ::
  "Utf8Component list \<Rightarrow> Utf8Component list \<Rightarrow> string list" where
  "relativize_components path_iter root_iter =
    (let (ps, rs) = skip_common path_iter root_iter;
         result = map (\<lambda>_. ''..'') (filter is_Normal rs) @ map component_str ps in
     if result = [] then [''.''] else result)"

definition relativize_path ::
  "string \<Rightarrow> string \<Rightarrow> (string list, RelativizePathError) result option" where
  "relativize_path path root =
    (if \<not> starts_with [SLASH] path \<or> \<not> starts_with [SLASH] root
        \<or> contains_non_canonical_components path \<or> contains_non_canonical_components root then None
     else Some (case (components path, components root) of
         (p0 # ps, r0 # rs) \<Rightarrow>
           if p0 = r0 then Ok (relativize_components ps rs) else Err (NoCommonPrefix path root)
       | _ \<Rightarrow> Err (NoCommonPrefix path root)))"

text \<open>The names below the root of an absolute path.\<close>

definition abs_names :: "string \<Rightarrow> string list" where
  "abs_names path = filter (\<lambda>c. c \<noteq> [] \<and> c \<noteq> ''.'') (split_on SLASH path)"

lemma components_canonical:
  assumes "starts_with [SLASH] path" and "\<not> contains_non_canonical_components path"
  shows "components path = RootDir # map Normal (abs_names path)"
    and "\<forall>c \<in> set (abs_names path). c \<noteq> ''..'' \<and> c \<noteq> ''.'' \<and> c \<noteq> []"
proof -
  have c: "components path = RootDir # map component_of (abs_names path)"
    using assms(1) by (simp add: components_def abs_names_def Let_def)
  have plain: "c \<noteq> ''..'' \<and> c \<noteq> ''.'' \<and> c \<noteq> []" if "c \<in> set (abs_names path)" for c
  proof -
    have "component_of c \<noteq> ParentDir"
      using assms(2) that unfolding contains_non_canonical_components_def c
      by (auto simp: list_ex_iff simp del: component_of.simps)
    then show ?thesis using that by (auto simp: abs_names_def)
  qed
  then show "\<forall>c \<in> set (abs_names path). c \<noteq> ''..'' \<and> c \<noteq> ''.'' \<and> c \<noteq> []" by blast
  show "components path = RootDir # map Normal (abs_names path)"
    unfolding c using plain by (simp cong: map_cong)
qed

lemma skip_common_suffixes:
  "skip_common ps rs = (ps', rs') \<Longrightarrow> \<exists>c. ps = c @ ps' \<and> rs = c @ rs'"
proof (induction ps rs rule: skip_common.induct)
  case (1 p ps r rs)
  show ?case
  proof (cases "p = r")
    case True
    with 1 obtain c where "ps = c @ ps'" "rs = c @ rs'" by auto
    with True have "p # ps = (r # c) @ ps' \<and> r # rs = (r # c) @ rs'" by simp
    then show ?thesis by blast
  next
    case False
    with 1 show ?thesis by auto
  qed
qed auto

lemma skip_common_map:
  assumes "inj f"
  shows "skip_common (map f ps) (map f rs) = map_prod (map f) (map f) (skip_common ps rs)"
  using injD [OF assms] by (induction ps rs rule: skip_common.induct) auto

lemma relativize_components_walk:
  assumes "\<forall>c \<in> set ps. c \<noteq> ''..'' \<and> c \<noteq> ''.'' \<and> c \<noteq> []"
  shows "walk rs (relativize_components (map Normal ps) (map Normal rs)) = ps"
proof -
  obtain ps' rs' where sk: "skip_common ps rs = (ps', rs')" by force
  then obtain c where c: "ps = c @ ps'" "rs = c @ rs'" using skip_common_suffixes by blast
  have "skip_common (map Normal ps) (map Normal rs) = (map Normal ps', map Normal rs')"
    by (simp add: skip_common_map inj_def sk)
  moreover have "filter is_Normal (map Normal rs') = map Normal rs'" by (simp add: filter_id_conv)
  moreover have "map component_str (map Normal ps') = ps'" by (simp add: map_idI)
  ultimately have rel: "relativize_components (map Normal ps) (map Normal rs) =
      (if replicate (length rs') ''..'' @ ps' = [] then [''.'']
       else replicate (length rs') ''..'' @ ps')"
    by (simp add: relativize_components_def comp_def map_replicate_const)
  have "walk rs (replicate (length rs') ''..'' @ ps') = ps"
    using assms c by (simp add: walk_append walk_up walk_plain)
  then show ?thesis unfolding rel by (auto simp: c)
qed

section \<open>Properties\<close>

text \<open>C34: a path accepted as \<open>SubFile\<close> or \<open>SubDirectory\<close> never escapes: following its components
  from any directory ends below that directory, at the components of the path in order.\<close>

theorem parse_relative_unix_path_no_escape:
  assumes "parse_relative_unix_path win path kind = Ok p"
    and "kind = SubFile \<or> kind = SubDirectory"
  shows "p = path \<and> (\<exists>cs. cs \<noteq> [] \<and> walk dir (split_on SLASH path) = dir @ cs
    \<and> join_with SLASH cs = (if path \<noteq> [] \<and> last path = SLASH then butlast path else path))"
proof -
  from assms obtain s where s: "p = path" "strip_trailing_slash path kind = Ok s"
      "check_components path kind (split_on SLASH s) = Ok ()"
    by (auto simp: parse_relative_unix_path_def split: if_splits)
  let ?cs = "split_on SLASH s"
  have "\<forall>c \<in> set ?cs. c \<noteq> ''..'' \<and> c \<noteq> ''.'' \<and> c \<noteq> []"
    using s(3) assms(2) by (auto simp: check_components_Ok)
  then have w: "walk dir ?cs = dir @ ?cs" by (rule walk_plain)
  from s(2) consider "path = s @ [SLASH]" | "path = s" "\<forall>t. path \<noteq> t @ [SLASH]"
    by (auto simp: strip_trailing_slash_Ok)
  then show ?thesis
  proof cases
    case 1
    then have "walk dir (split_on SLASH path) = dir @ ?cs"
      using w by (simp add: split_on_trailing walk_append)
    then show ?thesis using s(1) 1 by (intro conjI exI [of _ ?cs]) auto
  next
    case 2
    then have "\<not> (path \<noteq> [] \<and> last path = SLASH)" by (metis append_butlast_last_id)
    then show ?thesis using s(1) 2(1) w by (intro conjI exI [of _ ?cs]) auto
  qed
qed

theorem parse_relative_unix_path_no_escape_witness:
  "\<exists>cs. cs \<noteq> [] \<and> walk [''srv''] (split_on SLASH ''lib/a.sysml'') = ''srv'' # cs
    \<and> join_with SLASH cs = ''lib/a.sysml''"
  using parse_relative_unix_path_no_escape
    [of "\<lambda>_. False" "''lib/a.sysml''" SubFile "''lib/a.sysml''" "[''srv'']"]
  by (simp add: parse_relative_unix_path_def strip_trailing_slash_def starts_with_def
      strip_suffix_def ends_with_def)

text \<open>for every kind, \<open>parse_relative_unix_path\<close> accepts exactly the paths that are not
  absolute, contain neither NUL nor backslash, have no empty component apart from the one after
  a trailing slash (allowed for directories only), and, for the \<open>Sub\<close> kinds, have no
  \<^verbatim>\<open>.\<close> or \<^verbatim>\<open>..\<close> component. In particular the empty path is rejected.\<close>

theorem parse_relative_unix_path_accepts:
  "parse_relative_unix_path win path kind = Ok p \<longleftrightarrow>
    p = path \<and> path \<noteq> [] \<and> \<not> win path \<and> NUL \<notin> set path \<and> BACKSLASH \<notin> set path
    \<and> (\<exists>cs. cs \<noteq> [] \<and> [] \<notin> set cs \<and> (\<forall>c \<in> set cs. SLASH \<notin> set c)
        \<and> (path = join_with SLASH cs \<or> \<not> is_file kind \<and> path = join_with SLASH cs @ [SLASH])
        \<and> (\<not> allow_relative_components kind \<longrightarrow> ''.'' \<notin> set cs \<and> ''..'' \<notin> set cs))"
    (is "?l \<longleftrightarrow> ?r")
proof
  assume ?l
  then obtain s where s: "p = path" "strip_trailing_slash path kind = Ok s" "\<not> win path"
      "NUL \<notin> set path" "BACKSLASH \<notin> set path"
      "check_components path kind (split_on SLASH s) = Ok ()"
    by (auto simp: parse_relative_unix_path_def check_path_bytes_Ok split: if_splits)
  have "path \<noteq> []" using s(2,6) by (auto simp: strip_trailing_slash_Ok check_components_Ok)
  then show ?r
    using s split_on_free [of _ SLASH s]
    by (intro conjI exI [of _ "split_on SLASH s"])
      (auto simp: strip_trailing_slash_Ok check_components_Ok)
next
  assume r: ?r
  then obtain cs where cs: "cs \<noteq> []" "[] \<notin> set cs" "\<forall>c \<in> set cs. SLASH \<notin> set c"
      "path = join_with SLASH cs \<or> \<not> is_file kind \<and> path = join_with SLASH cs @ [SLASH]"
      "\<not> allow_relative_components kind \<longrightarrow> ''.'' \<notin> set cs \<and> ''..'' \<notin> set cs"
    by blast
  let ?s = "join_with SLASH cs"
  have sp: "split_on SLASH ?s = cs" using cs(1,3) by simp
  have not_ends: "?s \<noteq> t @ [SLASH]" for t
  proof
    assume "?s = t @ [SLASH]"
    then have "cs = split_on SLASH t @ [[]]" using sp split_on_trailing by metis
    then show False using cs(2) by simp
  qed
  have "hd ?s \<noteq> SLASH \<and> ?s \<noteq> []"
    using cs(1-3) by (cases cs rule: remdups_adj.cases) (auto simp: hd_append, (metis hd_in_set)+)
  then have "\<not> starts_with [SLASH] path"
    using cs(4) by (cases ?s) (auto simp: starts_with_iff)
  moreover have "strip_trailing_slash path kind = Ok ?s"
    using cs(4) not_ends by (auto simp: strip_trailing_slash_Ok)
  ultimately show ?l
    using r cs(2,5) sp
    by (auto simp: parse_relative_unix_path_def check_path_bytes_Ok check_components_Ok)
qed

text \<open>C35: for canonical absolute Unix paths \<open>relativize_path\<close> neither panics nor reports a missing
  common prefix, and following the computed relative path from \<open>root\<close> arrives at \<open>path\<close>.\<close>

theorem relativize_path_arrives:
  assumes "starts_with [SLASH] path" "\<not> contains_non_canonical_components path"
    and "starts_with [SLASH] root" "\<not> contains_non_canonical_components root"
  shows "\<exists>rel. relativize_path path root = Some (Ok rel)
    \<and> walk (abs_names root) rel = abs_names path"
proof -
  note cp = components_canonical [OF assms(1,2)] and cr = components_canonical [OF assms(3,4)]
  have "relativize_path path root = Some (Ok (relativize_components
      (map Normal (abs_names path)) (map Normal (abs_names root))))"
    using assms by (simp add: relativize_path_def cp(1) cr(1))
  then show ?thesis using relativize_components_walk [OF cp(2)] by blast
qed

theorem relativize_path_arrives_witness:
  "\<exists>rel. relativize_path ''/a/x/y'' ''/a/b/c'' = Some (Ok rel)
    \<and> walk [''a'', ''b'', ''c''] rel = [''a'', ''x'', ''y'']"
proof -
  have "starts_with [SLASH] ''/a/x/y''" "\<not> contains_non_canonical_components ''/a/x/y''"
    "starts_with [SLASH] ''/a/b/c''" "\<not> contains_non_canonical_components ''/a/b/c''"
    "abs_names ''/a/x/y'' = [''a'', ''x'', ''y'']" "abs_names ''/a/b/c'' = [''a'', ''b'', ''c'']"
    by code_simp+
  then show ?thesis using relativize_path_arrives [of "''/a/x/y''" "''/a/b/c''"] by simp
qed

end
