(* ===== verification/External.thy ===== *)
theory External
  imports Prelude
begin

text \<open>
  The third-party functions the core crate calls, bundled as one record of parameters:
  \<^verbatim>\<open>fluent_uri::Iri\<close>, \<^verbatim>\<open>semver::Version\<close>, \<^verbatim>\<open>semver::VersionReq\<close>,
  \<^verbatim>\<open>chrono::DateTime\<close> and \<^verbatim>\<open>typed_path::Utf8WindowsPath\<close>. Their values have
  types of their own (type variables), their errors are represented by their messages.
  What the code relies on is stated by the predicates below, each of them documented
  behaviour of the crate concerned.
\<close>

record ('iri, 'ver, 'req, 'time) externs =
  iri_parse :: "string \<Rightarrow> ('iri, string) result"
  iri_str :: "'iri \<Rightarrow> string"
  ver_parse :: "string \<Rightarrow> ('ver, string) result"
  ver_str :: "'ver \<Rightarrow> string"
  req_parse :: "string \<Rightarrow> ('req, string) result"
  req_str :: "'req \<Rightarrow> string"
  req_matches :: "'req \<Rightarrow> 'ver \<Rightarrow> bool"
  time_parse :: "string \<Rightarrow> ('time, string) result"
  time_format :: "'time \<Rightarrow> string"
  windows_is_absolute :: "string \<Rightarrow> bool"

text \<open>An IRI keeps the text it was parsed from.\<close>

definition iri_text_law :: "('iri, 'ver, 'req, 'time) externs \<Rightarrow> bool" where
  "iri_text_law E \<longleftrightarrow> (\<forall>s i. iri_parse E s = Ok i \<longrightarrow> iri_str E i = s)"

text \<open>The text of a version, or of a version requirement, parses back to it.\<close>

definition ver_print_law :: "('iri, 'ver, 'req, 'time) externs \<Rightarrow> bool" where
  "ver_print_law E \<longleftrightarrow> (\<forall>v. ver_parse E (ver_str E v) = Ok v)"

definition req_print_law :: "('iri, 'ver, 'req, 'time) externs \<Rightarrow> bool" where
  "req_print_law E \<longleftrightarrow> (\<forall>r. req_parse E (req_str E r) = Ok r)"

text \<open>A timestamp printed at second granularity parses back to itself without its
  sub-second part.\<close>

definition time_print_law ::
  "('time \<Rightarrow> 'time) \<Rightarrow> ('iri, 'ver, 'req, 'time) externs \<Rightarrow> bool" where
  "time_print_law trunc_secs E \<longleftrightarrow> (\<forall>t. time_parse E (time_format E t) = Ok (trunc_secs t))"

section \<open>A concrete instance\<close>

text \<open>All four types are strings. IRIs contain a colon and no space. Versions are any
  strings. Requirements are a version or the wildcard. It is used to evaluate the model
  on concrete inputs.\<close>

definition sample_externs :: "(string, string, string, string) externs" where
  "sample_externs = \<lparr>
     iri_parse = (\<lambda>s. if CHR '':'' \<in> set s \<and> CHR '' '' \<notin> set s then Ok s else Err ''not an IRI''),
     iri_str = (\<lambda>s. s),
     ver_parse = Ok,
     ver_str = (\<lambda>s. s),
     req_parse = Ok,
     req_str = (\<lambda>s. s),
     req_matches = (\<lambda>r v. r = ''*'' \<or> r = v),
     time_parse = Ok,
     time_format = (\<lambda>s. s),
     windows_is_absolute = (\<lambda>s. 2 \<le> length s \<and> s ! 1 = CHR '':'')\<rparr>"

lemma sample_laws [simp]:
  "iri_text_law sample_externs" "ver_print_law sample_externs"
  "req_print_law sample_externs" "time_print_law (\<lambda>t. t) sample_externs"
  by (auto simp: sample_externs_def iri_text_law_def ver_print_law_def req_print_law_def
      time_print_law_def)

end
