(* ===== verification/Model.thy ===== *)
theory Model
  imports External UnixPath Purl
begin

text \<open>
  Project information and metadata, \<^verbatim>\<open>core/src/model.rs\<close>: the generic structures with
  their raw (unparsed) and validated instances, validation, conversion back to the raw form,
  the checksum algorithm names, and the operations on the symbol index and the checksum table
  of the metadata. Parsing of IRIs, versions and timestamps is external; a JSON document is
  represented by the raw structure it is deserialized into.
\<close>

section \<open>Data\<close>

datatype ('iri, 'req) InterchangeProjectUsageG =
  Resource (resource: 'iri) (version_constraint: "'req option")

type_synonym InterchangeProjectUsageRaw = "(string, string) InterchangeProjectUsageG"

record ('iri, 'ver, 'req) InterchangeProjectInfoG =
  i_name :: string
  i_publisher :: "string option"
  i_description :: "string option"
  i_version :: 'ver
  i_license :: "string option"
  i_maintainer :: "string list"
  i_website :: "'iri option"
  i_topic :: "string list"
  i_usage :: "('iri, 'req) InterchangeProjectUsageG list"

type_synonym InterchangeProjectInfoRaw = "(string, string, string) InterchangeProjectInfoG"

datatype KerMlChecksumAlg =
    NoneAlg | Sha1 | Sha224 | Sha256 | Sha384 | Sha3_256 | Sha3_384 | Sha3_512
  | Blake2b256 | Blake2b384 | Blake2b512 | Blake3 | Md2 | Md4 | Md5 | Md6 | Adler32

record 'alg InterchangeProjectChecksumG =
  c_value :: string
  c_algorithm :: 'alg

type_synonym InterchangeProjectChecksum = "KerMlChecksumAlg InterchangeProjectChecksumG"
type_synonym InterchangeProjectChecksumRaw = "string InterchangeProjectChecksumG"

record ('iri, 'time, 'ipc) InterchangeProjectMetadataG =
  m_index :: "(string \<times> string) list"
  m_created :: 'time
  m_metamodel :: "'iri option"
  m_includes_derived :: "bool option"
  m_includes_implied :: "bool option"
  m_checksum :: "(string \<times> 'ipc) list option"

type_synonym InterchangeProjectMetadataRaw =
  "(string, string, InterchangeProjectChecksumRaw) InterchangeProjectMetadataG"

datatype InterchangeProjectValidationError =
    InvalidWebsite string string
  | InvalidUsageResource string string
  | InvalidMetamodel string string
  | InvalidProjectVersion string string
  | InvalidUsageVersionConstraint string string string
  | InvalidPathInIndex RelativeUnixPathError
  | InvalidPathInChecksum RelativeUnixPathError
  | InvalidCreatedTime string string
  | InvalidChecksumAlg string
  | IncorrectChecksumLen KerMlChecksumAlg nat nat
  | NonHexChecksumChars string
  | MalformedUsageSysandPurl string SysandPurlError

section \<open>Checksum algorithms\<close>

fun alg_try_from :: "string \<Rightarrow> (KerMlChecksumAlg, unit) result" where
  "alg_try_from value =
    (if value = ''NONE'' then Ok NoneAlg
     else if value = ''SHA1'' then Ok Sha1
     else if value = ''SHA224'' then Ok Sha224
     else if value = ''SHA256'' then Ok Sha256
     else if value = ''SHA-384'' then Ok Sha384
     else if value = ''SHA3-256'' then Ok Sha3_256
     else if value = ''SHA3-384'' then Ok Sha3_384
     else if value = ''SHA3-512'' then Ok Sha3_512
     else if value = ''BLAKE2b-256'' then Ok Blake2b256
     else if value = ''BLAKE2b-384'' then Ok Blake2b384
     else if value = ''BLAKE2b-512'' then Ok Blake2b512
     else if value = ''BLAKE3'' then Ok Blake3
     else if value = ''MD2'' then Ok Md2
     else if value = ''MD4'' then Ok Md4
     else if value = ''MD5'' then Ok Md5
     else if value = ''MD6'' then Ok Md6
     else if value = ''ADLER32'' then Ok Adler32
     else Err ())"

fun alg_str :: "KerMlChecksumAlg \<Rightarrow> string" where
  "alg_str NoneAlg = ''NONE''"
| "alg_str Sha1 = ''SHA1''"
| "alg_str Sha224 = ''SHA224''"
| "alg_str Sha256 = ''SHA256''"
| "alg_str Sha384 = ''SHA-384''"
| "alg_str Sha3_256 = ''SHA3-256''"
| "alg_str Sha3_384 = ''SHA3-384''"
| "alg_str Sha3_512 = ''SHA3-512''"
| "alg_str Blake2b256 = ''BLAKE2b-256''"
| "alg_str Blake2b384 = ''BLAKE2b-384''"
| "alg_str Blake2b512 = ''BLAKE2b-512''"
| "alg_str Blake3 = ''BLAKE3''"
| "alg_str Md2 = ''MD2''"
| "alg_str Md4 = ''MD4''"
| "alg_str Md5 = ''MD5''"
| "alg_str Md6 = ''MD6''"
| "alg_str Adler32 = ''ADLER32''"

fun expected_hex_len :: "KerMlChecksumAlg \<Rightarrow> nat option" where
  "expected_hex_len NoneAlg = None"
| "expected_hex_len Sha1 = Some 40"
| "expected_hex_len Sha224 = Some 56"
| "expected_hex_len Sha256 = Some 64"
| "expected_hex_len Sha3_256 = Some 64"
| "expected_hex_len Blake2b256 = Some 64"
| "expected_hex_len Blake3 = Some 64"
| "expected_hex_len Sha384 = Some 96"
| "expected_hex_len Sha3_384 = Some 96"
| "expected_hex_len Blake2b384 = Some 96"
| "expected_hex_len Sha3_512 = Some 128"
| "expected_hex_len Blake2b512 = Some 128"
| "expected_hex_len Md2 = Some 32"
| "expected_hex_len Md4 = Some 32"
| "expected_hex_len Md5 = Some 32"
| "expected_hex_len Md6 = None"
| "expected_hex_len Adler32 = Some 8"

lemma alg_try_from_str [simp]: "alg_try_from (alg_str a) = Ok a"
  by (cases a) simp_all

lemma alg_str_try_from: "alg_try_from s = Ok a \<Longrightarrow> alg_str a = s"
  by (auto split: if_splits)

declare alg_try_from.simps [simp del]

section \<open>Usages and project information\<close>

definition parse_constraint ::
  "('iri, 'ver, 'req, 'time) externs \<Rightarrow> string \<Rightarrow> string option
   \<Rightarrow> ('req option, InterchangeProjectValidationError) result" where
  "parse_constraint E res vc =
    (case vc of
       None \<Rightarrow> Ok None
     | Some c \<Rightarrow> map_ok Some (map_err (InvalidUsageVersionConstraint res c) (req_parse E c)))"

fun validate_usage ::
  "('iri, 'ver, 'req, 'time) externs \<Rightarrow> InterchangeProjectUsageRaw
   \<Rightarrow> (('iri, 'req) InterchangeProjectUsageG, InterchangeProjectValidationError) result" where
  "validate_usage E (Resource res vc) =
    and_then (map_err (MalformedUsageSysandPurl res) (parse_sysand_purl res)) (\<lambda>_.
    and_then (map_err (InvalidUsageResource res) (iri_parse E res)) (\<lambda>iri.
    and_then (parse_constraint E res vc) (\<lambda>req.
    Ok (Resource iri req))))"

fun usage_into_raw ::
  "('iri, 'ver, 'req, 'time) externs \<Rightarrow> ('iri, 'req) InterchangeProjectUsageG
   \<Rightarrow> InterchangeProjectUsageRaw" where
  "usage_into_raw E (Resource iri req) = Resource (iri_str E iri) (map_option (req_str E) req)"

definition info_into_raw ::
  "('iri, 'ver, 'req, 'time) externs \<Rightarrow> ('iri, 'ver, 'req) InterchangeProjectInfoG
   \<Rightarrow> InterchangeProjectInfoRaw" where
  "info_into_raw E value = \<lparr>
     i_name = i_name value,
     i_publisher = i_publisher value,
     i_description = i_description value,
     i_version = ver_str E (i_version value),
     i_license = i_license value,
     i_maintainer = i_maintainer value,
     i_website = map_option (iri_str E) (i_website value),
     i_topic = i_topic value,
     i_usage = map (usage_into_raw E) (i_usage value)\<rparr>"

definition info_minimal ::
  "string \<Rightarrow> 'ver \<Rightarrow> ('iri, 'ver, 'req) InterchangeProjectInfoG" where
  "info_minimal nm v = \<lparr>
     i_name = nm, i_publisher = None, i_description = None, i_version = v, i_license = None,
     i_maintainer = [], i_website = None, i_topic = [], i_usage = []\<rparr>"

definition pop_usage ::
  "'iri \<Rightarrow> ('iri, 'ver, 'req) InterchangeProjectInfoG
   \<Rightarrow> ('iri, 'req) InterchangeProjectUsageG list \<times> ('iri, 'ver, 'req) InterchangeProjectInfoG" where
  "pop_usage res info =
    (filter (\<lambda>u. resource u = res) (i_usage info),
     info\<lparr>i_usage := filter (\<lambda>u. resource u \<noteq> res) (i_usage info)\<rparr>)"

definition parse_website ::
  "('iri, 'ver, 'req, 'time) externs \<Rightarrow> string option
   \<Rightarrow> ('iri option, InterchangeProjectValidationError) result" where
  "parse_website E w =
    (case w of
       None \<Rightarrow> Ok None
     | Some s \<Rightarrow> map_ok Some (map_err (InvalidWebsite s) (iri_parse E s)))"

definition validate_info ::
  "('iri, 'ver, 'req, 'time) externs \<Rightarrow> InterchangeProjectInfoRaw
   \<Rightarrow> (('iri, 'ver, 'req) InterchangeProjectInfoG, InterchangeProjectValidationError) result" where
  "validate_info E info =
    and_then (collect_res (validate_usage E) (i_usage info)) (\<lambda>us.
    and_then (map_err (InvalidProjectVersion (i_version info)) (ver_parse E (i_version info))) (\<lambda>v.
    and_then (parse_website E (i_website info)) (\<lambda>w.
    Ok \<lparr>i_name = i_name info, i_publisher = i_publisher info,
        i_description = i_description info, i_version = v, i_license = i_license info,
        i_maintainer = i_maintainer info, i_website = w, i_topic = i_topic info,
        i_usage = us\<rparr>)))"

section \<open>Metadata\<close>

definition KNOWN_METAMODELS :: "string list" where
  "KNOWN_METAMODELS =
    [''https://www.omg.org/spec/SysML/20250201'', ''https://www.omg.org/spec/KerML/20250201'']"

definition is_ascii_hexdigit :: "char \<Rightarrow> bool" where
  "is_ascii_hexdigit c \<longleftrightarrow> is_ascii_digit c
     \<or> (65 \<le> byte c \<and> byte c \<le> 70) \<or> (97 \<le> byte c \<and> byte c \<le> 102)"

definition validate_index_entry ::
  "('iri, 'ver, 'req, 'time) externs \<Rightarrow> (string \<times> string) list \<Rightarrow> string \<times> string
   \<Rightarrow> ((string \<times> string) list, InterchangeProjectValidationError) result" where
  "validate_index_entry E index = (\<lambda>(symbol, path).
     and_then (map_err InvalidPathInIndex
         (parse_relative_unix_path (windows_is_absolute E) path SubFile)) (\<lambda>p.
     Ok (AList.update symbol p index)))"

definition validate_checksum_value ::
  "KerMlChecksumAlg \<Rightarrow> string \<Rightarrow> (string, InterchangeProjectValidationError) result" where
  "validate_checksum_value alg val =
    (case expected_hex_len alg of
       Some expected_len \<Rightarrow>
         if length val \<noteq> expected_len then Err (IncorrectChecksumLen alg expected_len (length val))
         else if \<not> list_all is_ascii_hexdigit val then Err (NonHexChecksumChars val)
         else Ok val
     | None \<Rightarrow> Ok val)"

definition validate_checksum_entry ::
  "('iri, 'ver, 'req, 'time) externs \<Rightarrow> (string \<times> InterchangeProjectChecksum) list
   \<Rightarrow> string \<times> InterchangeProjectChecksumRaw
   \<Rightarrow> ((string \<times> InterchangeProjectChecksum) list, InterchangeProjectValidationError) result" where
  "validate_checksum_entry E res = (\<lambda>(k, v).
     and_then (map_err InvalidPathInChecksum
         (parse_relative_unix_path (windows_is_absolute E) k SubFile)) (\<lambda>p.
     and_then (map_err (\<lambda>_. InvalidChecksumAlg (c_algorithm v)) (alg_try_from (c_algorithm v))) (\<lambda>alg.
     and_then (validate_checksum_value alg (c_value v)) (\<lambda>val.
     Ok (AList.update p \<lparr>c_value = val, c_algorithm = alg\<rparr> res)))))"

definition validate_checksums ::
  "('iri, 'ver, 'req, 'time) externs \<Rightarrow> (string \<times> InterchangeProjectChecksumRaw) list option
   \<Rightarrow> ((string \<times> InterchangeProjectChecksum) list option, InterchangeProjectValidationError) result" where
  "validate_checksums E cs =
    (case cs of
       None \<Rightarrow> Ok None
     | Some entries \<Rightarrow> map_ok Some (fold_res (validate_checksum_entry E) [] entries))"

definition validate_metamodel ::
  "('iri, 'ver, 'req, 'time) externs \<Rightarrow> string option
   \<Rightarrow> ('iri option, InterchangeProjectValidationError) result" where
  "validate_metamodel E m =
    (case m of
       None \<Rightarrow> Ok None
     | Some s \<Rightarrow> map_ok Some (map_err (InvalidMetamodel s) (iri_parse E s)))"

definition validate_meta ::
  "('iri, 'ver, 'req, 'time) externs \<Rightarrow> InterchangeProjectMetadataRaw
   \<Rightarrow> (('iri, 'time, InterchangeProjectChecksum) InterchangeProjectMetadataG,
       InterchangeProjectValidationError) result" where
  "validate_meta E meta =
    and_then (fold_res (validate_index_entry E) [] (m_index meta)) (\<lambda>index.
    and_then (validate_checksums E (m_checksum meta)) (\<lambda>checksum.
    and_then (validate_metamodel E (m_metamodel meta)) (\<lambda>metamodel.
    and_then (map_err (InvalidCreatedTime (m_created meta)) (time_parse E (m_created meta))) (\<lambda>created.
    Ok \<lparr>m_index = index, m_created = created, m_metamodel = metamodel,
        m_includes_derived = m_includes_derived meta, m_includes_implied = m_includes_implied meta,
        m_checksum = checksum\<rparr>))))"

definition checksum_into_raw :: "InterchangeProjectChecksum \<Rightarrow> InterchangeProjectChecksumRaw" where
  "checksum_into_raw v = \<lparr>c_value = c_value v, c_algorithm = alg_str (c_algorithm v)\<rparr>"

definition meta_into_raw ::
  "('iri, 'ver, 'req, 'time) externs
   \<Rightarrow> ('iri, 'time, InterchangeProjectChecksum) InterchangeProjectMetadataG
   \<Rightarrow> InterchangeProjectMetadataRaw" where
  "meta_into_raw E value = \<lparr>
     m_index = m_index value,
     m_created = time_format E (m_created value),
     m_metamodel = map_option (iri_str E) (m_metamodel value),
     m_includes_derived = m_includes_derived value,
     m_includes_implied = m_includes_implied value,
     m_checksum = map_option (map (\<lambda>(k, v). (k, checksum_into_raw v))) (m_checksum value)\<rparr>"

definition meta_minimal :: "'time \<Rightarrow> ('iri, 'time, 'ipc) InterchangeProjectMetadataG" where
  "meta_minimal created = \<lparr>
     m_index = [], m_created = created, m_metamodel = None, m_includes_derived = None,
     m_includes_implied = None, m_checksum = None\<rparr>"

definition file_index_symbols :: "string \<Rightarrow> InterchangeProjectMetadataRaw \<Rightarrow> string set" where
  "file_index_symbols path meta = set (map fst (filter (\<lambda>(k, v). v = path) (m_index meta)))"

definition add_checksum ::
  "string \<Rightarrow> KerMlChecksumAlg \<Rightarrow> string \<Rightarrow> bool \<Rightarrow> InterchangeProjectMetadataRaw
   \<Rightarrow> InterchangeProjectChecksumRaw option \<times> InterchangeProjectMetadataRaw" where
  "add_checksum path alg val overwrite meta =
    (let checksum = (case m_checksum meta of Some c \<Rightarrow> c | None \<Rightarrow> []);
         entry = \<lparr>c_value = val, c_algorithm = alg_str alg\<rparr> in
     case map_of checksum path of
       Some old \<Rightarrow>
         (Some old,
          meta\<lparr>m_checksum := Some (if overwrite then AList.update path entry checksum else checksum)\<rparr>)
     | None \<Rightarrow> (None, meta\<lparr>m_checksum := Some (AList.update path entry checksum)\<rparr>))"

definition remove_checksum ::
  "string \<Rightarrow> InterchangeProjectMetadataRaw
   \<Rightarrow> InterchangeProjectChecksumRaw option \<times> InterchangeProjectMetadataRaw" where
  "remove_checksum path meta =
    (case m_checksum meta of
       Some checksum \<Rightarrow> (map_of checksum path, meta\<lparr>m_checksum := Some (AList.delete path checksum)\<rparr>)
     | None \<Rightarrow> (None, meta))"

definition remove_index ::
  "string \<Rightarrow> InterchangeProjectMetadataRaw \<Rightarrow> string list \<times> InterchangeProjectMetadataRaw" where
  "remove_index path meta =
    (map fst (filter (\<lambda>(k, v). v = path) (m_index meta)),
     meta\<lparr>m_index := filter (\<lambda>(k, v). v \<noteq> path) (m_index meta)\<rparr>)"

definition source_paths :: "bool \<Rightarrow> ('iri, 'time, 'ipc) InterchangeProjectMetadataG \<Rightarrow> string set" where
  "source_paths include_index meta =
    (case m_checksum meta of Some checksum \<Rightarrow> set (map fst checksum) | None \<Rightarrow> {})
    \<union> (if include_index then set (map snd (m_index meta)) else {})"

definition project_hash_hex ::
  "(string \<Rightarrow> string) \<Rightarrow> (InterchangeProjectInfoRaw \<Rightarrow> string)
   \<Rightarrow> (InterchangeProjectMetadataRaw \<Rightarrow> string)
   \<Rightarrow> InterchangeProjectInfoRaw \<Rightarrow> InterchangeProjectMetadataRaw \<Rightarrow> string" where
  "project_hash_hex sha256_hex info_json meta_json info meta =
    sha256_hex (info_json info @ meta_json meta)"

definition wf_meta :: "('iri, 'time, 'ipc) InterchangeProjectMetadataG \<Rightarrow> bool" where
  "wf_meta meta \<longleftrightarrow> distinct (keys (m_index meta))
     \<and> (case m_checksum meta of Some cs \<Rightarrow> distinct (keys cs) | None \<Rightarrow> True)"

lemma parse_relative_unix_path_same:
  "parse_relative_unix_path win path kind = Ok p \<Longrightarrow> p = path"
  by (auto simp: parse_relative_unix_path_def split: if_splits)

lemma validate_usage_roundtrip:
  assumes "iri_text_law E" "req_print_law E"
    and "validate_usage E u = Ok v"
  shows "validate_usage E (usage_into_raw E v) = Ok v"
proof -
  obtain res vc where u: "u = Resource res vc" by (cases u)
  from assms(3) u obtain iri req pu where v: "v = Resource iri req"
    and i: "iri_parse E res = Ok iri" "parse_sysand_purl res = Ok pu" by auto
  have "iri_str E iri = res" using assms(1) i by (simp add: iri_text_law_def)
  then show ?thesis
    using v i assms(2)
    by (auto simp: parse_constraint_def req_print_law_def split: option.splits)
qed

lemma validate_info_roundtrip_aux:
  assumes "iri_text_law E" "req_print_law E" "ver_print_law E"
    and "validate_info E raw = Ok info"
  shows "validate_info E (info_into_raw E info) = Ok info"
proof -
  from assms(4) obtain us v w where
      us: "collect_res (validate_usage E) (i_usage raw) = Ok us"
    and w: "parse_website E (i_website raw) = Ok w"
    and info: "i_usage info = us" "i_website info = w"
    by (auto simp: validate_info_def)
  have "list_all2 (\<lambda>x y. validate_usage E x = Ok y) (map (usage_into_raw E) us) us"
    using us validate_usage_roundtrip [OF assms(1,2)]
    by (auto simp: collect_res_Ok list_all2_conv_all_nth)
  then have "collect_res (validate_usage E) (i_usage (info_into_raw E info)) = Ok us"
    using info by (simp add: collect_res_Ok info_into_raw_def)
  moreover have "parse_website E (i_website (info_into_raw E info)) = Ok w"
    using w info assms(1)
    by (auto simp: parse_website_def info_into_raw_def iri_text_law_def split: option.splits)
  ultimately show ?thesis
    using assms(3) info by (simp add: validate_info_def ver_print_law_def info_into_raw_def)
qed

definition check_index_path where
  "check_index_path E k path =
    map_err InvalidPathInIndex (parse_relative_unix_path (windows_is_absolute E) path SubFile)"

definition check_checksum where
  "check_checksum E k v =
    and_then (map_err InvalidPathInChecksum
         (parse_relative_unix_path (windows_is_absolute E) k SubFile)) (\<lambda>p.
    and_then (map_err (\<lambda>_. InvalidChecksumAlg (c_algorithm v)) (alg_try_from (c_algorithm v))) (\<lambda>alg.
    and_then (validate_checksum_value alg (c_value v)) (\<lambda>val.
    Ok \<lparr>c_value = val, c_algorithm = alg\<rparr>)))"

lemma validate_index_fold:
  assumes "distinct (keys es)"
  shows "fold_res (validate_index_entry E) [] es =
    map_ok (\<lambda>ws. zip (keys es) ws) (collect_res (\<lambda>(k, v). check_index_path E k v) es)"
proof -
  have "validate_index_entry E acc (k, v) = map_ok (\<lambda>w. AList.update k w acc) (check_index_path E k v)"
    for acc k v
    by (cases "parse_relative_unix_path (windows_is_absolute E) v SubFile")
      (auto simp: validate_index_entry_def check_index_path_def)
  from fold_insert_checked [OF this, of "[]" es] assms show ?thesis by simp
qed

lemma validate_checksum_step:
  "validate_checksum_entry E acc (k, v) = map_ok (\<lambda>w. AList.update k w acc) (check_checksum E k v)"
proof (cases "parse_relative_unix_path (windows_is_absolute E) k SubFile")
  case (Ok p)
  then have "p = k" by (rule parse_relative_unix_path_same)
  with Ok show ?thesis
    by (cases "alg_try_from (c_algorithm v)";
        cases "validate_checksum_value (the_ok (alg_try_from (c_algorithm v))) (c_value v)")
      (auto simp: validate_checksum_entry_def check_checksum_def)
next
  case (Err e)
  then show ?thesis by (simp add: validate_checksum_entry_def check_checksum_def)
qed

lemma validate_checksum_fold:
  assumes "distinct (keys es)"
  shows "fold_res (validate_checksum_entry E) [] es =
    map_ok (\<lambda>ws. zip (keys es) ws) (collect_res (\<lambda>(k, v). check_checksum E k v) es)"
  using fold_insert_checked [OF validate_checksum_step, of "[]" es] assms by simp

lemma zip_keys_values_id: "length ws = length es \<Longrightarrow> keys (zip (keys es) ws) = keys es"
  by simp

lemma check_index_path_Ok:
  "check_index_path E k p = Ok q \<longleftrightarrow>
    q = p \<and> parse_relative_unix_path (windows_is_absolute E) p SubFile = Ok p"
  using parse_relative_unix_path_same unfolding check_index_path_def by fastforce

lemma collect_index_Ok:
  "collect_res (\<lambda>(k, v). check_index_path E k v) es = Ok ws \<longleftrightarrow> ws = map snd es
     \<and> (\<forall>(k, p) \<in> set es. parse_relative_unix_path (windows_is_absolute E) p SubFile = Ok p)"
proof (induction es arbitrary: ws)
  case Nil
  show ?case by auto
next
  case (Cons e es)
  then show ?case by (cases e) (auto simp: check_index_path_Ok)
qed

lemma validate_index_Ok:
  assumes "distinct (keys es)"
  shows "fold_res (validate_index_entry E) [] es = Ok r \<longleftrightarrow> r = es \<and>
    (\<forall>(k, p) \<in> set es. parse_relative_unix_path (windows_is_absolute E) p SubFile = Ok p)"
  unfolding validate_index_fold [OF assms] by (auto simp: zip_map_fst_snd collect_index_Ok)

definition checksum_ok :: "InterchangeProjectChecksum \<Rightarrow> bool" where
  "checksum_ok c \<longleftrightarrow> (case expected_hex_len (c_algorithm c) of
      Some n \<Rightarrow> length (c_value c) = n \<and> list_all is_ascii_hexdigit (c_value c)
    | None \<Rightarrow> True)"

lemma validate_checksum_value_Ok:
  "validate_checksum_value alg val = Ok v \<longleftrightarrow> v = val \<and>
    checksum_ok \<lparr>c_value = val, c_algorithm = alg\<rparr>"
  by (auto simp: validate_checksum_value_def checksum_ok_def split: option.splits)

lemma check_checksum_Ok:
  "check_checksum E k v = Ok c \<longleftrightarrow>
    parse_relative_unix_path (windows_is_absolute E) k SubFile = Ok k
    \<and> v = checksum_into_raw c \<and> checksum_ok c"
proof
  assume "check_checksum E k v = Ok c"
  then show "parse_relative_unix_path (windows_is_absolute E) k SubFile = Ok k
    \<and> v = checksum_into_raw c \<and> checksum_ok c"
    using parse_relative_unix_path_same [of "windows_is_absolute E" k SubFile]
    by (auto simp: check_checksum_def validate_checksum_value_Ok checksum_into_raw_def
        dest!: alg_str_try_from)
next
  assume "parse_relative_unix_path (windows_is_absolute E) k SubFile = Ok k
    \<and> v = checksum_into_raw c \<and> checksum_ok c"
  then show "check_checksum E k v = Ok c"
    by (cases c) (simp add: check_checksum_def validate_checksum_value_Ok checksum_into_raw_def)
qed

lemma collect_checksum_Ok:
  "collect_res (\<lambda>(k, v). check_checksum E k v) es = Ok ws \<longleftrightarrow>
    map snd es = map checksum_into_raw ws \<and> (\<forall>c \<in> set ws. checksum_ok c)
    \<and> (\<forall>k \<in> set (keys es). parse_relative_unix_path (windows_is_absolute E) k SubFile = Ok k)"
proof (induction es arbitrary: ws)
  case Nil
  show ?case by auto
next
  case (Cons e es)
  then show ?case by (cases e; cases ws) (auto simp: check_checksum_Ok)
qed

abbreviation raw_checksums where
  "raw_checksums \<equiv> map (\<lambda>(k, v). (k, checksum_into_raw v))"

lemma raw_checksums_zip:
  "map snd es = map checksum_into_raw ws \<Longrightarrow> raw_checksums (zip (keys es) ws) = es"
proof (induction es arbitrary: ws)
  case Nil
  then show ?case by simp
next
  case (Cons e es)
  then show ?case by (cases ws; cases e) auto
qed

lemma validate_checksum_Ok:
  assumes "distinct (keys es)"
  shows "fold_res (validate_checksum_entry E) [] es = Ok r \<longleftrightarrow> es = raw_checksums r
    \<and> (\<forall>(k, c) \<in> set r. parse_relative_unix_path (windows_is_absolute E) k SubFile = Ok k
        \<and> checksum_ok c)" (is "?l \<longleftrightarrow> ?r")
proof
  assume ?l
  then obtain ws where ws: "r = zip (keys es) ws"
      "collect_res (\<lambda>(k, v). check_checksum E k v) es = Ok ws"
    unfolding validate_checksum_fold [OF assms] by auto
  then show ?r
    using raw_checksums_zip [of es ws]
    by (auto simp: collect_checksum_Ok dest: set_zip_rightD) (use set_zip_leftD in fastforce)
next
  assume ?r
  then have es: "es = raw_checksums r"
    and ok: "\<forall>(k, c) \<in> set r. parse_relative_unix_path (windows_is_absolute E) k SubFile = Ok k
        \<and> checksum_ok c" by auto
  have "keys es = keys r" "map snd es = map checksum_into_raw (map snd r)"
    using es by (auto simp: case_prod_beta)
  then have "collect_res (\<lambda>(k, v). check_checksum E k v) es = Ok (map snd r)"
    using ok by (fastforce simp: collect_checksum_Ok)
  then show ?l
    unfolding validate_checksum_fold [OF assms] using \<open>keys es = keys r\<close> by (simp add: zip_map_fst_snd)
qed

lemma validate_meta_Ok:
  assumes "wf_meta raw"
  shows "validate_meta E raw = Ok meta \<longleftrightarrow>
    m_index meta = m_index raw
    \<and> (\<forall>(s, p) \<in> set (m_index raw). parse_relative_unix_path (windows_is_absolute E) p SubFile = Ok p)
    \<and> m_checksum raw = map_option raw_checksums (m_checksum meta)
    \<and> (\<forall>(k, c) \<in> set (case m_checksum meta of Some cs \<Rightarrow> cs | None \<Rightarrow> []).
        parse_relative_unix_path (windows_is_absolute E) k SubFile = Ok k \<and> checksum_ok c)
    \<and> validate_metamodel E (m_metamodel raw) = Ok (m_metamodel meta)
    \<and> time_parse E (m_created raw) = Ok (m_created meta)
    \<and> m_includes_derived meta = m_includes_derived raw
    \<and> m_includes_implied meta = m_includes_implied raw"
proof -
  have di: "distinct (keys (m_index raw))" using assms by (simp add: wf_meta_def)
  have "validate_checksums E (m_checksum raw) = Ok cs \<longleftrightarrow>
     m_checksum raw = map_option raw_checksums cs
     \<and> (\<forall>(k, c) \<in> set (case cs of Some cs \<Rightarrow> cs | None \<Rightarrow> []).
          parse_relative_unix_path (windows_is_absolute E) k SubFile = Ok k \<and> checksum_ok c)" for cs
    using assms validate_checksum_Ok [of "the (m_checksum raw)" E]
    by (cases "m_checksum raw"; cases cs) (auto simp: validate_checksums_def wf_meta_def)
  then show ?thesis
    by (cases meta) (auto simp: validate_meta_def validate_index_Ok [OF di])
qed

lemma keys_raw_checksums [simp]: "keys (raw_checksums cs) = keys cs"
  by (simp add: case_prod_beta)

lemma validate_metamodel_print:
  assumes "iri_text_law E" and "validate_metamodel E m = Ok i"
  shows "validate_metamodel E (map_option (iri_str E) i) = Ok i"
  using assms by (auto simp: validate_metamodel_def iri_text_law_def split: option.splits)

section \<open>Invariants of the tables\<close>

text \<open>Every operation on the metadata keeps the keys of its two maps distinct.\<close>

lemma add_checksum_wf: "wf_meta m \<Longrightarrow> wf_meta (snd (add_checksum path alg val ow m))"
  by (auto simp: wf_meta_def add_checksum_def Let_def distinct_update split: option.splits)

lemma remove_checksum_wf: "wf_meta m \<Longrightarrow> wf_meta (snd (remove_checksum path m))"
  by (auto simp: wf_meta_def remove_checksum_def distinct_delete split: option.splits)

lemma remove_index_wf: "wf_meta m \<Longrightarrow> wf_meta (snd (remove_index path m))"
  by (auto simp: wf_meta_def remove_index_def distinct_map_filter split: option.splits)

lemma meta_minimal_wf [simp]: "wf_meta (meta_minimal t)"
  by (simp add: wf_meta_def meta_minimal_def)

lemmas meta_ops_wf = add_checksum_wf remove_checksum_wf remove_index_wf meta_minimal_wf

definition checksum_of :: "InterchangeProjectMetadataRaw \<Rightarrow> string \<Rightarrow> InterchangeProjectChecksumRaw option" where
  "checksum_of m p = (case m_checksum m of Some cs \<Rightarrow> map_of cs p | None \<Rightarrow> None)"

lemma checksum_of_add:
  "checksum_of (snd (add_checksum path alg val ow m)) p =
    (if p = path \<and> (ow \<or> checksum_of m path = None)
     then Some \<lparr>c_value = val, c_algorithm = alg_str alg\<rparr> else checksum_of m p)"
  by (auto simp: checksum_of_def add_checksum_def Let_def update_conv'
      split: option.splits)

lemma checksum_of_remove:
  "checksum_of (snd (remove_checksum path m)) p = (if p = path then None else checksum_of m p)"
  by (auto simp: checksum_of_def remove_checksum_def AList.delete_conv' split: option.splits)

section \<open>Properties\<close>

text \<open>validated project information survives being written out and read back: converting
  it to its raw form and validating that again gives the same information.\<close>

theorem validate_info_roundtrip:
  assumes "iri_text_law E" "req_print_law E" "ver_print_law E"
    and "validate_info E raw = Ok info"
  shows "validate_info E (info_into_raw E info) = Ok info"
  using assms by (rule validate_info_roundtrip_aux)

definition sample_raw_info :: InterchangeProjectInfoRaw where
  "sample_raw_info = (info_minimal ''demo'' ''1.0.0'')
     \<lparr>i_usage := [Resource ''pkg:sysand/acme/lib'' (Some ''2.0.0'')]\<rparr>"

theorem validate_info_roundtrip_witness:
  "validate_info sample_externs (info_into_raw sample_externs sample_raw_info) = Ok sample_raw_info"
proof -
  have "validate_info sample_externs sample_raw_info = Ok sample_raw_info" by code_simp
  then show ?thesis using validate_info_roundtrip [of sample_externs] by simp
qed

text \<open>C33: metadata that validates is safe to use: validation keeps the set of source paths, every
  such path is an accepted relative file path below the project, and every
  recorded checksum is hexadecimal text of the length its algorithm prescribes.\<close>

theorem validate_meta_safe:
  assumes "wf_meta raw" and "validate_meta E raw = Ok meta"
  shows "source_paths True meta = source_paths True raw
    \<and> (\<forall>p \<in> source_paths True meta.
        parse_relative_unix_path (windows_is_absolute E) p SubFile = Ok p)
    \<and> (\<forall>cs. m_checksum meta = Some cs \<longrightarrow> (\<forall>(k, c) \<in> set cs. \<forall>n.
        expected_hex_len (c_algorithm c) = Some n \<longrightarrow>
          length (c_value c) = n \<and> list_all is_ascii_hexdigit (c_value c)))"
proof -
  note m = assms(2) [unfolded validate_meta_Ok [OF assms(1)]]
  have "source_paths True meta = source_paths True raw"
    using m unfolding source_paths_def
    by (cases "m_checksum meta") (simp_all add: image_image case_prod_beta)
  moreover have "parse_relative_unix_path (windows_is_absolute E) p SubFile = Ok p"
    if "p \<in> source_paths True meta" for p
    using that m unfolding source_paths_def by (cases "m_checksum meta") auto
  moreover have "length (c_value c) = n \<and> list_all is_ascii_hexdigit (c_value c)"
    if "m_checksum meta = Some cs" "(k, c) \<in> set cs" "expected_hex_len (c_algorithm c) = Some n"
    for cs k c n
  proof -
    have "checksum_ok c" using m that(1,2) by auto
    then show ?thesis using that(3) by (simp add: checksum_ok_def)
  qed
  ultimately show ?thesis by blast
qed

definition sample_raw_meta :: InterchangeProjectMetadataRaw where
  "sample_raw_meta = (meta_minimal ''2026-01-01T00:00:00Z'')
     \<lparr>m_index := [(''A'', ''src/a.sysml'')],
       m_checksum := Some [(''src/a.sysml'', \<lparr>c_value = ''0a1B2c3d'', c_algorithm = ''ADLER32''\<rparr>)]\<rparr>"

definition sample_meta :: "(string, string, InterchangeProjectChecksum) InterchangeProjectMetadataG" where
  "sample_meta = (meta_minimal ''2026-01-01T00:00:00Z'')
     \<lparr>m_index := [(''A'', ''src/a.sysml'')],
       m_checksum := Some [(''src/a.sysml'', \<lparr>c_value = ''0a1B2c3d'', c_algorithm = Adler32\<rparr>)]\<rparr>"

lemma sample_meta_valid:
  "wf_meta sample_raw_meta" "validate_meta sample_externs sample_raw_meta = Ok sample_meta"
  by code_simp+

theorem validate_meta_safe_witness:
  "source_paths True sample_meta = source_paths True sample_raw_meta
    \<and> parse_relative_unix_path (windows_is_absolute sample_externs) ''src/a.sysml'' SubFile
      = Ok ''src/a.sysml''"
  using validate_meta_safe [OF sample_meta_valid]
  by (simp add: source_paths_def sample_meta_def sample_raw_meta_def)

text \<open>validated metadata survives being written out and read back, except that the creation
  time loses its sub-second part.\<close>

theorem validate_meta_roundtrip:
  assumes "iri_text_law E" "time_print_law trunc_secs E"
    and "wf_meta raw" and "validate_meta E raw = Ok meta"
  shows "validate_meta E (meta_into_raw E meta) =
    Ok (meta\<lparr>m_created := trunc_secs (m_created meta)\<rparr>)"
proof -
  note m = assms(4) [unfolded validate_meta_Ok [OF assms(3)]]
  have "wf_meta (meta_into_raw E meta)"
    using assms(3) m by (auto simp: wf_meta_def meta_into_raw_def split: option.splits)
  moreover have "validate_metamodel E (m_metamodel raw) = Ok (m_metamodel meta)" using m by blast
  then have "validate_metamodel E (m_metamodel (meta_into_raw E meta)) = Ok (m_metamodel meta)"
    using validate_metamodel_print [OF assms(1)] by (simp add: meta_into_raw_def)
  moreover have "time_parse E (m_created (meta_into_raw E meta)) = Ok (trunc_secs (m_created meta))"
    using assms(2) by (simp add: time_print_law_def meta_into_raw_def)
  ultimately show ?thesis
    using m by (simp add: validate_meta_Ok) (simp add: meta_into_raw_def)
qed

theorem validate_meta_roundtrip_witness:
  "validate_meta sample_externs (meta_into_raw sample_externs sample_meta) = Ok sample_meta"
  using validate_meta_roundtrip [OF sample_laws(1,4) sample_meta_valid] by simp

text \<open>the checksum table behaves as a map: \<open>add_checksum\<close> returns the previous entry of the
  path and sets it when it was absent or overwriting is asked for, \<open>remove_checksum\<close> returns the
  entry and clears it, and both leave every other path and the well-formedness of the
  metadata alone.\<close>

theorem checksum_table_is_a_map:
  assumes "wf_meta m"
  shows "fst (add_checksum path alg val ow m) = checksum_of m path
    \<and> checksum_of (snd (add_checksum path alg val ow m)) p =
        (if p = path \<and> (ow \<or> checksum_of m path = None)
         then Some \<lparr>c_value = val, c_algorithm = alg_str alg\<rparr> else checksum_of m p)
    \<and> fst (remove_checksum path m) = checksum_of m path
    \<and> checksum_of (snd (remove_checksum path m)) p = (if p = path then None else checksum_of m p)
    \<and> wf_meta (snd (add_checksum path alg val ow m)) \<and> wf_meta (snd (remove_checksum path m))"
proof -
  have "fst (add_checksum path alg val ow m) = checksum_of m path"
    by (auto simp: add_checksum_def checksum_of_def Let_def split: option.splits)
  moreover have "fst (remove_checksum path m) = checksum_of m path"
    by (auto simp: remove_checksum_def checksum_of_def split: option.splits)
  ultimately show ?thesis
    using checksum_of_add checksum_of_remove meta_ops_wf assms by simp
qed

theorem checksum_table_is_a_map_witness:
  "fst (remove_checksum ''src/a.sysml'' sample_raw_meta)
    = Some \<lparr>c_value = ''0a1B2c3d'', c_algorithm = ''ADLER32''\<rparr>"
  using checksum_table_is_a_map [OF sample_meta_valid(1), of "''src/a.sysml''"]
  by (simp add: checksum_of_def sample_raw_meta_def)

text \<open>algorithm names are a bijection between the algorithms and the names the parser
  accepts.\<close>

theorem alg_name_bijection: "alg_try_from s = Ok a \<longleftrightarrow> s = alg_str a"
  using alg_str_try_from alg_try_from_str by blast

end
