(* ===== verification/Toml.thy ===== *)
theory Toml
  imports Prelude "HOL-Library.Countable"
begin

text \<open>
  TOML documents as trees, the values the \<^verbatim>\<open>toml_edit\<close> documents of the core crate
  hold. A table is an association list in the order of its entries. Lexing and printing of
  TOML text is external and appears as an argument where a component needs it.
\<close>

datatype Toml =
    TString string
  | TInteger int
  | TBool bool
  | TArray "Toml list"
  | TTable "(string \<times> Toml) list"
  | TArrayOfTables "(string \<times> Toml) list list"

type_synonym toml_table = "(string \<times> Toml) list"

fun as_str :: "Toml \<Rightarrow> string option" where
  "as_str (TString s) = Some s"
| "as_str _ = None"

fun as_array :: "Toml \<Rightarrow> Toml list option" where
  "as_array (TArray xs) = Some xs"
| "as_array _ = None"

fun as_array_of_tables :: "Toml \<Rightarrow> toml_table list option" where
  "as_array_of_tables (TArrayOfTables ts) = Some ts"
| "as_array_of_tables _ = None"

text \<open>Serde's view of a sequence of tables: an array of inline tables or an array of tables.\<close>

fun table_seq :: "Toml \<Rightarrow> toml_table list option" where
  "table_seq (TArrayOfTables ts) = Some ts"
| "table_seq (TArray xs) =
    (if list_all (\<lambda>x. case x of TTable _ \<Rightarrow> True | _ \<Rightarrow> False) xs
     then Some (map (\<lambda>x. case x of TTable t \<Rightarrow> t | _ \<Rightarrow> []) xs) else None)"
| "table_seq _ = None"

fun string_seq :: "Toml \<Rightarrow> string list option" where
  "string_seq (TArray xs) =
    (if list_all (\<lambda>x. as_str x \<noteq> None) xs then Some (map (the \<circ> as_str) xs) else None)"
| "string_seq _ = None"

text \<open>Field access of derived deserializers: a required field, an optional one, and one
  with a default.\<close>

definition field_str :: "toml_table \<Rightarrow> string \<Rightarrow> string option" where
  "field_str t k = (case map_of t k of Some v \<Rightarrow> as_str v | None \<Rightarrow> None)"

definition field_opt_str :: "toml_table \<Rightarrow> string \<Rightarrow> string option option" where
  "field_opt_str t k =
    (case map_of t k of Some v \<Rightarrow> map_option Some (as_str v) | None \<Rightarrow> Some None)"

definition field_strs :: "toml_table \<Rightarrow> string \<Rightarrow> string list option" where
  "field_strs t k = (case map_of t k of Some v \<Rightarrow> string_seq v | None \<Rightarrow> Some [])"

definition field_tables :: "toml_table \<Rightarrow> string \<Rightarrow> toml_table list option" where
  "field_tables t k = (case map_of t k of Some v \<Rightarrow> table_seq v | None \<Rightarrow> Some [])"

definition insert_unless_empty :: "string \<Rightarrow> Toml list \<Rightarrow> toml_table \<Rightarrow> toml_table" where
  "insert_unless_empty k vs t = (if vs = [] then t else AList.update k (TArray vs) t)"

lemma string_seq_TString [simp]: "string_seq (TArray (map TString xs)) = Some xs"
  by (simp add: list.pred_map comp_def list.pred_True)

lemma table_seq_TTable [simp]: "table_seq (TArray (map TTable ts)) = Some ts"
  by (simp add: list.pred_map comp_def list.pred_True)

text \<open>A printer and a parser for evaluation: documents are countable, and a
  document is printed as its number in unary.\<close>

instance Toml :: countable
  by countable_datatype

definition sample_print :: "toml_table \<Rightarrow> string" where
  "sample_print t = replicate (to_nat t) CHR ''I''"

definition sample_parse :: "string \<Rightarrow> (toml_table, string) result" where
  "sample_parse s = Ok (from_nat (length s))"

lemma sample_print_parse [simp]: "sample_parse (sample_print t) = Ok t"
  by (simp add: sample_print_def sample_parse_def)

end
