(* ===== verification/Config.thy ===== *)
theory Config
  imports Toml
begin

text \<open>
  Configuration files: \<^verbatim>\<open>core/src/config/mod.rs\<close> (merging of configurations and the
  order in which index URLs are consulted) and \<^verbatim>\<open>core/src/config/local_fs.rs\<close>
  (loading configurations, and recording or removing a source override in a configuration
  file). A file is either missing, something that is not a regular file, or its contents.
  I/O failures other than a missing file are not modelled.
\<close>

section \<open>Data\<close>

record Index =
  x_name :: "string option"
  x_url :: string
  x_default :: "bool option"

datatype OverrideSource =
    OEditable string
  | OLocalSrc string
  | OLocalKpar string
  | ORemoteKpar string
  | ORemoteSrc string
  | ORemoteGit string

record ConfigProject =
  cp_identifiers :: "string list"
  cp_sources :: "OverrideSource list"

record Config =
  cf_indexes :: "Index list"
  cf_projects :: "ConfigProject list"

definition config_default :: Config where
  "config_default = \<lparr>cf_indexes = [], cf_projects = []\<rparr>"

fun override_to_toml :: "OverrideSource \<Rightarrow> toml_table" where
  "override_to_toml (OEditable p) = [(''editable'', TString p)]"
| "override_to_toml (OLocalKpar p) = [(''kpar_path'', TString p)]"
| "override_to_toml (OLocalSrc p) = [(''src_path'', TString p)]"
| "override_to_toml (ORemoteGit u) = [(''remote_git'', TString u)]"
| "override_to_toml (ORemoteKpar u) = [(''remote_kpar'', TString u)]"
| "override_to_toml (ORemoteSrc u) = [(''remote_src'', TString u)]"

section \<open>Merging and index order\<close>

definition config_merge :: "Config \<Rightarrow> Config \<Rightarrow> Config" where
  "config_merge self config = \<lparr>
     cf_indexes = cf_indexes self @ cf_indexes config,
     cf_projects = cf_projects self @ cf_projects config\<rparr>"

definition is_default :: "Index \<Rightarrow> bool" where
  "is_default i = (case x_default i of Some d \<Rightarrow> d | None \<Rightarrow> False)"

definition index_urls_no_default_override ::
  "(string \<Rightarrow> ('url, 'e) result) \<Rightarrow> Config \<Rightarrow> string list \<Rightarrow> string list \<Rightarrow> ('url list, 'e) result" where
  "index_urls_no_default_override url_parse self index_urls default_urls =
    (let indexes = sort_key is_default (cf_indexes self);
         has_default = (if indexes = [] then False else is_default (last indexes));
         end_urls = (if has_default then [] else default_urls) in
     collect_res url_parse (index_urls @ map x_url indexes @ end_urls))"

definition index_urls_with_default_override ::
  "(string \<Rightarrow> ('url, 'e) result) \<Rightarrow> Config \<Rightarrow> string list \<Rightarrow> string list \<Rightarrow> ('url list, 'e) result" where
  "index_urls_with_default_override url_parse self index_urls default_urls =
    collect_res url_parse
      (index_urls @ map x_url (filter (\<lambda>i. \<not> is_default i) (cf_indexes self)) @ default_urls)"

definition index_urls ::
  "(string \<Rightarrow> ('url, 'e) result) \<Rightarrow> Config \<Rightarrow> string list \<Rightarrow> string list \<Rightarrow> string list
   \<Rightarrow> ('url list, 'e) result" where
  "index_urls url_parse self urls default_urls default_override_urls =
    (if default_override_urls = []
     then index_urls_no_default_override url_parse self urls default_urls
     else index_urls_with_default_override url_parse self urls default_override_urls)"

section \<open>Configuration files\<close>

datatype file_state = NoFile | NotRegular | Contents string

datatype ConfigReadError = ConfigToml string string

definition CONFIG_DIR :: string where "CONFIG_DIR = ''sysand''"
definition CONFIG_FILE :: string where "CONFIG_FILE = ''sysand.toml''"

definition path_join :: "string \<Rightarrow> string \<Rightarrow> string" where
  "path_join d f =
    (if starts_with ''/'' f then f
     else if d = [] \<or> last d = CHR ''/'' then d @ f else d @ ''/'' @ f)"

definition get_config ::
  "(string \<Rightarrow> (Config, string) result) \<Rightarrow> (string \<Rightarrow> file_state) \<Rightarrow> string
   \<Rightarrow> (Config, ConfigReadError) result" where
  "get_config from_toml_str fs path =
    (case fs path of
       Contents c \<Rightarrow> map_err (ConfigToml path) (from_toml_str c)
     | _ \<Rightarrow> Ok config_default)"

definition load_configs ::
  "(string \<Rightarrow> (Config, string) result) \<Rightarrow> string option \<Rightarrow> (string \<Rightarrow> file_state) \<Rightarrow> string
   \<Rightarrow> (Config, ConfigReadError) result" where
  "load_configs from_toml_str config_dir fs working_dir =
    and_then (case config_dir of
        None \<Rightarrow> Ok config_default
      | Some d \<Rightarrow> get_config from_toml_str fs (path_join (path_join d CONFIG_DIR) CONFIG_FILE)) (\<lambda>c.
    and_then (get_config from_toml_str fs (path_join working_dir CONFIG_FILE)) (\<lambda>w.
    Ok (config_merge c w)))"

datatype ConfigProjectSourceError =
    NotAFile string
  | TomlEdit string string
  | InvalidProjects string

definition lists_identifier :: "string \<Rightarrow> toml_table \<Rightarrow> bool" where
  "lists_identifier iri t =
    (case map_of t ''identifiers'' of
       Some v \<Rightarrow> (case as_array v of
                    Some arr \<Rightarrow> list_ex (\<lambda>x. as_str x = Some iri) arr
                  | None \<Rightarrow> False)
     | None \<Rightarrow> False)"

text \<open>The table of the first project listing the IRI is updated, or a new one is appended.\<close>

fun set_sources :: "string \<Rightarrow> Toml \<Rightarrow> toml_table list \<Rightarrow> toml_table list" where
  "set_sources iri sources [] =
    [[(''identifiers'', TArray [TString iri]), (''sources'', sources)]]"
| "set_sources iri sources (t # ts) =
    (if lists_identifier iri t then AList.update ''sources'' sources t # ts
     else t # set_sources iri sources ts)"

fun remove_project :: "string \<Rightarrow> toml_table list \<Rightarrow> toml_table list option" where
  "remove_project iri [] = None"
| "remove_project iri (t # ts) =
    (if lists_identifier iri t then Some ts else map_option ((#) t) (remove_project iri ts))"

definition add_project_source_to_doc ::
  "string \<Rightarrow> OverrideSource \<Rightarrow> toml_table \<Rightarrow> (toml_table, ConfigProjectSourceError) result" where
  "add_project_source_to_doc iri source doc =
    (let item = (case map_of doc ''project'' of Some v \<Rightarrow> v | None \<Rightarrow> TArrayOfTables []) in
     and_then (ok_or (as_array_of_tables item)
         (InvalidProjects ''`project` should always be an array of tables'')) (\<lambda>projects.
     Ok (AList.update ''project''
          (TArrayOfTables (set_sources iri (TArray [TTable (override_to_toml source)]) projects)) doc)))"

definition add_project_source_to_config ::
  "(string \<Rightarrow> (toml_table, string) result) \<Rightarrow> (toml_table \<Rightarrow> string)
   \<Rightarrow> string \<Rightarrow> string \<Rightarrow> OverrideSource \<Rightarrow> (string \<Rightarrow> file_state)
   \<Rightarrow> (string \<Rightarrow> file_state, ConfigProjectSourceError) result" where
  "add_project_source_to_config parse print config_path iri source fs =
    and_then (case fs config_path of
        Contents c \<Rightarrow> Ok c | NotRegular \<Rightarrow> Err (NotAFile config_path) | NoFile \<Rightarrow> Ok []) (\<lambda>contents.
    and_then (map_err (TomlEdit config_path) (parse contents)) (\<lambda>config.
    and_then (add_project_source_to_doc iri source config) (\<lambda>config'.
    Ok (fs(config_path := Contents (print config'))))))"

definition remove_project_source_from_config ::
  "(string \<Rightarrow> (toml_table, string) result) \<Rightarrow> (toml_table \<Rightarrow> string)
   \<Rightarrow> string \<Rightarrow> string \<Rightarrow> (string \<Rightarrow> file_state)
   \<Rightarrow> (bool \<times> (string \<Rightarrow> file_state), ConfigProjectSourceError) result" where
  "remove_project_source_from_config parse print config_path iri fs =
    (case fs config_path of
       NoFile \<Rightarrow> Ok (False, fs)
     | NotRegular \<Rightarrow> Err (NotAFile config_path)
     | Contents c \<Rightarrow>
         and_then (map_err (TomlEdit config_path) (parse c)) (\<lambda>config.
         case Option.bind (map_of config ''project'') as_array_of_tables of
           None \<Rightarrow> Ok (False, fs)
         | Some projects \<Rightarrow>
             (case remove_project iri projects of
                None \<Rightarrow> Ok (False, fs)
              | Some projects' \<Rightarrow>
                  let contents = print (AList.update ''project'' (TArrayOfTables projects') config) in
                  Ok (True, fs(config_path := if contents = [] then NoFile else Contents contents)))))"

section \<open>Order of the indexes\<close>

lemma insort_key_bool:
  "insort_key f x (filter (\<lambda>y. \<not> f y) xs @ filter f xs) =
    (if f x then filter (\<lambda>y. \<not> f y) xs @ x # filter f xs
     else x # filter (\<lambda>y. \<not> f y) xs @ filter f xs)"
proof (cases "f x")
  case True
  have "insort_key f x (us @ vs) = us @ x # vs"
    if "\<forall>u \<in> set us. \<not> f u" "\<forall>v \<in> set vs. f v" for us vs
    using that True by (induction us) (cases vs; simp)+
  then show ?thesis using True by simp
next
  case False
  then show ?thesis
    by (cases "filter (\<lambda>y. \<not> f y) xs @ filter f xs") auto
qed

lemma sort_key_bool: "sort_key f xs = filter (\<lambda>y. \<not> f y) xs @ filter f xs" for f :: "'a \<Rightarrow> bool"
  by (induction xs) (auto simp: insort_key_bool)

lemma last_default_iff:
  "(if sort_key is_default xs = [] then False else is_default (last (sort_key is_default xs)))
    \<longleftrightarrow> list_ex is_default xs"
proof (cases "filter is_default xs = []")
  case True
  then show ?thesis
    using last_in_set [of "filter (\<lambda>y. \<not> is_default y) xs"]
    by (auto simp: sort_key_bool list_ex_iff filter_empty_conv)
next
  case False
  then have "last (filter is_default xs) \<in> set (filter is_default xs)" by (rule last_in_set)
  then show ?thesis using False
    by (auto simp: sort_key_bool list_ex_iff filter_empty_conv)
qed

text \<open>the indexes are consulted in the documented order: URLs given explicitly, then the
  configured indexes in file order with the default ones moved last, then the built-in
  default URLs unless some configured index is a default; overriding default URLs replace both
  the configured defaults and the built-in ones.\<close>

theorem index_urls_order:
  "index_urls url_parse cfg urls default_urls override_urls =
    collect_res url_parse
      (urls @ map x_url (filter (\<lambda>i. \<not> is_default i) (cf_indexes cfg)) @
       (if override_urls \<noteq> [] then override_urls
        else map x_url (filter is_default (cf_indexes cfg)) @
          (if list_ex is_default (cf_indexes cfg) then [] else default_urls)))"
  unfolding index_urls_def index_urls_no_default_override_def index_urls_with_default_override_def
    Let_def last_default_iff
  by (simp add: sort_key_bool)

section \<open>Source overrides\<close>

text \<open>What is relied on of the format-preserving TOML editor: a document that was parsed and
  then edited by recording a source reads back as edited.\<close>

definition edit_reads_back ::
  "(string \<Rightarrow> (toml_table, string) result) \<Rightarrow> (toml_table \<Rightarrow> string) \<Rightarrow> bool" where
  "edit_reads_back parse print \<longleftrightarrow> (\<forall>c doc iri source doc'.
     parse c = Ok doc \<longrightarrow> add_project_source_to_doc iri source doc = Ok doc' \<longrightarrow>
     parse (print doc') = Ok doc')"

lemma sample_edit_reads_back [simp]: "edit_reads_back sample_parse sample_print"
  by (simp add: edit_reads_back_def)

definition recorded_sources ::
  "(string \<Rightarrow> (toml_table, string) result) \<Rightarrow> (string \<Rightarrow> file_state) \<Rightarrow> string \<Rightarrow> string \<Rightarrow> Toml option" where
  "recorded_sources parse fs path iri =
    (case fs path of
       Contents c \<Rightarrow> (case parse c of
           Ok doc \<Rightarrow> Option.bind (Option.bind (map_of doc ''project'') as_array_of_tables)
             (\<lambda>ts. Option.bind (find (lists_identifier iri) ts) (\<lambda>t. map_of t ''sources''))
         | Err e \<Rightarrow> None)
     | _ \<Rightarrow> None)"

lemma find_set_sources:
  "Option.bind (find (lists_identifier iri) (set_sources iri s ts)) (\<lambda>t. map_of t ''sources'') = Some s"
proof (induction ts)
  case Nil
  show ?case by (simp add: lists_identifier_def)
next
  case (Cons t ts)
  have "lists_identifier iri (AList.update ''sources'' s t) = lists_identifier iri t"
    by (simp add: lists_identifier_def map_of_update_other)
  then show ?case using Cons by simp
qed

lemma remove_set_sources:
  "\<not> list_ex (lists_identifier iri) ts \<Longrightarrow> remove_project iri (set_sources iri s ts) = Some ts"
  by (induction ts) (auto simp: lists_identifier_def)

lemma remove_project_set_sources: "remove_project iri (set_sources iri s ts) \<noteq> None"
proof (induction ts)
  case Nil
  show ?case by (simp add: lists_identifier_def)
next
  case (Cons t ts)
  have "lists_identifier iri (AList.update ''sources'' s t) = lists_identifier iri t"
    by (simp add: lists_identifier_def map_of_update_other)
  then show ?case using Cons by auto
qed

text \<open>recording a source override makes exactly that source the one found for the IRI when the
  file is read again, touches no other file, and a later removal finds it.\<close>

theorem add_project_source_recorded:
  assumes "edit_reads_back parse print"
    and "add_project_source_to_config parse print path iri source fs = Ok fs'"
  shows "recorded_sources parse fs' path iri = Some (TArray [TTable (override_to_toml source)])
    \<and> (\<forall>p. p \<noteq> path \<longrightarrow> fs' p = fs p)
    \<and> (\<exists>fs''. remove_project_source_from_config parse print path iri fs' = Ok (True, fs''))"
proof -
  let ?srcs = "TArray [TTable (override_to_toml source)]"
  from assms(2) obtain c doc doc' where parsed: "parse c = Ok doc"
    and added: "add_project_source_to_doc iri source doc = Ok doc'"
    and fs': "fs' = fs(path := Contents (print doc'))"
    by (auto simp: add_project_source_to_config_def)
  then have reread: "parse (print doc') = Ok doc'"
    using assms(1) by (auto simp: edit_reads_back_def)
  from added obtain ts where doc': "map_of doc' ''project'' = Some (TArrayOfTables (set_sources iri ?srcs ts))"
    by (auto simp: add_project_source_to_doc_def Let_def)
  moreover obtain ts' where "remove_project iri (set_sources iri ?srcs ts) = Some ts'"
    using remove_project_set_sources by blast
  ultimately show ?thesis
    using fs' reread find_set_sources
    by (simp add: recorded_sources_def remove_project_source_from_config_def Let_def)
qed

definition sample_doc :: toml_table where
  "sample_doc = [(''project'', TArrayOfTables
     [[(''identifiers'', TArray [TString ''urn:a'']),
       (''sources'', TArray [TTable [(''editable'', TString ''x'')]])]])]"

definition sample_fs :: "string \<Rightarrow> file_state" where
  "sample_fs p = (if p = ''sysand.toml'' then Contents (sample_print sample_doc) else NoFile)"

theorem add_project_source_recorded_witness:
  "\<exists>fs'. add_project_source_to_config sample_parse sample_print ''sysand.toml'' ''urn:b''
      (OLocalSrc ''lib/b'') sample_fs = Ok fs'
    \<and> recorded_sources sample_parse fs' ''sysand.toml'' ''urn:b''
      = Some (TArray [TTable [(''src_path'', TString ''lib/b'')]])"
proof -
  obtain fs' where ok: "add_project_source_to_config sample_parse sample_print ''sysand.toml'' ''urn:b''
      (OLocalSrc ''lib/b'') sample_fs = Ok fs'"
    by (simp add: add_project_source_to_config_def sample_fs_def add_project_source_to_doc_def
        sample_doc_def)
  from add_project_source_recorded [OF sample_edit_reads_back ok] ok show ?thesis by auto
qed

end
