(* ===== verification/Lockfile.thy ===== *)
theory Lockfile
  imports Config External UnixPath "HOL-Library.Word" "HOL-Library.Multiset" "HOL-Library.Product_Lexorder"
begin

text \<open>
  Lockfiles, \<^verbatim>\<open>core/src/lock.rs\<close>: the lock with its projects and sources, validation,
  canonicalization (sorting and lower-casing of digests), conversion to and from TOML trees, and
  reading a lockfile from text. The order of \<^verbatim>\<open>Utf8UnixPathBuf\<close> values belongs to the
  \<^verbatim>\<open>typed_path\<close> crate and is given by a key function. Archive sizes are 64-bit words; the
  conversion of a size to \<^verbatim>\<open>i64\<close> that panics is \<open>None\<close>. The deserializers are those
  derived by serde from the declarations: for the untagged \<^verbatim>\<open>Source\<close> the first variant
  whose fields are all present is taken and unknown fields are ignored. Log messages are left out.
\<close>

section \<open>Data\<close>

definition CURRENT_LOCK_VERSION :: string where
  "CURRENT_LOCK_VERSION = ''0.5''"

definition SUPPORTED_LOCK_VERSIONS :: "string list" where
  "SUPPORTED_LOCK_VERSIONS = [CURRENT_LOCK_VERSION]"

datatype Source =
    Editable string
  | LocalSrc string string
  | LocalKpar string "64 word" string
  | RemoteKpar string "64 word" string
  | IndexKpar string "64 word" string
  | RemoteSrc string string
  | RemoteGit string

record LockProject =
  p_publisher :: "string option"
  p_name :: string
  p_version :: string
  p_exports :: "string list"
  p_identifiers :: "string list"
  p_usages :: "string list"
  p_sources :: "Source list"

record Lock =
  lock_version :: string
  lock_projects :: "LockProject list"

definition lock_default :: Lock where
  "lock_default = \<lparr>lock_version = CURRENT_LOCK_VERSION, lock_projects = []\<rparr>"

datatype VersionError = Unsupported string | Missing

datatype ValidationError =
    UnsupportedVersion string
  | NameCollision string
  | ProjectIdCollision string
  | ProjectWithoutId string
  | UnsatisfiedUsage string string
  | InvalidDigestFormat string string string
  | InvalidSourcePath string RelativeUnixPathError
  | InvalidSourceUrl string string

datatype ParseError =
    TomlDe
  | TomlEditErr string
  | Validation ValidationError
  | Version VersionError

section \<open>Validation\<close>

definition validate_lock_version :: "Lock \<Rightarrow> (unit, ValidationError) result" where
  "validate_lock_version lock =
    (if lock_version lock \<in> set SUPPORTED_LOCK_VERSIONS then Ok ()
     else Err (UnsupportedVersion (lock_version lock)))"

fun first_of :: "'a list \<Rightarrow> 'a option" where
  "first_of [] = None"
| "first_of (x # xs) = Some x"

fun check_exports :: "string set \<Rightarrow> string list \<Rightarrow> (string set, ValidationError) result" where
  "check_exports seen [] = Ok seen"
| "check_exports seen (name # names) =
    (if name \<in> seen then Err (NameCollision name) else check_exports (insert name seen) names)"

definition check_collision_step ::
  "string option set \<times> string set \<Rightarrow> LockProject
   \<Rightarrow> (string option set \<times> string set, ValidationError) result" where
  "check_collision_step = (\<lambda>(seen_projects, seen_exports) project.
    (let first = first_of (p_identifiers project) in
     if first \<in> seen_projects then
       (case first of
          Some ident \<Rightarrow> Err (ProjectIdCollision ident)
        | None \<Rightarrow> Err (ProjectWithoutId (p_name project)))
     else map_ok (\<lambda>ex. (insert first seen_projects, ex))
            (check_exports seen_exports (p_exports project))))"

definition check_name_collision :: "Lock \<Rightarrow> (unit, ValidationError) result" where
  "check_name_collision lock =
    map_ok (\<lambda>_. ()) (fold_res check_collision_step ({}, {}) (lock_projects lock))"

fun check_usages :: "string set \<Rightarrow> string \<Rightarrow> string list \<Rightarrow> (unit, ValidationError) result" where
  "check_usages ids name [] = Ok ()"
| "check_usages ids name (u # us) =
    (if u \<in> ids then check_usages ids name us else Err (UnsatisfiedUsage u name))"

definition validate_usages :: "Lock \<Rightarrow> (unit, ValidationError) result" where
  "validate_usages lock =
    (let iri_versions = set (concat (map p_identifiers (lock_projects lock))) in
     fold_res (\<lambda>_ p. check_usages iri_versions (p_name p) (p_usages p)) () (lock_projects lock))"

definition validate_source_location ::
  "('iri, 'ver, 'req, 'time) externs \<Rightarrow> string \<Rightarrow> Source \<Rightarrow> (unit, ValidationError) result" where
  "validate_source_location E name source =
    (let check_path = (\<lambda>path kind. map_ok (\<lambda>_. ()) (map_err (InvalidSourcePath name)
                        (parse_relative_unix_path (windows_is_absolute E) path kind)));
         check_url = (\<lambda>url. map_ok (\<lambda>_. ()) (map_err (InvalidSourceUrl name) (iri_parse E url))) in
     case source of
       Editable path \<Rightarrow> check_path path Directory
     | LocalSrc path _ \<Rightarrow> check_path path Directory
     | LocalKpar path _ _ \<Rightarrow> check_path path File
     | RemoteKpar url _ _ \<Rightarrow> check_url url
     | IndexKpar url _ _ \<Rightarrow> check_url url
     | RemoteSrc url _ \<Rightarrow> check_url url
     | RemoteGit url \<Rightarrow> check_url url)"

fun source_digest :: "Source \<Rightarrow> (string \<times> string) option" where
  "source_digest (LocalSrc _ c) = Some (c, ''project canonical'')"
| "source_digest (RemoteSrc _ c) = Some (c, ''project canonical'')"
| "source_digest (LocalKpar _ _ c) = Some (c, ''kpar'')"
| "source_digest (RemoteKpar _ _ c) = Some (c, ''kpar'')"
| "source_digest (IndexKpar _ _ c) = Some (c, ''kpar'')"
| "source_digest (RemoteGit _) = None"
| "source_digest (Editable _) = None"

definition is_lower_hex :: "char \<Rightarrow> bool" where
  "is_lower_hex c \<longleftrightarrow> is_ascii_digit c \<or> (97 \<le> byte c \<and> byte c \<le> 102)"

definition digest_format_ok :: "string \<Rightarrow> bool" where
  "digest_format_ok c \<longleftrightarrow> length c = 64 \<and> list_all is_lower_hex c"

definition validate_source ::
  "('iri, 'ver, 'req, 'time) externs \<Rightarrow> string \<Rightarrow> Source \<Rightarrow> (unit, ValidationError) result" where
  "validate_source E name source =
    and_then (validate_source_location E name source) (\<lambda>_.
      case source_digest source of
        None \<Rightarrow> Ok ()
      | Some (c, kind) \<Rightarrow>
          if digest_format_ok c then Ok () else Err (InvalidDigestFormat kind c name))"

definition validate_sources ::
  "('iri, 'ver, 'req, 'time) externs \<Rightarrow> Lock \<Rightarrow> (unit, ValidationError) result" where
  "validate_sources E lock =
    fold_res (\<lambda>_ p. fold_res (\<lambda>_ s. validate_source E (p_name p) s) () (p_sources p)) ()
      (lock_projects lock)"

definition lock_validate ::
  "('iri, 'ver, 'req, 'time) externs \<Rightarrow> Lock \<Rightarrow> (unit, ValidationError) result" where
  "lock_validate E lock =
    and_then (validate_lock_version lock) (\<lambda>_.
    and_then (check_name_collision lock) (\<lambda>_.
    and_then (validate_usages lock) (\<lambda>_.
    and_then (validate_sources E lock) (\<lambda>_. Ok ()))))"

section \<open>Canonical form\<close>

text \<open>The derived order of sources: the variants in declaration order, then the fields.\<close>

fun source_key ::
  "(string \<Rightarrow> 'k::linorder) \<Rightarrow> Source \<Rightarrow> nat \<times> 'k \<times> string \<times> 64 word \<times> string" where
  "source_key pk (Editable p) = (0, pk p, [], 0, [])"
| "source_key pk (LocalSrc p c) = (1, pk p, [], 0, c)"
| "source_key pk (LocalKpar p n c) = (2, pk p, [], n, c)"
| "source_key pk (RemoteKpar u n c) = (3, pk [], u, n, c)"
| "source_key pk (IndexKpar u n c) = (4, pk [], u, n, c)"
| "source_key pk (RemoteSrc u c) = (5, pk [], u, 0, c)"
| "source_key pk (RemoteGit u) = (6, pk [], u, 0, [])"

definition project_key :: "LockProject \<Rightarrow> string \<times> string list \<times> string list \<times> string" where
  "project_key p = (p_name p, p_exports p, p_identifiers p, p_version p)"

definition sort_project :: "(string \<Rightarrow> 'k::linorder) \<Rightarrow> LockProject \<Rightarrow> LockProject" where
  "sort_project pk p = p\<lparr>
     p_exports := sort (p_exports p),
     p_identifiers := sort (p_identifiers p),
     p_usages := sort (p_usages p),
     p_sources := sort_key (source_key pk) (p_sources p)\<rparr>"

definition lock_sort :: "(string \<Rightarrow> 'k::linorder) \<Rightarrow> Lock \<Rightarrow> Lock" where
  "lock_sort pk lock =
    lock\<lparr>lock_projects := sort_key project_key (map (sort_project pk) (lock_projects lock))\<rparr>"

fun canonicalize_source :: "Source \<Rightarrow> Source" where
  "canonicalize_source (LocalSrc p c) = LocalSrc p (to_ascii_lowercase c)"
| "canonicalize_source (LocalKpar p n c) = LocalKpar p n (to_ascii_lowercase c)"
| "canonicalize_source (RemoteKpar u n c) = RemoteKpar u n (to_ascii_lowercase c)"
| "canonicalize_source (IndexKpar u n c) = IndexKpar u n (to_ascii_lowercase c)"
| "canonicalize_source (RemoteSrc u c) = RemoteSrc u (to_ascii_lowercase c)"
| "canonicalize_source (RemoteGit u) = RemoteGit u"
| "canonicalize_source (Editable p) = Editable p"

definition canonicalize_checksums :: "Lock \<Rightarrow> Lock" where
  "canonicalize_checksums lock =
    lock\<lparr>lock_projects :=
      map (\<lambda>p. p\<lparr>p_sources := map canonicalize_source (p_sources p)\<rparr>) (lock_projects lock)\<rparr>"

definition canonicalize :: "(string \<Rightarrow> 'k::linorder) \<Rightarrow> Lock \<Rightarrow> Lock" where
  "canonicalize pk lock = canonicalize_checksums (lock_sort pk lock)"

text \<open>The assertion that debug builds make at the end of \<^verbatim>\<open>canonicalize\<close>.\<close>

definition canonicalize_debug_assert ::
  "('iri, 'ver, 'req, 'time) externs \<Rightarrow> (string \<Rightarrow> 'k::linorder) \<Rightarrow> Lock \<Rightarrow> bool" where
  "canonicalize_debug_assert E pk lock = is_ok (lock_validate E (canonicalize pk lock))"

section \<open>TOML form\<close>

definition size_to_toml :: "64 word \<Rightarrow> Toml option" where
  "size_to_toml n = (if uint n < 2 ^ 63 then Some (TInteger (uint n)) else None)"

fun source_to_toml :: "Source \<Rightarrow> toml_table option" where
  "source_to_toml (Editable p) = Some [(''editable'', TString p)]"
| "source_to_toml (LocalKpar p n c) = map_option (\<lambda>size.
    [(''kpar_path'', TString p), (''kpar_size'', size), (''kpar_digest'', TString c)]) (size_to_toml n)"
| "source_to_toml (LocalSrc p c) = Some [(''src_path'', TString p), (''checksum'', TString c)]"
| "source_to_toml (RemoteGit u) = Some [(''remote_git'', TString u)]"
| "source_to_toml (RemoteKpar u n c) = map_option (\<lambda>size.
    [(''remote_kpar'', TString u), (''kpar_size'', size), (''kpar_digest'', TString c)]) (size_to_toml n)"
| "source_to_toml (IndexKpar u n c) = map_option (\<lambda>size.
    [(''index_kpar'', TString u), (''kpar_size'', size), (''kpar_digest'', TString c)]) (size_to_toml n)"
| "source_to_toml (RemoteSrc u c) = Some [(''remote_src'', TString u), (''checksum'', TString c)]"

fun sequence_opt :: "'a option list \<Rightarrow> 'a list option" where
  "sequence_opt [] = Some []"
| "sequence_opt (None # xs) = None"
| "sequence_opt (Some x # xs) = map_option ((#) x) (sequence_opt xs)"

definition project_to_toml :: "LockProject \<Rightarrow> toml_table option" where
  "project_to_toml p = map_option (\<lambda>srcs.
    insert_unless_empty ''sources'' (map TTable srcs)
    (insert_unless_empty ''usages'' (map TString (p_usages p))
    (insert_unless_empty ''identifiers'' (map TString (p_identifiers p))
    (insert_unless_empty ''exports'' (map TString (p_exports p))
      ((case p_publisher p of Some v \<Rightarrow> [(''publisher'', TString v)] | None \<Rightarrow> [])
       @ [(''name'', TString (p_name p)), (''version'', TString (p_version p))])))))
    (sequence_opt (map source_to_toml (p_sources p)))"

definition lock_to_toml :: "Lock \<Rightarrow> toml_table option" where
  "lock_to_toml lock = map_option (\<lambda>ps.
    [(''lock_version'', TString (lock_version lock)), (''project'', TArrayOfTables ps)])
    (sequence_opt (map project_to_toml (lock_projects lock)))"

text \<open>A \<^verbatim>\<open>NonZeroU64\<close> field.\<close>

definition field_nonzero_u64 :: "toml_table \<Rightarrow> string \<Rightarrow> 64 word option" where
  "field_nonzero_u64 t k = (case map_of t k of
     Some (TInteger n) \<Rightarrow> if 0 < n \<and> n < 2 ^ 64 then Some (word_of_int n) else None
   | _ \<Rightarrow> None)"

definition variant1 :: "(string \<Rightarrow> 'a) \<Rightarrow> toml_table \<Rightarrow> string \<Rightarrow> 'a option" where
  "variant1 C t k = map_option C (field_str t k)"

definition variant2 :: "(string \<Rightarrow> string \<Rightarrow> 'a) \<Rightarrow> toml_table \<Rightarrow> string \<Rightarrow> string \<Rightarrow> 'a option" where
  "variant2 C t k1 k2 =
    Option.bind (field_str t k1) (\<lambda>a. Option.bind (field_str t k2) (\<lambda>b. Some (C a b)))"

definition variant_kpar ::
  "(string \<Rightarrow> 64 word \<Rightarrow> string \<Rightarrow> 'a) \<Rightarrow> toml_table \<Rightarrow> string \<Rightarrow> 'a option" where
  "variant_kpar C t k =
    Option.bind (field_str t k) (\<lambda>a.
    Option.bind (field_nonzero_u64 t ''kpar_size'') (\<lambda>n.
    Option.bind (field_str t ''kpar_digest'') (\<lambda>c. Some (C a n c))))"

fun or_else :: "'a option \<Rightarrow> 'a option \<Rightarrow> 'a option" where
  "or_else (Some x) y = Some x"
| "or_else None y = y"

definition source_from_toml :: "toml_table \<Rightarrow> Source option" where
  "source_from_toml t =
    or_else (variant1 Editable t ''editable'')
    (or_else (variant2 LocalSrc t ''src_path'' ''checksum'')
    (or_else (variant_kpar LocalKpar t ''kpar_path'')
    (or_else (variant_kpar RemoteKpar t ''remote_kpar'')
    (or_else (variant_kpar IndexKpar t ''index_kpar'')
    (or_else (variant2 RemoteSrc t ''remote_src'' ''checksum'')
    (variant1 RemoteGit t ''remote_git''))))))"

definition project_from_toml :: "toml_table \<Rightarrow> LockProject option" where
  "project_from_toml t =
    Option.bind (field_opt_str t ''publisher'') (\<lambda>publisher.
    Option.bind (field_str t ''name'') (\<lambda>name.
    Option.bind (field_str t ''version'') (\<lambda>version.
    Option.bind (field_strs t ''exports'') (\<lambda>exports.
    Option.bind (field_strs t ''identifiers'') (\<lambda>identifiers.
    Option.bind (field_strs t ''usages'') (\<lambda>usages.
    Option.bind (field_tables t ''sources'') (\<lambda>tables.
    Option.bind (sequence_opt (map source_from_toml tables)) (\<lambda>sources.
    Some \<lparr>p_publisher = publisher, p_name = name, p_version = version, p_exports = exports,
          p_identifiers = identifiers, p_usages = usages, p_sources = sources\<rparr>))))))))"

definition lock_from_toml :: "toml_table \<Rightarrow> Lock option" where
  "lock_from_toml t =
    Option.bind (field_str t ''lock_version'') (\<lambda>version.
    Option.bind (field_tables t ''project'') (\<lambda>tables.
    Option.bind (sequence_opt (map project_from_toml tables)) (\<lambda>projects.
    Some \<lparr>lock_version = version, lock_projects = projects\<rparr>)))"

definition check_lock_version :: "toml_table \<Rightarrow> (unit, VersionError) result" where
  "check_lock_version document =
    (case map_of document ''lock_version'' of
       Some (TString version) \<Rightarrow>
         if version \<in> set SUPPORTED_LOCK_VERSIONS then Ok () else Err (Unsupported version)
     | _ \<Rightarrow> Err Missing)"

definition lock_from_str ::
  "('iri, 'ver, 'req, 'time) externs \<Rightarrow> (string \<Rightarrow> (toml_table, string) result) \<Rightarrow> string
   \<Rightarrow> (Lock, ParseError) result" where
  "lock_from_str E toml_parse s =
    and_then (map_err TomlEditErr (toml_parse s)) (\<lambda>document.
    and_then (map_err Version (check_lock_version document)) (\<lambda>_.
    and_then (ok_or (lock_from_toml document) TomlDe) (\<lambda>lock.
    and_then (map_err Validation (lock_validate E lock)) (\<lambda>_.
    Ok lock))))"

section \<open>Sources as overrides and checksums\<close>

fun to_override :: "Source \<Rightarrow> OverrideSource" where
  "to_override (Editable p) = OEditable p"
| "to_override (LocalSrc p c) = OLocalSrc p"
| "to_override (LocalKpar p n c) = OLocalKpar p"
| "to_override (RemoteKpar u n c) = ORemoteKpar u"
| "to_override (IndexKpar u n c) = ORemoteKpar u"
| "to_override (RemoteSrc u c) = ORemoteSrc u"
| "to_override (RemoteGit u) = ORemoteGit u"

datatype ProjectChecksum = ProjectSum string | KparSum string

fun project_checksum_display :: "ProjectChecksum \<Rightarrow> string" where
  "project_checksum_display (ProjectSum c) = ''kpar:'' @ c"
| "project_checksum_display (KparSum c) = ''src:'' @ c"

fun to_checksum :: "Source \<Rightarrow> ProjectChecksum option" where
  "to_checksum (Editable p) = None"
| "to_checksum (RemoteGit u) = None"
| "to_checksum (RemoteSrc u c) = Some (ProjectSum c)"
| "to_checksum (LocalSrc p c) = Some (ProjectSum c)"
| "to_checksum (LocalKpar p n c) = Some (KparSum c)"
| "to_checksum (RemoteKpar u n c) = Some (KparSum c)"
| "to_checksum (IndexKpar u n c) = Some (KparSum c)"

section \<open>What validation decides\<close>

lemma check_exports_Ok:
  "check_exports seen xs = Ok s \<longleftrightarrow> distinct xs \<and> set xs \<inter> seen = {} \<and> s = seen \<union> set xs"
  by (induction xs arbitrary: seen) auto

lemma check_collision_fold_Ok:
  "fold_res check_collision_step (sp, se) ps = Ok r \<longleftrightarrow>
    distinct (map (first_of \<circ> p_identifiers) ps) \<and> (first_of \<circ> p_identifiers) ` set ps \<inter> sp = {}
    \<and> distinct (concat (map p_exports ps)) \<and> set (concat (map p_exports ps)) \<inter> se = {}
    \<and> r = (sp \<union> (first_of \<circ> p_identifiers) ` set ps, se \<union> set (concat (map p_exports ps)))"
proof (induction ps arbitrary: sp se)
  case Nil
  show ?case by auto
next
  case (Cons p ps)
  have step: "check_collision_step (sp, se) p = Ok q \<longleftrightarrow>
      first_of (p_identifiers p) \<notin> sp \<and> distinct (p_exports p) \<and> set (p_exports p) \<inter> se = {}
      \<and> q = (insert (first_of (p_identifiers p)) sp, se \<union> set (p_exports p))" for q
    by (auto simp: check_collision_step_def Let_def check_exports_Ok split: option.splits)
  show ?case
    unfolding fold_res.simps and_then_eq_Ok step
    by (cases "first_of (p_identifiers p) \<in> sp") (auto simp: Cons.IH)
qed

lemma check_name_collision_Ok:
  "check_name_collision lock = Ok () \<longleftrightarrow>
    distinct (map (first_of \<circ> p_identifiers) (lock_projects lock))
    \<and> distinct (concat (map p_exports (lock_projects lock)))"
  by (auto simp: check_name_collision_def check_collision_fold_Ok)

lemma check_usages_Ok: "check_usages ids name us = Ok () \<longleftrightarrow> set us \<subseteq> ids"
  by (induction us) auto

lemma validate_usages_Ok:
  "validate_usages lock = Ok () \<longleftrightarrow>
    (\<Union>p \<in> set (lock_projects lock). set (p_usages p))
      \<subseteq> (\<Union>p \<in> set (lock_projects lock). set (p_identifiers p))"
  unfolding validate_usages_def Let_def fold_res_unit check_usages_Ok by fastforce

definition source_ok :: "('iri, 'ver, 'req, 'time) externs \<Rightarrow> Source \<Rightarrow> bool" where
  "source_ok E s \<longleftrightarrow> (case s of
       Editable p \<Rightarrow> is_ok (parse_relative_unix_path (windows_is_absolute E) p Directory)
     | LocalSrc p c \<Rightarrow> is_ok (parse_relative_unix_path (windows_is_absolute E) p Directory)
     | LocalKpar p n c \<Rightarrow> is_ok (parse_relative_unix_path (windows_is_absolute E) p File)
     | RemoteKpar u n c \<Rightarrow> is_ok (iri_parse E u)
     | IndexKpar u n c \<Rightarrow> is_ok (iri_parse E u)
     | RemoteSrc u c \<Rightarrow> is_ok (iri_parse E u)
     | RemoteGit u \<Rightarrow> is_ok (iri_parse E u))
    \<and> (\<forall>c k. source_digest s = Some (c, k) \<longrightarrow> digest_format_ok c)"

lemma validate_source_Ok: "validate_source E name s = Ok () \<longleftrightarrow> source_ok E s"
  by (cases s) (auto simp: validate_source_def validate_source_location_def source_ok_def is_ok_iff)

lemma validate_sources_Ok:
  "validate_sources E lock = Ok () \<longleftrightarrow>
    (\<forall>p \<in> set (lock_projects lock). \<forall>s \<in> set (p_sources p). source_ok E s)"
  by (simp add: validate_sources_def fold_res_unit validate_source_Ok)

lemmas lock_validate_Ok_simps =
  lock_validate_def validate_lock_version_def check_name_collision_Ok validate_usages_Ok
  validate_sources_Ok

lemma lock_validate_Ok:
  "lock_validate E lock = Ok () \<longleftrightarrow>
    lock_version lock \<in> set SUPPORTED_LOCK_VERSIONS
    \<and> distinct (map (first_of \<circ> p_identifiers) (lock_projects lock))
    \<and> distinct (concat (map p_exports (lock_projects lock)))
    \<and> (\<Union>p \<in> set (lock_projects lock). set (p_usages p))
        \<subseteq> (\<Union>p \<in> set (lock_projects lock). set (p_identifiers p))
    \<and> (\<forall>p \<in> set (lock_projects lock). \<forall>s \<in> set (p_sources p). source_ok E s)"
  by (auto simp: lock_validate_Ok_simps)

section \<open>The canonical form\<close>

definition canonical_project :: "(string \<Rightarrow> 'k::linorder) \<Rightarrow> LockProject \<Rightarrow> LockProject" where
  "canonical_project pk p =
    (sort_project pk p)\<lparr>p_sources := map canonicalize_source (sort_key (source_key pk) (p_sources p))\<rparr>"

lemma sort_project_sel [simp]:
  "p_name (sort_project pk p) = p_name p" "p_version (sort_project pk p) = p_version p"
  "p_publisher (sort_project pk p) = p_publisher p"
  "p_exports (sort_project pk p) = sort (p_exports p)"
  "p_identifiers (sort_project pk p) = sort (p_identifiers p)"
  "p_usages (sort_project pk p) = sort (p_usages p)"
  "p_sources (sort_project pk p) = sort_key (source_key pk) (p_sources p)"
  by (simp_all add: sort_project_def)

lemma canonical_project_sel [simp]:
  "p_name (canonical_project pk p) = p_name p" "p_version (canonical_project pk p) = p_version p"
  "p_publisher (canonical_project pk p) = p_publisher p"
  "p_exports (canonical_project pk p) = sort (p_exports p)"
  "p_identifiers (canonical_project pk p) = sort (p_identifiers p)"
  "p_usages (canonical_project pk p) = sort (p_usages p)"
  "p_sources (canonical_project pk p) = map canonicalize_source (sort_key (source_key pk) (p_sources p))"
  by (simp_all add: canonical_project_def)

lemma project_key_canonical: "project_key (canonical_project pk p) = project_key (sort_project pk p)"
  by (simp add: project_key_def)

lemma sort_key_map: "sort_key f (map g xs) = map g (sort_key (f \<circ> g) xs)"
proof (induction xs)
  case Nil
  show ?case by simp
next
  case (Cons x xs)
  have "insort_key f (g x) (map g ys) = map g (insort_key (f \<circ> g) x ys)" for ys
    by (induction ys) auto
  with Cons show ?case by (simp add: comp_def)
qed

lemma canonicalize_projects:
  "lock_projects (canonicalize pk lock) =
    map (canonical_project pk) (sort_key (project_key \<circ> sort_project pk) (lock_projects lock))"
  by (simp add: canonicalize_def canonicalize_checksums_def lock_sort_def sort_key_map
      canonical_project_def)

lemma canonicalize_version [simp]: "lock_version (canonicalize pk lock) = lock_version lock"
  by (simp add: canonicalize_def canonicalize_checksums_def lock_sort_def)

lemma canonicalize_mset:
  "mset (lock_projects (canonicalize pk lock)) =
    image_mset (canonical_project pk) (mset (lock_projects lock))"
  by (simp add: canonicalize_projects)

lemma canonicalize_set:
  "set (lock_projects (canonicalize pk lock)) = canonical_project pk ` set (lock_projects lock)"
  by (simp add: canonicalize_projects)

lemma canonicalize_sorted: "sorted (map project_key (lock_projects (canonicalize pk lock)))"
proof -
  have "map project_key (lock_projects (canonicalize pk lock)) =
      map (project_key \<circ> sort_project pk) (sort_key (project_key \<circ> sort_project pk) (lock_projects lock))"
    by (simp add: canonicalize_projects project_key_canonical)
  then show ?thesis by (simp only: sorted_sort_key)
qed

lemma lower_hex_fixed: "digest_format_ok c \<Longrightarrow> to_ascii_lowercase c = c"
proof -
  assume "digest_format_ok c"
  then have "ascii_lower x = x" if "x \<in> set c" for x
    using that by (auto simp: digest_format_ok_def list_all_iff is_lower_hex_def ascii_lower_def ascii_simps)
  then show ?thesis by (simp add: to_ascii_lowercase_def map_idI)
qed

lemma canonicalize_source_fixed: "source_ok E s \<Longrightarrow> canonicalize_source s = s"
  by (cases s) (auto simp: source_ok_def lower_hex_fixed)

lemma canonical_project_ok:
  assumes "\<forall>s \<in> set (p_sources p). source_ok E s"
  shows "canonical_project pk p = sort_project pk p"
proof -
  have "map canonicalize_source (sort_key (source_key pk) (p_sources p)) =
      sort_key (source_key pk) (p_sources p)"
    using assms by (intro map_idI) (auto intro: canonicalize_source_fixed)
  then show ?thesis by (simp add: canonical_project_def)
qed

lemma sort_project_idem: "sort_project pk (sort_project pk p) = sort_project pk p"
proof -
  have "sort_key (source_key pk) (sort_key (source_key pk) (p_sources p)) =
      sort_key (source_key pk) (p_sources p)"
    by (rule sort_key_id_if_sorted) simp
  moreover have "sort (sort xs) = sort xs" for xs :: "string list"
    by (rule sort_key_id_if_sorted) simp
  ultimately show ?thesis by (simp add: sort_project_def)
qed

lemma source_ok_canonical: "source_ok E s \<Longrightarrow> source_ok E (canonicalize_source s)"
  by (simp add: canonicalize_source_fixed)

lemma first_of_in: "first_of xs = Some x \<Longrightarrow> x \<in> set xs"
  by (cases xs) auto

lemma first_of_None [simp]: "first_of xs = None \<longleftrightarrow> xs = []"
  by (cases xs) auto

lemma sort_eq_Nil [simp]: "sort xs = [] \<longleftrightarrow> xs = []"
  by (metis length_0_conv length_sort)

text \<open>If no two projects share an identifier, sorting the identifiers keeps the first ones
  distinct.\<close>

lemma distinct_first_sorted:
  fixes ids :: "'a \<Rightarrow> string list"
  assumes "distinct (map (first_of \<circ> ids) ps)" and "distinct (concat (map ids ps))"
  shows "distinct (map (\<lambda>p. first_of (sort (ids p))) ps)"
  using assms
proof (induction ps)
  case Nil
  show ?case by simp
next
  case (Cons p ps)
  have "first_of (sort (ids p)) \<noteq> first_of (sort (ids q))" if q: "q \<in> set ps" for q
  proof
    assume eq: "first_of (sort (ids p)) = first_of (sort (ids q))"
    show False
    proof (cases "first_of (sort (ids p))")
      case None
      then have "ids p = []" "ids q = []" using eq by simp_all
      then show False using Cons.prems(1) q by (auto simp: image_iff)
    next
      case (Some x)
      then have "x \<in> set (ids p)" "x \<in> set (ids q)" using eq first_of_in by fastforce+
      then show False using Cons.prems(2) q by auto
    qed
  qed
  moreover have "distinct (map (\<lambda>p. first_of (sort (ids p))) ps)" using Cons by simp
  ultimately show ?case by auto
qed

lemma mset_map_sort_key: "mset (map f (sort_key g xs)) = mset (map f xs)"
  by simp

lemma distinct_map_sort_key: "distinct (map f (sort_key g xs)) = distinct (map f xs)"
  by (rule mset_eq_imp_distinct_iff) simp

lemma mset_concat_cong: "mset xs = mset ys \<Longrightarrow> mset (concat (map f xs)) = mset (concat (map f ys))"
  by (simp add: mset_concat flip: sum_mset_sum_list)

lemma mset_concat_sort: "mset (concat (map (\<lambda>p. sort (f p)) xs)) = mset (concat (map f xs))"
  by (induction xs) auto

lemma canonicalize_exports:
  "mset (concat (map p_exports (lock_projects (canonicalize pk lock)))) =
    mset (concat (map p_exports (lock_projects lock)))"
proof -
  have "map p_exports (lock_projects (canonicalize pk lock)) =
      map (\<lambda>p. sort (p_exports p)) (sort_key (project_key \<circ> sort_project pk) (lock_projects lock))"
    by (simp add: canonicalize_projects)
  moreover have "mset (concat (map (\<lambda>p. sort (p_exports p))
        (sort_key (project_key \<circ> sort_project pk) (lock_projects lock)))) =
      mset (concat (map (\<lambda>p. sort (p_exports p)) (lock_projects lock)))"
    by (rule mset_concat_cong) simp
  ultimately show ?thesis by (simp only: mset_concat_sort)
qed

lemma canonicalize_keeps_valid:
  assumes valid: "lock_validate E lock = Ok ()"
    and ids: "distinct (concat (map p_identifiers (lock_projects lock)))"
  shows "lock_validate E (canonicalize pk lock) = Ok ()"
proof -
  note v = valid [unfolded lock_validate_Ok]
  have "map (first_of \<circ> p_identifiers) (lock_projects (canonicalize pk lock)) =
      map (\<lambda>p. first_of (sort (p_identifiers p)))
        (sort_key (project_key \<circ> sort_project pk) (lock_projects lock))"
    by (simp add: canonicalize_projects)
  moreover have "distinct (map (first_of \<circ> p_identifiers) (lock_projects lock))" using v by blast
  ultimately have "distinct (map (first_of \<circ> p_identifiers) (lock_projects (canonicalize pk lock)))"
    using distinct_first_sorted [OF _ ids] by (simp only: distinct_map_sort_key)
  moreover have "distinct (concat (map p_exports (lock_projects (canonicalize pk lock))))"
    using v by (simp add: mset_eq_imp_distinct_iff [OF canonicalize_exports])
  moreover have "(\<Union>p \<in> set (lock_projects (canonicalize pk lock)). set (p_usages p)) =
      (\<Union>p \<in> set (lock_projects lock). set (p_usages p))"
    and "(\<Union>p \<in> set (lock_projects (canonicalize pk lock)). set (p_identifiers p)) =
      (\<Union>p \<in> set (lock_projects lock). set (p_identifiers p))"
    by (simp_all add: canonicalize_set)
  moreover have "source_ok E s"
    if "p \<in> set (lock_projects (canonicalize pk lock))" "s \<in> set (p_sources p)" for p s
    using that v by (auto simp: canonicalize_set intro!: source_ok_canonical)
  ultimately show ?thesis
    using v unfolding lock_validate_Ok by simp
qed

lemma canonicalize_valid_sources:
  assumes "\<forall>p \<in> set (lock_projects lock). \<forall>s \<in> set (p_sources p). source_ok E s"
  shows "canonicalize pk lock = lock_sort pk lock"
proof -
  have "lock_projects (canonicalize pk lock) = lock_projects (lock_sort pk lock)"
    using assms canonical_project_ok [of _ E pk]
    by (simp add: canonicalize_projects lock_sort_def sort_key_map)
  then show ?thesis
    by (intro Lock.equality) (simp_all add: lock_sort_def)
qed

lemma lock_sort_idem: "lock_sort pk (lock_sort pk lock) = lock_sort pk lock"
proof -
  let ?ps = "sort_key project_key (map (sort_project pk) (lock_projects lock))"
  have fixed: "map (sort_project pk) ?ps = ?ps"
    by (intro map_idI) (auto simp: sort_project_idem)
  have "sort_key project_key ?ps = ?ps" by (rule sort_key_id_if_sorted) simp
  then show ?thesis unfolding lock_sort_def using fixed by simp
qed

section \<open>Reading back what was written\<close>

lemma sequence_opt_map:
  "sequence_opt (map f xs) = Some ys \<longleftrightarrow> list_all2 (\<lambda>x y. f x = Some y) xs ys"
proof (induction xs arbitrary: ys)
  case Nil
  show ?case by auto
next
  case (Cons x xs)
  then show ?case by (cases "f x"; cases ys) auto
qed

lemma sequence_opt_roundtrip:
  assumes "sequence_opt (map f xs) = Some ys"
    and "\<And>x y. x \<in> set xs \<Longrightarrow> f x = Some y \<Longrightarrow> g y = Some x"
  shows "sequence_opt (map g ys) = Some xs"
  using assms
proof (induction xs arbitrary: ys)
  case Nil
  then show ?case by simp
next
  case (Cons x xs)
  then obtain y ys' where y: "f x = Some y" "sequence_opt (map f xs) = Some ys'" "ys = y # ys'"
    by (cases "f x") auto
  have "g y = Some x" using Cons.prems(2) y(1) by simp
  moreover have "sequence_opt (map g ys') = Some xs" using Cons y(2) by simp
  ultimately show ?case using y(3) by simp
qed

lemma sequence_opt_total: "\<forall>x \<in> set xs. f x \<noteq> None \<Longrightarrow> sequence_opt (map f xs) \<noteq> None"
  by (induction xs) auto

fun source_size :: "Source \<Rightarrow> 64 word option" where
  "source_size (LocalKpar _ n _) = Some n"
| "source_size (RemoteKpar _ n _) = Some n"
| "source_size (IndexKpar _ n _) = Some n"
| "source_size _ = None"

text \<open>Sizes are \<^verbatim>\<open>NonZeroU64\<close>.\<close>

definition sizes_nonzero :: "Lock \<Rightarrow> bool" where
  "sizes_nonzero lock \<longleftrightarrow>
    (\<forall>p \<in> set (lock_projects lock). \<forall>s \<in> set (p_sources p). source_size s \<noteq> Some 0)"

lemma size_roundtrip:
  assumes "size_to_toml n = Some v" "n \<noteq> 0" "map_of t k = Some v"
  shows "field_nonzero_u64 t k = Some n"
proof -
  have "uint n \<noteq> 0" using assms(2) by (simp add: uint_0_iff)
  then have "0 < uint n" using uint_ge_0 [of n] by linarith
  then show ?thesis
    using assms by (auto simp: size_to_toml_def field_nonzero_u64_def split: if_splits)
qed

lemma source_toml_roundtrip:
  assumes "source_to_toml s = Some t" and "source_size s \<noteq> Some 0"
  shows "source_from_toml t = Some s"
  using assms
  by (cases s) (auto simp: source_from_toml_def variant1_def variant2_def variant_kpar_def
      field_str_def size_roundtrip)

lemma map_of_insert_unless_empty:
  "map_of (insert_unless_empty k vs t) k' =
    (if k' = k \<and> vs \<noteq> [] then Some (TArray vs) else map_of t k')"
  by (simp add: insert_unless_empty_def update_conv')

lemma project_toml_roundtrip:
  assumes "project_to_toml p = Some t"
    and "\<forall>s \<in> set (p_sources p). source_size s \<noteq> Some 0"
  shows "project_from_toml t = Some p"
proof -
  from assms(1) obtain srcs where srcs: "sequence_opt (map source_to_toml (p_sources p)) = Some srcs"
    and t: "t = insert_unless_empty ''sources'' (map TTable srcs)
      (insert_unless_empty ''usages'' (map TString (p_usages p))
      (insert_unless_empty ''identifiers'' (map TString (p_identifiers p))
      (insert_unless_empty ''exports'' (map TString (p_exports p))
        ((case p_publisher p of Some v \<Rightarrow> [(''publisher'', TString v)] | None \<Rightarrow> [])
         @ [(''name'', TString (p_name p)), (''version'', TString (p_version p))]))))"
    by (auto simp: project_to_toml_def)
  have srcs_back: "sequence_opt (map source_from_toml srcs) = Some (p_sources p)"
    using sequence_opt_roundtrip [OF srcs] source_toml_roundtrip assms(2) by blast
  have "field_opt_str t ''publisher'' = Some (p_publisher p)"
    by (cases "p_publisher p") (simp_all add: t field_opt_str_def map_of_insert_unless_empty)
  moreover have "field_str t ''name'' = Some (p_name p)" "field_str t ''version'' = Some (p_version p)"
    by (cases "p_publisher p"; simp add: t field_str_def map_of_insert_unless_empty)+
  moreover have "field_strs t ''exports'' = Some (p_exports p)"
    "field_strs t ''identifiers'' = Some (p_identifiers p)"
    "field_strs t ''usages'' = Some (p_usages p)"
    by (cases "p_publisher p"; simp add: t field_strs_def map_of_insert_unless_empty
        del: string_seq.simps)+
  moreover have "field_tables t ''sources'' = Some srcs"
    by (cases "p_publisher p") (simp_all add: t field_tables_def map_of_insert_unless_empty
        del: table_seq.simps)
  ultimately show ?thesis using srcs_back by (simp add: project_from_toml_def)
qed

lemma lock_toml_roundtrip:
  assumes "lock_to_toml lock = Some t" and "sizes_nonzero lock"
  shows "lock_from_toml (filter (\<lambda>(k, v). v \<noteq> TArrayOfTables []) t) = Some lock"
proof -
  from assms(1) obtain ps where ps: "sequence_opt (map project_to_toml (lock_projects lock)) = Some ps"
    and t: "t = [(''lock_version'', TString (lock_version lock)), (''project'', TArrayOfTables ps)]"
    by (auto simp: lock_to_toml_def)
  have "sequence_opt (map project_from_toml ps) = Some (lock_projects lock)"
    using sequence_opt_roundtrip [OF ps] project_toml_roundtrip assms(2)
    by (auto simp: sizes_nonzero_def)
  then show ?thesis
    by (auto simp: lock_from_toml_def t field_str_def field_tables_def)
qed

lemma source_to_toml_total:
  "\<forall>n. source_size s = Some n \<longrightarrow> uint n < 2 ^ 63 \<Longrightarrow> source_to_toml s \<noteq> None"
  by (cases s) (auto simp: size_to_toml_def)

lemma project_to_toml_total:
  assumes "\<forall>s \<in> set (p_sources p). \<forall>n. source_size s = Some n \<longrightarrow> uint n < 2 ^ 63"
  shows "project_to_toml p \<noteq> None"
proof -
  have "sequence_opt (map source_to_toml (p_sources p)) \<noteq> None"
    using assms source_to_toml_total by (intro sequence_opt_total) blast
  then show ?thesis by (simp add: project_to_toml_def)
qed

text \<open>What is relied on of the TOML printer and parser: a lock document reads back as written,
  except that an array of tables without elements leaves no trace in the text.\<close>

definition lock_print_law ::
  "(string \<Rightarrow> (toml_table, string) result) \<Rightarrow> (toml_table \<Rightarrow> string) \<Rightarrow> bool" where
  "lock_print_law parse print \<longleftrightarrow> (\<forall>lock t. lock_to_toml lock = Some t \<longrightarrow>
     parse (print t) = Ok (filter (\<lambda>(k, v). v \<noteq> TArrayOfTables []) t))"

section \<open>Properties\<close>

text \<open>C19: a valid lock whose sizes fit a signed 64-bit integer can be written, and reading the
  text back gives the same lock.\<close>

theorem lock_file_roundtrip:
  assumes "lock_print_law parse print"
    and "lock_validate E lock = Ok ()" and "sizes_nonzero lock"
    and "\<forall>p \<in> set (lock_projects lock). \<forall>s \<in> set (p_sources p). \<forall>n.
           source_size s = Some n \<longrightarrow> uint n < 2 ^ 63"
  shows "\<exists>t. lock_to_toml lock = Some t \<and> lock_from_str E parse (print t) = Ok lock"
proof -
  have "project_to_toml p \<noteq> None" if "p \<in> set (lock_projects lock)" for p
    using project_to_toml_total assms(4) that by blast
  then obtain ps where "sequence_opt (map project_to_toml (lock_projects lock)) = Some ps"
    using sequence_opt_total [of "lock_projects lock" project_to_toml] by blast
  then obtain t where t: "lock_to_toml lock = Some t" by (simp add: lock_to_toml_def)
  then have "parse (print t) = Ok (filter (\<lambda>(k, v). v \<noteq> TArrayOfTables []) t)"
    using assms(1) by (simp add: lock_print_law_def)
  moreover have "check_lock_version (filter (\<lambda>(k, v). v \<noteq> TArrayOfTables []) t) = Ok ()"
    using assms(2) t by (auto simp: check_lock_version_def lock_to_toml_def lock_validate_Ok)
  ultimately show ?thesis
    using t assms(2) lock_toml_roundtrip [OF t assms(3)] by (simp add: lock_from_str_def)
qed

definition sample_digest :: string where
  "sample_digest = concat (replicate 32 ''0f'')"

definition sample_lock :: Lock where
  "sample_lock = \<lparr>lock_version = ''0.5'', lock_projects = [
     \<lparr>p_publisher = Some ''acme'', p_name = ''app'', p_version = ''1.0.0'', p_exports = [''App''],
       p_identifiers = [''urn:app''], p_usages = [''pkg:sysand/acme/lib''],
       p_sources = [Editable ''.'']\<rparr>,
     \<lparr>p_publisher = None, p_name = ''lib'', p_version = ''2.0.0'', p_exports = [''Lib'', ''Core''],
       p_identifiers = [''pkg:sysand/acme/lib''], p_usages = [],
       p_sources = [IndexKpar ''https://ex.org/lib.kpar'' 42 sample_digest]\<rparr>]\<rparr>"

lemma sample_lock_valid: "lock_validate sample_externs sample_lock = Ok ()"
  by code_simp

lemma sample_digest_ok: "digest_format_ok sample_digest"
  by code_simp

text \<open>A printer that leaves out empty arrays of tables.\<close>

definition sample_lock_print :: "toml_table \<Rightarrow> string" where
  "sample_lock_print t = sample_print (filter (\<lambda>(k, v). v \<noteq> TArrayOfTables []) t)"

theorem lock_file_roundtrip_witness:
  "\<exists>t. lock_to_toml sample_lock = Some t
    \<and> lock_from_str sample_externs sample_parse (sample_lock_print t) = Ok sample_lock"
proof -
  have "lock_print_law sample_parse sample_lock_print"
    by (simp add: lock_print_law_def sample_lock_print_def)
  moreover have "sizes_nonzero sample_lock" by (simp add: sizes_nonzero_def sample_lock_def)
  ultimately show ?thesis
    using lock_file_roundtrip [OF _ sample_lock_valid, of sample_parse sample_lock_print]
    by (simp add: sample_lock_def)
qed

text \<open>C20: validation accepts a lock exactly when its version is supported, the first identifiers
  of its projects are pairwise different, no symbol is exported twice, every usage is
  an identifier of some project of the lock, and every source has a well-formed location and digest.\<close>

theorem lock_validate_spec:
  "lock_validate E lock = Ok () \<longleftrightarrow>
    lock_version lock = ''0.5''
    \<and> distinct (map (first_of \<circ> p_identifiers) (lock_projects lock))
    \<and> distinct (concat (map p_exports (lock_projects lock)))
    \<and> (\<Union>p \<in> set (lock_projects lock). set (p_usages p))
        \<subseteq> (\<Union>p \<in> set (lock_projects lock). set (p_identifiers p))
    \<and> (\<forall>p \<in> set (lock_projects lock). \<forall>s \<in> set (p_sources p). source_ok E s)"
  by (simp add: lock_validate_Ok SUPPORTED_LOCK_VERSIONS_def CURRENT_LOCK_VERSION_def)

theorem lock_validate_spec_witness:
  "(\<Union>p \<in> set (lock_projects sample_lock). set (p_usages p))
    \<subseteq> (\<Union>p \<in> set (lock_projects sample_lock). set (p_identifiers p))"
  using lock_validate_spec [of sample_externs sample_lock] sample_lock_valid by simp

text \<open>C21: canonicalization keeps a valid lock valid, provided that no identifier belongs to two of
  its projects: it then passes the assertion that \<open>canonicalize\<close> ends with.\<close>

theorem canonicalize_preserves_validity:
  assumes "lock_validate E lock = Ok ()"
    and "distinct (concat (map p_identifiers (lock_projects lock)))"
  shows "canonicalize_debug_assert E pk lock"
  using canonicalize_keeps_valid [OF assms, of pk] by (simp add: canonicalize_debug_assert_def)

theorem canonicalize_preserves_validity_witness:
  "canonicalize_debug_assert sample_externs (\<lambda>p. p) sample_lock"
  by (rule canonicalize_preserves_validity [OF sample_lock_valid]) (simp add: sample_lock_def)

text \<open>canonicalization only reorders: its projects are, as a multiset, the canonical forms of
  the original ones, in the order of their names, exports, identifiers and versions; and it is
  idempotent on locks whose sources are valid.\<close>

theorem canonicalize_is_canonical:
  assumes "validate_sources E lock = Ok ()"
  shows "mset (lock_projects (canonicalize pk lock)) =
      image_mset (sort_project pk) (mset (lock_projects lock))
    \<and> sorted (map project_key (lock_projects (canonicalize pk lock)))
    \<and> canonicalize pk (canonicalize pk lock) = canonicalize pk lock"
proof -
  have ok: "\<forall>p \<in> set (lock_projects lock). \<forall>s \<in> set (p_sources p). source_ok E s"
    using assms by (simp add: validate_sources_Ok)
  then have c: "canonicalize pk lock = lock_sort pk lock" by (rule canonicalize_valid_sources)
  have "\<forall>p \<in> set (lock_projects (lock_sort pk lock)). \<forall>s \<in> set (p_sources p). source_ok E s"
    using ok by (auto simp: lock_sort_def)
  then have "canonicalize pk (lock_sort pk lock) = lock_sort pk lock"
    using canonicalize_valid_sources lock_sort_idem by metis
  moreover have "mset (lock_projects (lock_sort pk lock)) =
      image_mset (sort_project pk) (mset (lock_projects lock))"
    by (simp add: lock_sort_def)
  ultimately show ?thesis using canonicalize_sorted [of pk lock] c by simp
qed

theorem canonicalize_is_canonical_witness:
  "sorted (map project_key (lock_projects (canonicalize (\<lambda>p. p) sample_lock)))"
proof -
  have "validate_sources sample_externs sample_lock = Ok ()"
    using sample_lock_valid by (auto simp: lock_validate_def)
  then show ?thesis using canonicalize_is_canonical by blast
qed

section \<open>Limits of canonicalization\<close>

text \<open>Without the assumption on identifiers, canonicalization can make a valid lock invalid:
  sorting the identifiers changes which one is first.\<close>

definition shared_id_lock :: Lock where
  "shared_id_lock =
    (let mk = (\<lambda>nm ids. \<lparr>p_publisher = None, p_name = nm, p_version = ''1.0.0'', p_exports = [],
                 p_identifiers = ids, p_usages = [], p_sources = []\<rparr>) in
     \<lparr>lock_version = ''0.5'', lock_projects =
       [mk ''x'' [''urn:b'', ''urn:a''], mk ''y'' [''urn:c'', ''urn:a'']]\<rparr>)"

theorem canonicalize_can_invalidate:
  "lock_validate sample_externs shared_id_lock = Ok ()
    \<and> lock_validate sample_externs (canonicalize (\<lambda>p. p) shared_id_lock)
      = Err (ProjectIdCollision ''urn:a'')"
  by code_simp

text \<open>Digests are lowered after sorting: with an upper-case digest a second run reorders the
  sources, so the first result was not sorted.\<close>

definition upper_digest_lock :: Lock where
  "upper_digest_lock = \<lparr>lock_version = ''0.5'', lock_projects = [
     \<lparr>p_publisher = None, p_name = ''x'', p_version = ''1.0.0'', p_exports = [],
       p_identifiers = [''urn:x''], p_usages = [],
       p_sources = [RemoteSrc ''urn:s'' ''B0'', RemoteSrc ''urn:s'' ''a0'']\<rparr>]\<rparr>"

theorem canonicalize_not_idempotent:
  "canonicalize (\<lambda>p. p) (canonicalize (\<lambda>p. p) upper_digest_lock)
    \<noteq> canonicalize (\<lambda>p. p) upper_digest_lock"
  by code_simp

text \<open>A project without identifiers is accepted as long as it is the only one.\<close>

theorem project_without_identifier_accepted:
  "lock_validate sample_externs \<lparr>lock_version = ''0.5'', lock_projects = [
     \<lparr>p_publisher = None, p_name = ''x'', p_version = ''1.0.0'', p_exports = [],
       p_identifiers = [], p_usages = [], p_sources = []\<rparr>]\<rparr> = Ok ()"
  by code_simp

end
