(* ===== verification/Project.thy ===== *)
theory Project
  imports Model Lockfile
begin

text \<open>
  Project storages: the \<^verbatim>\<open>ProjectRead\<close> and \<^verbatim>\<open>ProjectMut\<close> traits of
  \<^verbatim>\<open>core/src/project/mod.rs\<close>, in-memory projects (\<^verbatim>\<open>core/src/project/memory.rs\<close>)
  and copying of projects (\<^verbatim>\<open>core/src/env/utils.rs\<close>).

  An implementation of a trait is a record of its mandatory methods; the provided methods
  are functions of that record. A source reader is what reading it to the end yields, the bytes or an
  I/O error. The laws a writable storage obeys form the locale \<open>project_store\<close>, in
  which copying is proved correct once, and which is interpreted by the in-memory storage.
  Hashing, JSON printing, SPDX parsing, Unicode lower-casing and the iteration order of a
  \<^verbatim>\<open>HashSet\<close> are arguments. A failed operation returns only its error: the storages
  modelled here are discarded by their callers in that case.
\<close>

section \<open>Traits\<close>

type_synonym reader = "(string, string) result"

record ('p, 'e) ProjectRead =
  get_project :: "'p \<Rightarrow> (InterchangeProjectInfoRaw option \<times> InterchangeProjectMetadataRaw option, 'e) result"
  read_source :: "'p \<Rightarrow> string \<Rightarrow> (reader, 'e) result"

record ('q, 'e) ProjectMut =
  put_info :: "InterchangeProjectInfoRaw \<Rightarrow> bool \<Rightarrow> 'q \<Rightarrow> ('q, 'e) result"
  put_meta :: "InterchangeProjectMetadataRaw \<Rightarrow> bool \<Rightarrow> 'q \<Rightarrow> ('q, 'e) result"
  write_source :: "string \<Rightarrow> reader \<Rightarrow> bool \<Rightarrow> 'q \<Rightarrow> ('q, 'e) result"

text \<open>Functions of other crates and of the standard library's Unicode tables.\<close>

record project_externs =
  sha256_hex :: "string \<Rightarrow> string"
  info_json :: "InterchangeProjectInfoRaw \<Rightarrow> string"
  meta_json :: "InterchangeProjectMetadataRaw \<Rightarrow> string"
  to_lowercase :: "string \<Rightarrow> string"
  hash_order :: "string set \<Rightarrow> string list"
  spdx_stems :: "string \<Rightarrow> string list option"

definition hash_order_law :: "project_externs \<Rightarrow> bool" where
  "hash_order_law X \<longleftrightarrow> (\<forall>S. finite S \<longrightarrow> set (hash_order X S) = S)"

definition get_info ::
  "('p, 'e) ProjectRead \<Rightarrow> 'p \<Rightarrow> (InterchangeProjectInfoRaw option, 'e) result" where
  "get_info R p = map_ok fst (get_project R p)"

definition get_meta ::
  "('p, 'e) ProjectRead \<Rightarrow> 'p \<Rightarrow> (InterchangeProjectMetadataRaw option, 'e) result" where
  "get_meta R p = map_ok snd (get_project R p)"

definition project_version :: "('p, 'e) ProjectRead \<Rightarrow> 'p \<Rightarrow> (string option, 'e) result" where
  "project_version R p = map_ok (map_option i_version) (get_info R p)"

definition project_usage ::
  "('p, 'e) ProjectRead \<Rightarrow> 'p \<Rightarrow> (InterchangeProjectUsageRaw list option, 'e) result" where
  "project_usage R p = map_ok (map_option i_usage) (get_info R p)"

datatype 'e CanonicalizationError = CanonProjectRead 'e | CanonFileRead string string

definition hash_reader :: "project_externs \<Rightarrow> reader \<Rightarrow> (string, string) result" where
  "hash_reader X r = map_ok (sha256_hex X) r"

definition canonical_checksum ::
  "project_externs \<Rightarrow> ('p, 'e) ProjectRead \<Rightarrow> 'p \<Rightarrow> string \<times> InterchangeProjectChecksumRaw
   \<Rightarrow> (string \<times> InterchangeProjectChecksumRaw, 'e CanonicalizationError) result" where
  "canonical_checksum X R p = (\<lambda>(path, checksum).
     if c_algorithm checksum \<noteq> alg_str Sha256 then
       and_then (map_err CanonProjectRead (read_source R p path)) (\<lambda>src.
       and_then (map_err (CanonFileRead path) (hash_reader X src)) (\<lambda>h.
       Ok (path, \<lparr>c_value = h, c_algorithm = alg_str Sha256\<rparr>)))
     else Ok (path, checksum\<lparr>c_value := to_lowercase X (c_value checksum)\<rparr>))"

definition canonical_meta ::
  "project_externs \<Rightarrow> ('p, 'e) ProjectRead \<Rightarrow> 'p
   \<Rightarrow> (InterchangeProjectMetadataRaw option, 'e CanonicalizationError) result" where
  "canonical_meta X R p =
    and_then (map_err CanonProjectRead (get_meta R p)) (\<lambda>m.
      case m of
        None \<Rightarrow> Ok None
      | Some meta \<Rightarrow>
          (case m_checksum meta of
             None \<Rightarrow> Ok (Some meta)
           | Some cs \<Rightarrow>
               map_ok (\<lambda>cs'. Some (meta\<lparr>m_checksum := Some cs'\<rparr>))
                 (collect_res (canonical_checksum X R p) cs)))"

fun zip_option :: "'a option \<Rightarrow> 'b option \<Rightarrow> ('a \<times> 'b) option" where
  "zip_option (Some a) (Some b) = Some (a, b)"
| "zip_option _ _ = None"

definition checksum_non_canonical_hex ::
  "project_externs \<Rightarrow> ('p, 'e) ProjectRead \<Rightarrow> 'p \<Rightarrow> (string option, 'e) result" where
  "checksum_non_canonical_hex X R p =
    map_ok (\<lambda>(info, meta). map_option
      (\<lambda>(i, m). project_hash_hex (sha256_hex X) (info_json X) (meta_json X) i m) (zip_option info meta))
      (get_project R p)"

definition checksum_canonical_hex ::
  "project_externs \<Rightarrow> ('p, 'e) ProjectRead \<Rightarrow> 'p
   \<Rightarrow> (string option, 'e CanonicalizationError) result" where
  "checksum_canonical_hex X R p =
    and_then (map_err CanonProjectRead (get_info R p)) (\<lambda>info.
    and_then (canonical_meta X R p) (\<lambda>meta.
    Ok (map_option
      (\<lambda>(i, m). project_hash_hex (sha256_hex X) (info_json X) (meta_json X) i m) (zip_option info meta))))"

definition put_project ::
  "('q, 'e) ProjectMut \<Rightarrow> InterchangeProjectInfoRaw \<Rightarrow> InterchangeProjectMetadataRaw \<Rightarrow> bool \<Rightarrow> 'q
   \<Rightarrow> ('q, 'e) result" where
  "put_project W info meta overwrite q =
    and_then (put_info W info overwrite q) (put_meta W meta overwrite)"

section \<open>In-memory projects\<close>

record InMemoryProject =
  im_info :: "InterchangeProjectInfoRaw option"
  im_meta :: "InterchangeProjectMetadataRaw option"
  im_files :: "(string \<times> string) list"
  im_nominal_sources :: "Source list"

datatype InMemoryError =
    AlreadyExists string
  | FileNotFound string
  | IoRead string
  | MissingInfoMeta

definition mem_new :: InMemoryProject where
  "mem_new = \<lparr>im_info = None, im_meta = None, im_files = [], im_nominal_sources = []\<rparr>"

definition mem_from_info_meta ::
  "InterchangeProjectInfoRaw \<Rightarrow> InterchangeProjectMetadataRaw \<Rightarrow> InMemoryProject" where
  "mem_from_info_meta info meta =
    \<lparr>im_info = Some info, im_meta = Some meta, im_files = [], im_nominal_sources = []\<rparr>"

definition mem_put_info ::
  "InterchangeProjectInfoRaw \<Rightarrow> bool \<Rightarrow> InMemoryProject \<Rightarrow> (InMemoryProject, InMemoryError) result" where
  "mem_put_info info overwrite p =
    (if \<not> overwrite \<and> im_info p \<noteq> None
     then Err (AlreadyExists ''project already has an information file'')
     else Ok (p\<lparr>im_info := Some info\<rparr>))"

definition mem_put_meta ::
  "InterchangeProjectMetadataRaw \<Rightarrow> bool \<Rightarrow> InMemoryProject \<Rightarrow> (InMemoryProject, InMemoryError) result" where
  "mem_put_meta meta overwrite p =
    (if \<not> overwrite \<and> im_meta p \<noteq> None
     then Err (AlreadyExists ''project already has a meta manifest'')
     else Ok (p\<lparr>im_meta := Some meta\<rparr>))"

definition read_to_string :: "reader \<Rightarrow> (string, string) result" where
  "read_to_string r =
    and_then r (\<lambda>bytes. if utf8_valid bytes then Ok bytes
      else Err ''stream did not contain valid UTF-8'')"

definition mem_write_source ::
  "string \<Rightarrow> reader \<Rightarrow> bool \<Rightarrow> InMemoryProject \<Rightarrow> (InMemoryProject, InMemoryError) result" where
  "mem_write_source path source overwrite p =
    (if \<not> overwrite \<and> map_of (im_files p) path \<noteq> None
     then Err (AlreadyExists (''`'' @ path @ ''` already exists''))
     else and_then (map_err IoRead (read_to_string source)) (\<lambda>buf.
       Ok (p\<lparr>im_files := AList.update path buf (im_files p)\<rparr>)))"

definition mem_get_project ::
  "InMemoryProject \<Rightarrow> (InterchangeProjectInfoRaw option \<times> InterchangeProjectMetadataRaw option,
     InMemoryError) result" where
  "mem_get_project p = Ok (im_info p, im_meta p)"

definition mem_read_source :: "InMemoryProject \<Rightarrow> string \<Rightarrow> (reader, InMemoryError) result" where
  "mem_read_source p path = map_ok Ok (ok_or (map_of (im_files p) path) (FileNotFound path))"

definition mem_sources :: "InMemoryProject \<Rightarrow> (Source list, InMemoryError) result" where
  "mem_sources p = Ok (im_nominal_sources p)"

definition mem_read :: "(InMemoryProject, InMemoryError) ProjectRead" where
  "mem_read = \<lparr>get_project = mem_get_project, read_source = mem_read_source\<rparr>"

definition mem_mut :: "(InMemoryProject, InMemoryError) ProjectMut" where
  "mem_mut = \<lparr>put_info = mem_put_info, put_meta = mem_put_meta, write_source = mem_write_source\<rparr>"

text \<open>The branch for a failing read is unreachable in the code: reading from memory cannot fail.
  It is the value \<open>None\<close> here, for the panic of \<^verbatim>\<open>unreachable!\<close>.\<close>

definition mem_checksum_canonical_variant ::
  "project_externs \<Rightarrow> InMemoryProject \<Rightarrow> (ProjectChecksum, InMemoryError) result option" where
  "mem_checksum_canonical_variant X p =
    (case checksum_canonical_hex X mem_read p of
       Ok c \<Rightarrow> Some (map_ok ProjectSum (ok_or c MissingInfoMeta))
     | Err (CanonProjectRead e) \<Rightarrow> Some (Err e)
     | Err (CanonFileRead _ _) \<Rightarrow> None)"

section \<open>Copying a project\<close>

datatype ('r, 'w) CloneError =
    CloneProjectRead 'r
  | CloneEnvWrite 'w
  | IncompleteSource string

definition copy_optional_file ::
  "('p, 'r) ProjectRead \<Rightarrow> ('q, 'w) ProjectMut \<Rightarrow> 'p \<Rightarrow> bool \<Rightarrow> 'q \<Rightarrow> string
   \<Rightarrow> ('q, ('r, 'w) CloneError) result" where
  "copy_optional_file R W from overwrite to path =
    (case read_source R from path of
       Ok f \<Rightarrow> map_err CloneEnvWrite (write_source W path f overwrite to)
     | Err e \<Rightarrow> Ok to)"

definition copy_source ::
  "('p, 'r) ProjectRead \<Rightarrow> ('q, 'w) ProjectMut \<Rightarrow> 'p \<Rightarrow> bool \<Rightarrow> 'q \<Rightarrow> string
   \<Rightarrow> ('q, ('r, 'w) CloneError) result" where
  "copy_source R W from overwrite to source_path =
    and_then (map_err CloneProjectRead (read_source R from source_path)) (\<lambda>source.
      map_err CloneEnvWrite (write_source W source_path source overwrite to))"

definition license_files :: "project_externs \<Rightarrow> InterchangeProjectInfoRaw \<Rightarrow> string list" where
  "license_files X info =
    (case i_license info of
       None \<Rightarrow> []
     | Some l \<Rightarrow> (case spdx_stems X l of
         None \<Rightarrow> []
       | Some stems \<Rightarrow> map (\<lambda>stem. ''LICENSES/'' @ stem @ ''.txt'') stems))"

definition clone_project ::
  "project_externs \<Rightarrow> ('p, 'r) ProjectRead \<Rightarrow> ('q, 'w) ProjectMut \<Rightarrow> 'p \<Rightarrow> 'q \<Rightarrow> bool
   \<Rightarrow> ((InterchangeProjectInfoRaw \<times> InterchangeProjectMetadataRaw) \<times> 'q, ('r, 'w) CloneError) result" where
  "clone_project X R W from to overwrite =
    and_then (map_err CloneProjectRead (get_project R from)) (\<lambda>pr.
      case pr of
        (None, None) \<Rightarrow> Err (IncompleteSource ''missing `.project.json` and `.meta.json`'')
      | (None, _) \<Rightarrow> Err (IncompleteSource ''missing `.project.json`'')
      | (_, None) \<Rightarrow> Err (IncompleteSource ''missing `.meta.json`'')
      | (Some info, Some meta) \<Rightarrow>
          and_then (map_err CloneEnvWrite (put_project W info meta overwrite to)) (\<lambda>to1.
          and_then (fold_res (copy_source R W from overwrite) to1
                     (hash_order X (source_paths True meta))) (\<lambda>to2.
          and_then (copy_optional_file R W from overwrite to2 ''README.md'') (\<lambda>to3.
          and_then (fold_res (copy_optional_file R W from overwrite) to3 (license_files X info)) (\<lambda>to4.
          Ok ((info, meta), to4))))))"

definition from_project ::
  "project_externs \<Rightarrow> ('p, 'r) ProjectRead \<Rightarrow> 'p
   \<Rightarrow> (InMemoryProject, ('r, InMemoryError) CloneError) result" where
  "from_project X R from = map_ok snd (clone_project X R mem_mut from mem_new True)"

section \<open>Laws of a writable storage\<close>

text \<open>\<open>agrees S R from to D\<close>: the target has the same readable content as the origin on the
  paths \<open>D\<close>.\<close>

definition agrees ::
  "('p, 'r) ProjectRead \<Rightarrow> ('q, 'e) ProjectRead \<Rightarrow> 'p \<Rightarrow> 'q \<Rightarrow> string set \<Rightarrow> bool" where
  "agrees S R from to D \<longleftrightarrow>
    (\<forall>p \<in> D. \<forall>r. read_source S from p = Ok r \<longrightarrow> read_source R to p = Ok r)"

locale project_store =
  fixes R :: "('q, 'e) ProjectRead"
    and W :: "('q, 'e) ProjectMut"
    and accepts :: "string \<Rightarrow> bool"
  assumes put_info_law: "put_info W i ow q = Ok q' \<Longrightarrow> get_project R q = Ok (a, b) \<Longrightarrow>
      get_project R q' = Ok (Some i, b) \<and> (\<forall>p. read_source R q' p = read_source R q p)"
    and put_meta_law: "put_meta W m ow q = Ok q' \<Longrightarrow> get_project R q = Ok (a, b) \<Longrightarrow>
      get_project R q' = Ok (a, Some m) \<and> (\<forall>p. read_source R q' p = read_source R q p)"
    and write_law: "write_source W p r ow q = Ok q' \<Longrightarrow>
      \<exists>c. r = Ok c \<and> get_project R q' = get_project R q
        \<and> (\<forall>p'. read_source R q' p' = (if p' = p then Ok (Ok c) else read_source R q p'))"
    and get_total: "\<exists>a b. get_project R q = Ok (a, b)"
    and put_info_total: "\<exists>q'. put_info W i True q = Ok q'"
    and put_meta_total: "\<exists>q'. put_meta W m True q = Ok q'"
    and write_total: "accepts c \<Longrightarrow> \<exists>q'. write_source W p (Ok c) True q = Ok q'"
begin

lemma put_project_law:
  assumes "put_project W i m ow q = Ok q'"
  shows "get_project R q' = Ok (Some i, Some m) \<and> (\<forall>p. read_source R q' p = read_source R q p)"
proof -
  obtain a b where ab: "get_project R q = Ok (a, b)" using get_total by blast
  from assms obtain q1 where q1: "put_info W i ow q = Ok q1" "put_meta W m ow q1 = Ok q'"
    by (auto simp: put_project_def)
  show ?thesis using put_info_law [OF q1(1) ab] put_meta_law [OF q1(2)] by auto
qed

lemma put_project_total: "\<exists>q'. put_project W i m True q = Ok q'"
proof -
  obtain q1 where "put_info W i True q = Ok q1" using put_info_total by blast
  moreover obtain q2 where "put_meta W m True q1 = Ok q2" using put_meta_total by blast
  ultimately show ?thesis by (simp add: put_project_def)
qed

lemma copy_source_agrees:
  assumes "copy_source S W from ow to p = Ok to'" and "agrees S R from to D"
  shows "agrees S R from to' (insert p D) \<and> get_project R to' = get_project R to
    \<and> (\<exists>c. read_source S from p = Ok (Ok c))"
proof -
  from assms(1) obtain r where r: "read_source S from p = Ok r" "write_source W p r ow to = Ok to'"
    by (auto simp: copy_source_def)
  from write_law [OF r(2)] obtain c where c: "r = Ok c" "get_project R to' = get_project R to"
      "\<And>p'. read_source R to' p' = (if p' = p then Ok (Ok c) else read_source R to p')"
    by blast
  then show ?thesis using r(1) assms(2) by (simp add: agrees_def)
qed

lemma copy_optional_agrees:
  assumes "copy_optional_file S W from ow to p = Ok to'" and "agrees S R from to D"
  shows "agrees S R from to' (insert p D) \<and> get_project R to' = get_project R to"
proof (cases "read_source S from p")
  case (Ok r)
  then have "copy_source S W from ow to p = Ok to'"
    using assms(1) by (simp add: copy_optional_file_def copy_source_def)
  from copy_source_agrees [OF this assms(2)] show ?thesis by simp
next
  case (Err e)
  then have "to' = to" using assms(1) by (simp add: copy_optional_file_def)
  then show ?thesis using Err assms(2) by (simp add: agrees_def)
qed

lemma copy_sources_agree:
  assumes "fold_res (copy_source S W from ow) to ps = Ok to'" and "agrees S R from to D"
  shows "agrees S R from to' (D \<union> set ps) \<and> get_project R to' = get_project R to
    \<and> (\<forall>p \<in> set ps. \<exists>c. read_source S from p = Ok (Ok c))"
  using assms
proof (induction ps arbitrary: to D)
  case Nil
  then show ?case by simp
next
  case (Cons p ps)
  from Cons.prems obtain to1 where to1: "copy_source S W from ow to p = Ok to1"
      "fold_res (copy_source S W from ow) to1 ps = Ok to'" by auto
  note step = copy_source_agrees [OF to1(1) Cons.prems(2)]
  from Cons.IH [OF to1(2), of "insert p D"] step show ?case by auto
qed

lemma copy_optionals_agree:
  assumes "fold_res (copy_optional_file S W from ow) to ps = Ok to'" and "agrees S R from to D"
  shows "agrees S R from to' (D \<union> set ps) \<and> get_project R to' = get_project R to"
  using assms
proof (induction ps arbitrary: to D)
  case Nil
  then show ?case by simp
next
  case (Cons p ps)
  from Cons.prems obtain to1 where to1: "copy_optional_file S W from ow to p = Ok to1"
      "fold_res (copy_optional_file S W from ow) to1 ps = Ok to'" by auto
  note step = copy_optional_agrees [OF to1(1) Cons.prems(2)]
  from Cons.IH [OF to1(2), of "insert p D"] step show ?case by auto
qed

lemma clone_copies:
  assumes "hash_order_law X"
    and "clone_project X S W from to ow = Ok ((info, meta), to')"
  shows "get_project S from = Ok (Some info, Some meta)
    \<and> get_project R to' = Ok (Some info, Some meta)
    \<and> (\<forall>p \<in> source_paths True meta. \<exists>c. read_source S from p = Ok (Ok c) \<and> read_source R to' p = Ok (Ok c))
    \<and> agrees S R from to' (insert ''README.md'' (set (license_files X info)))"
proof -
  from assms(2) obtain to1 to2 to3 where
      pr: "get_project S from = Ok (Some info, Some meta)"
    and t1: "put_project W info meta ow to = Ok to1"
    and t2: "fold_res (copy_source S W from ow) to1 (hash_order X (source_paths True meta)) = Ok to2"
    and t3: "copy_optional_file S W from ow to2 ''README.md'' = Ok to3"
    and t4: "fold_res (copy_optional_file S W from ow) to3 (license_files X info) = Ok to'"
    by (auto simp: clone_project_def split: option.splits)
  have "finite (source_paths True meta)" by (auto simp: source_paths_def split: option.splits)
  then have ps: "set (hash_order X (source_paths True meta)) = source_paths True meta"
    using assms(1) by (simp add: hash_order_law_def)
  note s1 = put_project_law [OF t1]
  have "agrees S R from to1 {}" by (simp add: agrees_def)
  note s2 = copy_sources_agree [OF t2 this, unfolded ps]
  note s3 = copy_optional_agrees [OF t3 conjunct1 [OF s2]]
  note s4 = copy_optionals_agree [OF t4 conjunct1 [OF s3]]
  have "\<exists>c. read_source S from p = Ok (Ok c) \<and> read_source R to' p = Ok (Ok c)"
    if "p \<in> source_paths True meta" for p
    using that s2 s4 unfolding agrees_def by blast
  moreover have "agrees S R from to' (insert ''README.md'' (set (license_files X info)))"
    using s4 unfolding agrees_def by blast
  ultimately show ?thesis using pr s1 s2 s3 s4 by simp
qed

lemma clone_succeeds:
  assumes "hash_order_law X"
    and pr: "get_project S from = Ok (Some info, Some meta)"
    and src: "\<forall>p \<in> source_paths True meta. \<exists>c. read_source S from p = Ok (Ok c) \<and> accepts c"
    and opt: "\<forall>p \<in> insert ''README.md'' (set (license_files X info)). \<forall>r.
        read_source S from p = Ok r \<longrightarrow> (\<exists>c. r = Ok c \<and> accepts c)"
  shows "\<exists>to'. clone_project X S W from to True = Ok ((info, meta), to')"
proof -
  have "finite (source_paths True meta)" by (auto simp: source_paths_def split: option.splits)
  then have ps: "set (hash_order X (source_paths True meta)) = source_paths True meta"
    using assms(1) by (simp add: hash_order_law_def)
  have one: "\<exists>q'. copy_source S W from True q p = Ok q'" if pin: "p \<in> source_paths True meta" for q p
  proof -
    from src pin obtain c where "read_source S from p = Ok (Ok c)" "accepts c" by blast
    then show ?thesis using write_total [of c p q] by (auto simp: copy_source_def)
  qed
  have two: "\<exists>q'. copy_optional_file S W from True q p = Ok q'"
    if pin: "p \<in> insert ''README.md'' (set (license_files X info))" for q p
  proof (cases "read_source S from p")
    case (Ok r)
    have "\<exists>c. r = Ok c \<and> accepts c" using bspec [OF opt pin] Ok by simp
    then obtain c where "r = Ok c" "accepts c" by blast
    then show ?thesis using Ok write_total [of c p q] by (auto simp: copy_optional_file_def)
  next
    case (Err e)
    then show ?thesis by (simp add: copy_optional_file_def)
  qed
  obtain to1 where t1: "put_project W info meta True to = Ok to1" using put_project_total by blast
  moreover have "\<exists>to2. fold_res (copy_source S W from True) to1
      (hash_order X (source_paths True meta)) = Ok to2"
    by (rule fold_res_total) (simp only: ps one)
  then obtain to2 where
    "fold_res (copy_source S W from True) to1 (hash_order X (source_paths True meta)) = Ok to2" ..
  moreover obtain to3 where "copy_optional_file S W from True to2 ''README.md'' = Ok to3"
    using two [OF insertI1, of to2] by (rule exE)
  moreover have "\<exists>to4. fold_res (copy_optional_file S W from True) to3 (license_files X info) = Ok to4"
    by (rule fold_res_total) (rule two [OF insertI2])
  then obtain to4 where
    "fold_res (copy_optional_file S W from True) to3 (license_files X info) = Ok to4" ..
  ultimately show ?thesis using pr by (simp add: clone_project_def)
qed

end

interpretation mem: project_store mem_read mem_mut utf8_valid
  by unfold_locales
    (auto simp: mem_read_def mem_mut_def mem_get_project_def mem_read_source_def mem_put_info_def
      mem_put_meta_def mem_write_source_def read_to_string_def update_conv' split: if_splits)

section \<open>Properties\<close>

definition sample_project_externs :: project_externs where
  "sample_project_externs = \<lparr>
     sha256_hex = (\<lambda>s. ''h:'' @ s),
     info_json = (\<lambda>i. i_name i),
     meta_json = (\<lambda>m. m_created m),
     to_lowercase = to_ascii_lowercase,
     hash_order = sorted_list_of_set,
     spdx_stems = (\<lambda>l. Some [l])\<rparr>"

lemma sample_hash_order [simp]: "hash_order_law sample_project_externs"
  by (simp add: hash_order_law_def sample_project_externs_def)

definition sample_mem :: InMemoryProject where
  "sample_mem = (mem_from_info_meta (sample_raw_info\<lparr>i_license := Some ''MIT''\<rparr>) sample_raw_meta)
     \<lparr>im_files := [(''src/a.sysml'', ''package A;''), (''LICENSES/MIT.txt'', ''MIT'')]\<rparr>"

text \<open>C38: copying a project into memory gives the same information, metadata, and contents of every
  source file listed in the metadata, each of which was readable in the origin.\<close>

theorem from_project_faithful:
  assumes "hash_order_law X" and "from_project X S from = Ok to"
  shows "\<exists>info meta. get_project S from = Ok (Some info, Some meta)
    \<and> im_info to = Some info \<and> im_meta to = Some meta
    \<and> (\<forall>p \<in> source_paths True meta. \<exists>c. read_source S from p = Ok (Ok c)
        \<and> map_of (im_files to) p = Some c)"
proof -
  from assms(2) obtain info meta where
    "clone_project X S mem_mut from mem_new True = Ok ((info, meta), to)"
    by (auto simp: from_project_def)
  from mem.clone_copies [OF assms(1) this] show ?thesis
    by (auto simp: mem_read_def mem_get_project_def mem_read_source_def)
qed

theorem from_project_faithful_witness:
  "\<exists>to. from_project sample_project_externs mem_read sample_mem = Ok to
    \<and> im_info to = im_info sample_mem \<and> map_of (im_files to) ''src/a.sysml'' = Some ''package A;''"
proof -
  have "is_ok (from_project sample_project_externs mem_read sample_mem)" by code_simp
  then obtain to where to: "from_project sample_project_externs mem_read sample_mem = Ok to"
    by (auto simp: is_ok_iff)
  from from_project_faithful [OF sample_hash_order to] to show ?thesis
    by (auto simp: mem_read_def mem_get_project_def mem_read_source_def sample_mem_def
        mem_from_info_meta_def source_paths_def sample_raw_meta_def)
qed

text \<open>copying into memory succeeds whenever the origin has information and metadata, every listed
  source file is readable UTF-8, and the README and license files are UTF-8 where they are
  readable at all.\<close>

theorem from_project_succeeds:
  assumes "hash_order_law X" and "get_project S from = Ok (Some info, Some meta)"
    and "\<forall>p \<in> source_paths True meta. \<exists>c. read_source S from p = Ok (Ok c) \<and> utf8_valid c"
    and "\<forall>p \<in> insert ''README.md'' (set (license_files X info)). \<forall>r.
        read_source S from p = Ok r \<longrightarrow> (\<exists>c. r = Ok c \<and> utf8_valid c)"
  shows "\<exists>to. from_project X S from = Ok to"
  using mem.clone_succeeds [OF assms, of mem_new] by (auto simp: from_project_def)

theorem from_project_succeeds_witness:
  "\<exists>to. from_project sample_project_externs mem_read sample_mem = Ok to"
proof -
  have a: "get_project mem_read sample_mem = Ok (Some (sample_raw_info\<lparr>i_license := Some ''MIT''\<rparr>), Some sample_raw_meta)"
    by (simp add: mem_read_def mem_get_project_def sample_mem_def mem_from_info_meta_def)
  have u: "utf8_valid ''package A;''" "utf8_valid ''MIT''" by code_simp+
  then have b: "\<forall>p \<in> source_paths True sample_raw_meta. \<exists>c. read_source mem_read sample_mem p = Ok (Ok c)
      \<and> utf8_valid c"
    by (simp add: source_paths_def sample_raw_meta_def mem_read_def mem_read_source_def sample_mem_def)
  have c: "\<exists>c. r = Ok c \<and> utf8_valid c" if "read_source mem_read sample_mem p = Ok r" for p r
    using that u
    by (auto simp: mem_read_def mem_read_source_def sample_mem_def split: if_splits)
  show ?thesis
    by (rule from_project_succeeds [OF sample_hash_order a b]) (intro ballI allI impI c)
qed

text \<open>canonical metadata records SHA-256 for every file, in the same order and for the same
  paths as the original: the hash of the file's contents where another algorithm was
  recorded, the lower-cased recorded value otherwise; nothing else changes.\<close>

theorem canonical_meta_spec:
  assumes "canonical_meta X R p = Ok (Some m')"
  shows "\<exists>m. get_meta R p = Ok (Some m) \<and> m' = m\<lparr>m_checksum := m_checksum m'\<rparr>
    \<and> map_option keys (m_checksum m') = map_option keys (m_checksum m)
    \<and> (\<forall>cs cs'. m_checksum m = Some cs \<longrightarrow> m_checksum m' = Some cs' \<longrightarrow>
        list_all2 (\<lambda>(path, c) (path', c'). c_algorithm c' = ''SHA256'' \<and>
          (if c_algorithm c = ''SHA256'' then c_value c' = to_lowercase X (c_value c)
           else \<exists>bytes. read_source R p path = Ok (Ok bytes) \<and> c_value c' = sha256_hex X bytes))
          cs cs')"
proof -
  from assms obtain m where m: "get_meta R p = Ok (Some m)"
    by (auto simp: canonical_meta_def split: option.splits)
  have step: "c_algorithm c' = ''SHA256'' \<and> path' = path \<and>
      (if c_algorithm c = ''SHA256'' then c_value c' = to_lowercase X (c_value c)
       else \<exists>bytes. read_source R p path = Ok (Ok bytes) \<and> c_value c' = sha256_hex X bytes)"
    if "canonical_checksum X R p (path, c) = Ok (path', c')" for path c path' c'
    using that by (auto simp: canonical_checksum_def hash_reader_def split: if_splits)
  show ?thesis
  proof (cases "m_checksum m")
    case None
    then show ?thesis using m assms by (auto simp: canonical_meta_def)
  next
    case (Some cs)
    then obtain cs' where cs': "m' = m\<lparr>m_checksum := Some cs'\<rparr>"
        "collect_res (canonical_checksum X R p) cs = Ok cs'"
      using m assms by (auto simp: canonical_meta_def)
    then have l: "list_all2 (\<lambda>x y. canonical_checksum X R p x = Ok y) cs cs'"
      by (simp add: collect_res_Ok)
    then have "list_all2 (\<lambda>x y. fst x = fst y) cs cs'"
      by (rule list_all2_mono) (use step in fastforce)
    then have "keys cs' = keys cs"
      by (induction rule: list_all2_induct) auto
    moreover have "list_all2 (\<lambda>(path, c) (path', c'). c_algorithm c' = ''SHA256'' \<and>
        (if c_algorithm c = ''SHA256'' then c_value c' = to_lowercase X (c_value c)
         else \<exists>bytes. read_source R p path = Ok (Ok bytes) \<and> c_value c' = sha256_hex X bytes)) cs cs'"
      using l by (rule list_all2_mono) (use step in fastforce)
    ultimately show ?thesis using m Some cs' by (intro exI [of _ m]) simp
  qed
qed

definition sample_canonical_meta :: InterchangeProjectMetadataRaw where
  "sample_canonical_meta = sample_raw_meta\<lparr>m_checksum :=
     Some [(''src/a.sysml'', \<lparr>c_value = ''h:package A;'', c_algorithm = ''SHA256''\<rparr>)]\<rparr>"

theorem canonical_meta_spec_witness:
  "map_option keys (m_checksum sample_canonical_meta) = Some [''src/a.sysml'']"
proof -
  have "canonical_meta sample_project_externs mem_read sample_mem = Ok (Some sample_canonical_meta)"
    by code_simp
  from canonical_meta_spec [OF this] show ?thesis
    by (simp add: sample_canonical_meta_def)
qed

text \<open>the checksum of an in-memory project never reaches the branch marked unreachable.\<close>

theorem mem_checksum_no_panic: "mem_checksum_canonical_variant X p \<noteq> None"
proof -
  have step: "canonical_checksum X mem_read p x \<noteq> Err (CanonFileRead a b)" for x a b
    by (cases x) (auto simp: canonical_checksum_def mem_read_def mem_read_source_def hash_reader_def
        and_then_eq_Err split: if_splits)
  have "collect_res (canonical_checksum X mem_read p) cs \<noteq> Err (CanonFileRead a b)" for cs a b
    using step by (induction cs) (auto simp: and_then_eq_Err)
  then have "checksum_canonical_hex X mem_read p \<noteq> Err (CanonFileRead a b)" for a b
    by (auto simp: checksum_canonical_hex_def canonical_meta_def get_info_def get_meta_def mem_read_def
        mem_get_project_def and_then_eq_Err split: option.splits)
  then show ?thesis
    by (auto simp: mem_checksum_canonical_variant_def split: result.splits CanonicalizationError.splits)
qed

end
