(* ===== verification/Env.thy ===== *)
theory Env
  imports Project
begin

text \<open>
  Environments of installed projects: the traits \<^verbatim>\<open>ReadEnvironment\<close> and
  \<^verbatim>\<open>WriteEnvironment\<close> (\<^verbatim>\<open>core/src/env/mod.rs\<close>), the in-memory environment
  (\<^verbatim>\<open>core/src/env/memory.rs\<close>), the null environment
  (\<^verbatim>\<open>core/src/env/null.rs\<close>) and the commands that install, list and uninstall projects
  (\<^verbatim>\<open>core/src/commands/env\<close>). A \<^verbatim>\<open>HashMap\<close> is an association list with distinct keys;
  the list order stands for its iteration order.

  The locale \<open>environment\<close> states what the commands rely on: an environment is a finite map
  from pairs of URI and version to projects. The commands are proved correct against it, and the
  in-memory environment interprets it.
\<close>

section \<open>Traits\<close>

record ('s, 'p, 'e) ReadEnvironment =
  env_uris :: "'s \<Rightarrow> ((string, 'e) result list, 'e) result"
  env_versions :: "'s \<Rightarrow> string \<Rightarrow> ((string, 'e) result list, 'e) result"
  env_get_project :: "'s \<Rightarrow> string \<Rightarrow> string \<Rightarrow> ('p, 'e) result"

datatype ('w, 'c) PutProjectError = PutWrite 'w | PutCallback 'c | PutIriParse string string

record ('s, 'q, 'w, 'c) WriteEnvironment =
  env_put_project :: "string \<Rightarrow> string \<Rightarrow> ProjectChecksum option \<Rightarrow> ('q \<Rightarrow> ('q, 'c) result) \<Rightarrow> 's
    \<Rightarrow> ('q \<times> 's, ('w, 'c) PutProjectError) result"
  env_del_project_version :: "string \<Rightarrow> string \<Rightarrow> 's \<Rightarrow> ('s, 'w) result"
  env_del_uri :: "string \<Rightarrow> 's \<Rightarrow> ('s, 'w) result"

fun filter_ok :: "('a, 'e) result list \<Rightarrow> 'a list" where
  "filter_ok [] = []"
| "filter_ok (Ok a # rs) = a # filter_ok rs"
| "filter_ok (Err e # rs) = filter_ok rs"

definition env_has :: "('s, 'p, 'e) ReadEnvironment \<Rightarrow> 's \<Rightarrow> string \<Rightarrow> (bool, 'e) result" where
  "env_has E s uri = map_ok (\<lambda>us. list_ex (\<lambda>u. u = uri) (filter_ok us)) (env_uris E s)"

definition env_has_version ::
  "('s, 'p, 'e) ReadEnvironment \<Rightarrow> 's \<Rightarrow> string \<Rightarrow> string \<Rightarrow> (bool, 'e) result" where
  "env_has_version E s uri version =
    map_ok (\<lambda>vs. list_ex (\<lambda>v. v = version) (filter_ok vs)) (env_versions E s uri)"

definition candidate_projects ::
  "('s, 'p, 'e) ReadEnvironment \<Rightarrow> 's \<Rightarrow> string \<Rightarrow> ('p list, 'e) result" where
  "candidate_projects E s uri =
    and_then (env_versions E s uri) (\<lambda>vs.
    and_then (collect_res (\<lambda>v. v) vs) (\<lambda>versions.
    collect_res (env_get_project E s uri) versions))"

datatype ProjectChecksumResult =
    VersionNotFound | ChecksumNotPresent | DifferentChecksumKinds | Mismatch | Match

section \<open>The in-memory environment\<close>

record 'p MemoryStorageEnvironment =
  ms_projects :: "(string \<times> (string \<times> 'p) list) list"

definition ms_default :: "'p MemoryStorageEnvironment" where
  "ms_default = \<lparr>ms_projects = []\<rparr>"

text \<open>\<^verbatim>\<open>map.entry(iri).or_default().insert(version, project)\<close>\<close>

definition entry_insert ::
  "string \<Rightarrow> string \<Rightarrow> 'p \<Rightarrow> (string \<times> (string \<times> 'p) list) list \<Rightarrow> (string \<times> (string \<times> 'p) list) list" where
  "entry_insert iri version p m =
    AList.update iri (AList.update version p (case map_of m iri of Some vs \<Rightarrow> vs | None \<Rightarrow> [])) m"

datatype 'e TryFromError = TryRead 'e | TryMissingVersion string

definition ms_try_from_iter ::
  "('p, 'e) ProjectRead \<Rightarrow> (string \<times> 'p) list \<Rightarrow> ('p MemoryStorageEnvironment, 'e TryFromError) result" where
  "ms_try_from_iter R items =
    map_ok (\<lambda>m. \<lparr>ms_projects = m\<rparr>)
      (fold_res (\<lambda>m (iri, p).
         and_then (map_err TryRead (project_version R p)) (\<lambda>v.
           case v of
             Some version \<Rightarrow> Ok (entry_insert iri version p m)
           | None \<Rightarrow> Err (TryMissingVersion iri))) [] items)"

definition ms_from_iter :: "(string \<times> string \<times> 'p) list \<Rightarrow> 'p MemoryStorageEnvironment" where
  "ms_from_iter items =
    \<lparr>ms_projects = fold (\<lambda>(iri, version, p) m. entry_insert iri version p m) items []\<rparr>"

datatype MemoryReadError =
    MsMissingProject string
  | MsMissingVersion string string
  | MsChecksum string InMemoryError

definition ms_uris ::
  "'p MemoryStorageEnvironment \<Rightarrow> ((string, MemoryReadError) result list, MemoryReadError) result" where
  "ms_uris env = Ok (map Ok (keys (ms_projects env)))"

definition ms_versions ::
  "'p MemoryStorageEnvironment \<Rightarrow> string
   \<Rightarrow> ((string, MemoryReadError) result list, MemoryReadError) result" where
  "ms_versions env uri =
    map_ok (\<lambda>vs. map Ok (keys vs)) (ok_or (map_of (ms_projects env) uri) (MsMissingProject uri))"

definition ms_get_project ::
  "'p MemoryStorageEnvironment \<Rightarrow> string \<Rightarrow> string \<Rightarrow> ('p, MemoryReadError) result" where
  "ms_get_project env uri version =
    and_then (ok_or (map_of (ms_projects env) uri) (MsMissingProject uri)) (\<lambda>vs.
      ok_or (map_of vs version) (MsMissingVersion uri version))"

fun compare_checksums :: "ProjectChecksum \<Rightarrow> ProjectChecksum \<Rightarrow> ProjectChecksumResult" where
  "compare_checksums (ProjectSum c1) (ProjectSum c2) = (if c1 = c2 then Match else Mismatch)"
| "compare_checksums (KparSum c1) (KparSum c2) = (if c1 = c2 then Match else Mismatch)"
| "compare_checksums (ProjectSum _) (KparSum _) = DifferentChecksumKinds"
| "compare_checksums (KparSum _) (ProjectSum _) = DifferentChecksumKinds"

definition ms_has_version_verified ::
  "('p \<Rightarrow> (ProjectChecksum, InMemoryError) result) \<Rightarrow> 'p MemoryStorageEnvironment
   \<Rightarrow> string \<Rightarrow> string \<Rightarrow> ProjectChecksum \<Rightarrow> (ProjectChecksumResult, MemoryReadError) result" where
  "ms_has_version_verified checksum_canonical_variant env uri version checksum =
    (case map_of (ms_projects env) uri of
       None \<Rightarrow> Ok VersionNotFound
     | Some versions \<Rightarrow>
         (case map_of versions version of
            Some p \<Rightarrow> and_then (map_err (MsChecksum uri) (checksum_canonical_variant p)) (\<lambda>pc.
              Ok (compare_checksums checksum pc))
          | None \<Rightarrow> Ok VersionNotFound))"

definition ms_put_project ::
  "'q \<Rightarrow> string \<Rightarrow> string \<Rightarrow> ProjectChecksum option \<Rightarrow> ('q \<Rightarrow> ('q, 'c) result)
   \<Rightarrow> 'q MemoryStorageEnvironment \<Rightarrow> ('q \<times> 'q MemoryStorageEnvironment, ('w, 'c) PutProjectError) result" where
  "ms_put_project dflt uri version checksum write_project env =
    and_then (map_err PutCallback (write_project dflt)) (\<lambda>tentative.
      Ok (tentative, env\<lparr>ms_projects := entry_insert uri version tentative (ms_projects env)\<rparr>))"

definition ms_del_project_version ::
  "string \<Rightarrow> string \<Rightarrow> 'q MemoryStorageEnvironment \<Rightarrow> ('q MemoryStorageEnvironment, 'w) result" where
  "ms_del_project_version uri version env =
    (case map_of (ms_projects env) uri of
       Some vs \<Rightarrow>
         (let vs' = AList.delete version vs in
          if vs' = [] then Ok (env\<lparr>ms_projects := AList.delete uri (ms_projects env)\<rparr>)
          else Ok (env\<lparr>ms_projects := AList.update uri vs' (ms_projects env)\<rparr>))
     | None \<Rightarrow> Ok env)"

definition ms_del_uri ::
  "string \<Rightarrow> 'q MemoryStorageEnvironment \<Rightarrow> ('q MemoryStorageEnvironment, 'w) result" where
  "ms_del_uri uri env = Ok (env\<lparr>ms_projects := AList.delete uri (ms_projects env)\<rparr>)"

definition ms_read :: "('p MemoryStorageEnvironment, 'p, MemoryReadError) ReadEnvironment" where
  "ms_read = \<lparr>env_uris = ms_uris, env_versions = ms_versions, env_get_project = ms_get_project\<rparr>"

definition ms_write :: "'q \<Rightarrow> ('q MemoryStorageEnvironment, 'q, 'w, 'c) WriteEnvironment" where
  "ms_write dflt = \<lparr>env_put_project = ms_put_project dflt,
     env_del_project_version = ms_del_project_version, env_del_uri = ms_del_uri\<rparr>"

section \<open>The null environment\<close>

datatype EmptyEnvironmentError = NullEnvironmentIsEmpty

definition null_env :: "(unit, 'p, EmptyEnvironmentError) ReadEnvironment" where
  "null_env = \<lparr>env_uris = (\<lambda>_. Ok []), env_versions = (\<lambda>_ _. Ok []),
     env_get_project = (\<lambda>_ _ _. Err NullEnvironmentIsEmpty)\<rparr>"

section \<open>Commands on environments\<close>

datatype 'e CheckInstallError =
    CheckAlreadyInstalled string
  | CheckAlreadyInstalledVersion string string
  | CheckAlreadyInstalledUnknownVersion string
  | CheckEnvRead 'e

definition check_install ::
  "('s, 'p, 'e) ReadEnvironment \<Rightarrow> string \<Rightarrow> string \<Rightarrow> 's \<Rightarrow> bool \<Rightarrow> bool
   \<Rightarrow> (unit, 'e CheckInstallError) result" where
  "check_install E uri version env allow_overwrite allow_multiple =
    (if allow_overwrite \<and> allow_multiple then Ok ()
     else and_then (map_err CheckEnvRead (env_has E env uri)) (\<lambda>project_present.
       if \<not> allow_overwrite \<and> \<not> allow_multiple then
         (if project_present then Err (CheckAlreadyInstalled uri) else Ok ())
       else if project_present then
         and_then (map_err CheckEnvRead (env_has_version E env uri version)) (\<lambda>version_present.
           if \<not> allow_overwrite \<and> version_present
           then Err (CheckAlreadyInstalledVersion uri version)
           else if \<not> allow_multiple \<and> \<not> version_present
           then Err (CheckAlreadyInstalledUnknownVersion uri)
           else Ok ())
       else Ok ()))"

datatype ('e, 'i) EnvInstallError =
    InstAlreadyInstalled string
  | InstAlreadyInstalledVersion string string
  | InstAlreadyInstalledUnknownVersion string
  | InstEnvRead 'e
  | Installation 'i

fun env_install_error_from :: "'e CheckInstallError \<Rightarrow> ('e, 'i) EnvInstallError" where
  "env_install_error_from (CheckAlreadyInstalled s) = InstAlreadyInstalled s"
| "env_install_error_from (CheckEnvRead e) = InstEnvRead e"
| "env_install_error_from (CheckAlreadyInstalledVersion iri v) = InstAlreadyInstalledVersion iri v"
| "env_install_error_from (CheckAlreadyInstalledUnknownVersion iri) = InstAlreadyInstalledUnknownVersion iri"

definition do_env_install_project ::
  "project_externs \<Rightarrow> ('s, 'p, 'e) ReadEnvironment \<Rightarrow> ('s, 'q, 'w, ('r, 'u) CloneError) WriteEnvironment
   \<Rightarrow> ('o, 'r) ProjectRead \<Rightarrow> ('q, 'u) ProjectMut \<Rightarrow> string \<Rightarrow> string \<Rightarrow> 'o
   \<Rightarrow> ProjectChecksum option \<Rightarrow> 's \<Rightarrow> bool \<Rightarrow> bool
   \<Rightarrow> ('s, ('e, ('w, ('r, 'u) CloneError) PutProjectError) EnvInstallError) result" where
  "do_env_install_project X E V S W uri version storage checksum env allow_overwrite allow_multiple =
    and_then (map_err env_install_error_from
        (check_install E uri version env allow_overwrite allow_multiple)) (\<lambda>_.
    and_then (map_err Installation
        (env_put_project V uri version checksum
          (\<lambda>p. map_ok snd (clone_project X S W storage p True)) env)) (\<lambda>(_, env').
    Ok env'))"

definition do_env_list ::
  "('s, 'p, 'e) ReadEnvironment \<Rightarrow> 's \<Rightarrow> ((string \<times> string option) list, 'e) result" where
  "do_env_list E env =
    and_then (env_uris E env) (\<lambda>us.
    map_ok concat (collect_res (\<lambda>uri.
      map_ok (\<lambda>vs. let versions = filter_ok vs in
          if versions = [] then [(uri, None)] else map (\<lambda>v. (uri, Some v)) versions)
        (env_versions E env uri)) (filter_ok us)))"

definition do_env_uninstall ::
  "('s, 'q, 'w, 'c) WriteEnvironment \<Rightarrow> string \<Rightarrow> string option \<Rightarrow> 's \<Rightarrow> ('s, 'w) result" where
  "do_env_uninstall V uri version env =
    (case version of
       Some v \<Rightarrow> env_del_project_version V uri v env
     | None \<Rightarrow> env_del_uri V uri env)"

section \<open>Environments as maps\<close>

lemma filter_ok_map_Ok [simp]: "filter_ok (map Ok xs) = xs"
  by (induction xs) auto

lemma collect_res_id_map_Ok [simp]: "collect_res (\<lambda>v. v) (map Ok xs) = Ok xs"
  by (induction xs) auto

lemma collect_res_concat:
  "(\<And>x. x \<in> set xs \<Longrightarrow> \<exists>l. f x = Ok l \<and> set l = G x) \<Longrightarrow>
    \<exists>ls. collect_res f xs = Ok ls \<and> set (concat ls) = (\<Union>x \<in> set xs. G x)"
proof (induction xs)
  case Nil
  show ?case by simp
next
  case (Cons x xs)
  obtain l where l: "f x = Ok l" "set l = G x" using Cons.prems [of x] by auto
  obtain ls where ls: "collect_res f xs = Ok ls" "set (concat ls) = (\<Union>x \<in> set xs. G x)"
    using Cons.IH Cons.prems by auto
  have "collect_res f (x # xs) = Ok (l # ls)" using l(1) ls(1) by simp
  moreover have "set (concat (l # ls)) = (\<Union>x \<in> set (x # xs). G x)" using l(2) ls(2) by simp
  ultimately show ?case by blast
qed

locale environment =
  fixes E :: "('s, 'p, 'e) ReadEnvironment"
    and V :: "('s, 'p, 'w, 'c) WriteEnvironment"
    and installed :: "'s \<Rightarrow> string \<times> string \<Rightarrow> 'p option"
    and invar :: "'s \<Rightarrow> bool"
    and fresh :: 'p
  assumes uris_law: "invar s \<Longrightarrow> \<exists>us. env_uris E s = Ok (map Ok us)
      \<and> set us = {u. \<exists>v. installed s (u, v) \<noteq> None}"
    and versions_law: "invar s \<Longrightarrow> installed s (u, v) \<noteq> None \<Longrightarrow>
      \<exists>vs. env_versions E s u = Ok (map Ok vs) \<and> set vs = {v. installed s (u, v) \<noteq> None}"
    and get_law: "invar s \<Longrightarrow> env_get_project E s u v = Ok p \<longleftrightarrow> installed s (u, v) = Some p"
    and put_law: "invar s \<Longrightarrow> env_put_project V u v c f s = Ok (q, s') \<Longrightarrow>
      f fresh = Ok q \<and> invar s' \<and> installed s' = (installed s)((u, v) \<mapsto> q)"
    and put_total: "invar s \<Longrightarrow> f fresh = Ok q \<Longrightarrow> \<exists>s'. env_put_project V u v c f s = Ok (q, s')"
    and del_version_law: "invar s \<Longrightarrow> \<exists>s'. env_del_project_version V u v s = Ok s' \<and> invar s'
      \<and> installed s' = (installed s)((u, v) := None)"
    and del_uri_law: "invar s \<Longrightarrow> \<exists>s'. env_del_uri V u s = Ok s' \<and> invar s'
      \<and> installed s' = (\<lambda>(u', v). if u' = u then None else installed s (u', v))"
begin

lemma has_law: "invar s \<Longrightarrow> env_has E s u = Ok (\<exists>v. installed s (u, v) \<noteq> None)"
  using uris_law [of s] by (fastforce simp: env_has_def list_ex_iff)

lemma has_version_law:
  assumes "invar s" and "installed s (u, v') \<noteq> None"
  shows "env_has_version E s u v = Ok (installed s (u, v) \<noteq> None)"
  using versions_law [OF assms] by (fastforce simp: env_has_version_def list_ex_iff)

lemma check_install_spec:
  assumes "invar s"
  shows "check_install E u v s ow multi = Ok () \<longleftrightarrow>
    ow \<and> multi \<or> (\<forall>v'. installed s (u, v') = None)
    \<or> (if ow then installed s (u, v) \<noteq> None else multi \<and> installed s (u, v) = None)"
proof (cases "\<exists>v'. installed s (u, v') \<noteq> None")
  case True
  then obtain v' where v': "installed s (u, v') \<noteq> None" by blast
  show ?thesis
    using True v' unfolding check_install_def has_law [OF assms] has_version_law [OF assms v', of v]
    by (cases ow; cases multi) auto
next
  case False
  then show ?thesis
    unfolding check_install_def has_law [OF assms] by (cases ow; cases multi) auto
qed

lemma uninstall_spec:
  assumes "invar s"
  shows "\<exists>s'. do_env_uninstall V u ver s = Ok s' \<and> invar s'
    \<and> (\<forall>u' v'. installed s' (u', v') =
        (if u' = u \<and> (ver = None \<or> ver = Some v') then None else installed s (u', v')))"
proof (cases ver)
  case None
  then show ?thesis using del_uri_law [OF assms, of u] by (auto simp: do_env_uninstall_def)
next
  case (Some v)
  then show ?thesis using del_version_law [OF assms, of u v] by (auto simp: do_env_uninstall_def)
qed

lemma list_spec:
  assumes "invar s"
  shows "\<exists>l. do_env_list E s = Ok l
    \<and> set l = {(u, Some v) |u v. installed s (u, v) \<noteq> None}"
proof -
  obtain us where us: "env_uris E s = Ok (map Ok us)"
      "set us = {u. \<exists>v. installed s (u, v) \<noteq> None}" using uris_law [OF assms] by blast
  define f where "f = (\<lambda>uri. map_ok (\<lambda>vs. let versions = filter_ok vs in
      if versions = [] then [(uri, None)] else map (\<lambda>v. (uri, Some v)) versions) (env_versions E s uri))"
  define G where "G = (\<lambda>u. (\<lambda>v. (u, Some v)) ` {v. installed s (u, v) \<noteq> None})"
  have "\<exists>l. f u = Ok l \<and> set l = G u" if "u \<in> set us" for u
  proof -
    from that us(2) obtain v where v: "installed s (u, v) \<noteq> None" by blast
    from versions_law [OF assms v] obtain vs where vs:
      "env_versions E s u = Ok (map Ok vs)" "set vs = {v. installed s (u, v) \<noteq> None}" by blast
    have "vs \<noteq> []" using v vs(2) by auto
    then have "f u = Ok (map (\<lambda>v. (u, Some v)) vs)" using vs(1) by (simp add: f_def)
    then show ?thesis by (simp add: G_def vs(2))
  qed
  then obtain ls where ls: "collect_res f us = Ok ls" "set (concat ls) = (\<Union>u \<in> set us. G u)"
    using collect_res_concat [of us f G] by blast
  have "do_env_list E s = Ok (concat ls)"
    unfolding do_env_list_def f_def [symmetric] using us(1) ls(1) by simp
  moreover have "set (concat ls) = {(u, Some v) |u v. installed s (u, v) \<noteq> None}"
    unfolding ls(2) us(2) G_def by blast
  ultimately show ?thesis by blast
qed

end

text \<open>Installing a project into an environment of writable storages.\<close>

locale installable =
  project_store R W accepts +
  environment E V installed invar fresh
  for R :: "('p, 'u) ProjectRead" and W :: "('p, 'u) ProjectMut" and accepts :: "string \<Rightarrow> bool"
    and E :: "('s, 'p, 'e) ReadEnvironment"
    and V :: "('s, 'p, 'w, ('r, 'u) CloneError) WriteEnvironment"
    and installed :: "'s \<Rightarrow> string \<times> string \<Rightarrow> 'p option"
    and invar :: "'s \<Rightarrow> bool" and fresh :: 'p
begin

lemma install_spec:
  assumes "invar s" and "hash_order_law X"
    and "do_env_install_project X E V S W u v storage c s ow multi = Ok s'"
  shows "invar s' \<and> (ow \<or> installed s (u, v) = None)
    \<and> (\<exists>q info meta. installed s' = (installed s)((u, v) \<mapsto> q)
        \<and> get_project S storage = Ok (Some info, Some meta)
        \<and> get_project R q = Ok (Some info, Some meta)
        \<and> (\<forall>p \<in> source_paths True meta. \<exists>b. read_source S storage p = Ok (Ok b)
            \<and> read_source R q p = Ok (Ok b)))"
proof -
  from assms(3) obtain q where chk: "check_install E u v s ow multi = Ok ()"
    and put: "env_put_project V u v c (\<lambda>p. map_ok snd (clone_project X S W storage p True)) s = Ok (q, s')"
    by (auto simp: do_env_install_project_def)
  note p = put_law [OF assms(1) put]
  then obtain info meta where "clone_project X S W storage fresh True = Ok ((info, meta), q)"
    by auto
  note cc = clone_copies [OF assms(2) this]
  have "ow \<or> installed s (u, v) = None"
    using check_install_spec [OF assms(1), of u v ow multi] chk by (auto split: if_splits)
  then show ?thesis
    using p cc by (intro conjI exI [of _ q] exI [of _ info] exI [of _ meta]) simp_all
qed

end

section \<open>The in-memory environment is an environment\<close>

definition ms_installed :: "'p MemoryStorageEnvironment \<Rightarrow> string \<times> string \<Rightarrow> 'p option" where
  "ms_installed env = (\<lambda>(u, v). case map_of (ms_projects env) u of Some vs \<Rightarrow> map_of vs v | None \<Rightarrow> None)"

definition versions_ok :: "(string \<times> 'p) list \<Rightarrow> bool" where
  "versions_ok vs \<longleftrightarrow> vs \<noteq> [] \<and> distinct (keys vs)"

definition ms_invar :: "'p MemoryStorageEnvironment \<Rightarrow> bool" where
  "ms_invar env \<longleftrightarrow> distinct (keys (ms_projects env))
     \<and> (\<forall>u vs. map_of (ms_projects env) u = Some vs \<longrightarrow> versions_ok vs)"

lemma update_not_Nil [simp]: "AList.update k v al \<noteq> []"
  by (cases al) auto

lemma entry_insert_invar:
  assumes "ms_invar \<lparr>ms_projects = m\<rparr>"
  shows "ms_invar \<lparr>ms_projects = entry_insert u v p m\<rparr>"
  using assms
  by (auto simp: ms_invar_def entry_insert_def versions_ok_def distinct_update update_conv'
      split: if_splits option.splits)

lemma entry_insert_installed:
  "ms_installed \<lparr>ms_projects = entry_insert u v p m\<rparr> = (ms_installed \<lparr>ms_projects = m\<rparr>)((u, v) \<mapsto> p)"
  by (auto simp: ms_installed_def entry_insert_def update_conv' fun_eq_iff split: option.splits)

lemma ms_installed_uris:
  assumes "ms_invar env"
  shows "set (keys (ms_projects env)) = {u. \<exists>v. ms_installed env (u, v) \<noteq> None}"
proof -
  have "(\<exists>v. ms_installed env (u, v) \<noteq> None) \<longleftrightarrow> map_of (ms_projects env) u \<noteq> None" for u
  proof (cases "map_of (ms_projects env) u")
    case None
    then show ?thesis by (simp add: ms_installed_def)
  next
    case (Some vs)
    then have "vs \<noteq> []" using assms by (auto simp: ms_invar_def versions_ok_def)
    then obtain v p ws where "vs = (v, p) # ws" by (metis list.exhaust surj_pair)
    then have "ms_installed env (u, v) \<noteq> None" using Some by (simp add: ms_installed_def)
    then show ?thesis using Some by auto
  qed
  then show ?thesis by (auto simp: map_of_eq_None_iff)
qed

lemma ms_del_version_ok:
  assumes "ms_invar env"
  shows "\<exists>env'. ms_del_project_version u v env = Ok env' \<and> ms_invar env'
    \<and> ms_installed env' = (ms_installed env)((u, v) := None)"
proof (cases "map_of (ms_projects env) u")
  case None
  then show ?thesis using assms
    by (auto simp: ms_del_project_version_def ms_installed_def fun_eq_iff)
next
  case (Some vs)
  then have vs: "versions_ok vs" using assms by (auto simp: ms_invar_def)
  show ?thesis
  proof (cases "AList.delete v vs = []")
    case True
    then have only: "map_of vs w = None" if "w \<noteq> v" for w
      using map_of_delete_other [OF that, of vs] by simp
    then show ?thesis using True Some assms
      by (auto simp: ms_del_project_version_def Let_def ms_invar_def ms_installed_def fun_eq_iff
          distinct_delete AList.delete_conv' split: if_splits option.splits)
  next
    case False
    have "versions_ok (AList.delete v vs)" using False vs by (simp add: versions_ok_def distinct_delete)
    then show ?thesis using False Some assms
      by (auto simp: ms_del_project_version_def Let_def ms_invar_def ms_installed_def fun_eq_iff
          distinct_update update_conv' AList.delete_conv' split: if_splits option.splits)
  qed
qed

interpretation ms: environment ms_read "ms_write fresh" ms_installed ms_invar fresh
  for fresh :: 'p
proof unfold_locales
  fix s :: "'p MemoryStorageEnvironment"
  assume inv: "ms_invar s"
  show "\<exists>us. env_uris ms_read s = Ok (map Ok us) \<and> set us = {u. \<exists>v. ms_installed s (u, v) \<noteq> None}"
    using ms_installed_uris [OF inv]
    by (intro exI [of _ "keys (ms_projects s)"]) (simp add: ms_read_def ms_uris_def)
next
  fix s :: "'p MemoryStorageEnvironment" and u v
  assume "ms_invar s" and "ms_installed s (u, v) \<noteq> None"
  then obtain vs where "map_of (ms_projects s) u = Some vs"
    by (auto simp: ms_installed_def split: option.splits)
  then show "\<exists>vs. env_versions ms_read s u = Ok (map Ok vs) \<and> set vs = {v. ms_installed s (u, v) \<noteq> None}"
    by (intro exI [of _ "keys vs"])
      (auto simp: ms_read_def ms_versions_def ms_installed_def map_of_eq_None_iff)
next
  fix s :: "'p MemoryStorageEnvironment" and u v p
  show "env_get_project ms_read s u v = Ok p \<longleftrightarrow> ms_installed s (u, v) = Some p"
    by (auto simp: ms_read_def ms_get_project_def ms_installed_def split: option.splits)
next
  fix s s' :: "'p MemoryStorageEnvironment" and u v c q and f :: "'p \<Rightarrow> ('p, 'c) result"
  assume "ms_invar s"
    and "env_put_project (ms_write fresh) u v c f s = (Ok (q, s') :: (_, ('w, 'c) PutProjectError) result)"
  then show "f fresh = Ok q \<and> ms_invar s' \<and> ms_installed s' = (ms_installed s)((u, v) \<mapsto> q)"
    by (cases s) (auto simp: ms_write_def ms_put_project_def entry_insert_invar entry_insert_installed)
next
  fix s :: "'p MemoryStorageEnvironment" and u v c q and f :: "'p \<Rightarrow> ('p, 'c) result"
  assume "f fresh = Ok q"
  then show "\<exists>s'. env_put_project (ms_write fresh) u v c f s = (Ok (q, s') :: (_, ('w, 'c) PutProjectError) result)"
    by (auto simp: ms_write_def ms_put_project_def)
next
  fix s :: "'p MemoryStorageEnvironment" and u v
  assume "ms_invar s"
  then show "\<exists>s'. env_del_project_version (ms_write fresh :: (_, _, 'w, 'c) WriteEnvironment) u v s = Ok s'
      \<and> ms_invar s' \<and> ms_installed s' = (ms_installed s)((u, v) := None)"
    using ms_del_version_ok [of s u v] by (simp add: ms_write_def)
next
  fix s :: "'p MemoryStorageEnvironment" and u
  assume "ms_invar s"
  then show "\<exists>s'. env_del_uri (ms_write fresh :: (_, _, 'w, 'c) WriteEnvironment) u s = Ok s' \<and> ms_invar s'
      \<and> ms_installed s' = (\<lambda>(u', v). if u' = u then None else ms_installed s (u', v))"
    by (auto simp: ms_write_def ms_del_uri_def ms_invar_def ms_installed_def fun_eq_iff distinct_delete
        AList.delete_conv' split: if_splits)
qed

interpretation mi: installable mem_read mem_mut utf8_valid ms_read "ms_write mem_new"
    ms_installed ms_invar mem_new
  by unfold_locales

lemma ms_default_invar [simp]: "ms_invar ms_default"
  by (simp add: ms_invar_def ms_default_def)

lemma ms_default_installed [simp]: "ms_installed ms_default x = None"
  by (cases x) (simp add: ms_installed_def ms_default_def)

lemma ms_empty:
  "ms_invar \<lparr>ms_projects = []\<rparr>" "ms_installed \<lparr>ms_projects = []\<rparr> = Map.empty"
  by (auto simp: ms_invar_def ms_installed_def)

lemma fold_entry_insert:
  "ms_invar \<lparr>ms_projects = m\<rparr> \<Longrightarrow>
    ms_invar \<lparr>ms_projects = fold (\<lambda>(u, v, p) m. entry_insert u v p m) items m\<rparr>
    \<and> ms_installed \<lparr>ms_projects = fold (\<lambda>(u, v, p) m. entry_insert u v p m) items m\<rparr>
      = ms_installed \<lparr>ms_projects = m\<rparr> ++ map_of (rev (map (\<lambda>(u, v, p). ((u, v), p)) items))"
proof (induction items arbitrary: m)
  case Nil
  then show ?case by simp
next
  case (Cons i items)
  obtain u v p where i: "i = (u, v, p)" by (cases i)
  have "ms_invar \<lparr>ms_projects = entry_insert u v p m\<rparr>"
    using Cons.prems by (rule entry_insert_invar)
  from Cons.IH [OF this] show ?case
    by (simp add: i entry_insert_installed map_add_upd_left [symmetric] map_add_def fun_eq_iff
        split: option.splits)
qed

section \<open>Properties\<close>

text \<open>installing into the in-memory environment, when it succeeds, adds exactly the requested
  URI and version, with the information, metadata and source files of the installed project,
  overwrites only when that was allowed, and keeps the environment well-formed.\<close>

theorem env_install_effect:
  assumes "ms_invar env" and "hash_order_law X"
    and "do_env_install_project X ms_read (ms_write mem_new) S mem_mut u v storage c env ow multi = Ok env'"
  shows "ms_invar env' \<and> (ow \<or> ms_installed env (u, v) = None)
    \<and> (\<exists>q info meta. ms_installed env' = (ms_installed env)((u, v) \<mapsto> q)
        \<and> get_project S storage = Ok (Some info, Some meta)
        \<and> im_info q = Some info \<and> im_meta q = Some meta
        \<and> (\<forall>p \<in> source_paths True meta. \<exists>b. read_source S storage p = Ok (Ok b)
            \<and> map_of (im_files q) p = Some b))"
proof -
  from mi.install_spec [OF assms] obtain q info meta where
      i: "ms_invar env'" "ow \<or> ms_installed env (u, v) = None"
        "ms_installed env' = (ms_installed env)((u, v) \<mapsto> q)"
        "get_project S storage = Ok (Some info, Some meta)"
        "get_project mem_read q = Ok (Some info, Some meta)"
        "\<forall>p \<in> source_paths True meta. \<exists>b. read_source S storage p = Ok (Ok b)
            \<and> read_source mem_read q p = Ok (Ok b)"
    by blast
  then have "im_info q = Some info" "im_meta q = Some meta"
    by (simp_all add: mem_read_def mem_get_project_def)
  moreover have "\<forall>p \<in> source_paths True meta. \<exists>b. read_source S storage p = Ok (Ok b)
      \<and> map_of (im_files q) p = Some b"
    using i(6) by (simp add: mem_read_def mem_read_source_def)
  ultimately show ?thesis using i by blast
qed

definition sample_install ::
  "(InMemoryProject MemoryStorageEnvironment, (MemoryReadError, (unit, (InMemoryError, InMemoryError)
     CloneError) PutProjectError) EnvInstallError) result" where
  "sample_install = do_env_install_project sample_project_externs ms_read (ms_write mem_new)
     mem_read mem_mut ''urn:demo'' ''1.0.0'' sample_mem None ms_default False False"

theorem env_install_effect_witness:
  "\<exists>env' q. sample_install = Ok env' \<and> ms_installed env' (''urn:demo'', ''1.0.0'') = Some q
    \<and> im_info q = im_info sample_mem"
proof -
  have "is_ok sample_install" by code_simp
  then obtain env' where env': "sample_install = Ok env'" by (auto simp: is_ok_iff)
  from env_install_effect [OF ms_default_invar sample_hash_order env' [unfolded sample_install_def]]
  obtain q info meta where "ms_installed env' (''urn:demo'', ''1.0.0'') = Some q" "im_info q = Some info"
      "get_project mem_read sample_mem = Ok (Some info, Some meta)" by auto
  then show ?thesis using env' by (auto simp: mem_read_def mem_get_project_def)
qed

text \<open>whether an installation may proceed, as a decision table over the two flags: with neither flag
  no version of the project may be installed, with \<open>allow_multiple\<close> only that version must be
  absent, with \<open>allow_overwrite\<close> that version must be present if any is, with both it always may.\<close>

theorem check_install_table:
  assumes "ms_invar env"
  shows "check_install ms_read u v env ow multi = Ok () \<longleftrightarrow>
    (case (ow, multi) of
       (True, True) \<Rightarrow> True
     | (False, False) \<Rightarrow> (\<forall>v'. ms_installed env (u, v') = None)
     | (False, True) \<Rightarrow> ms_installed env (u, v) = None
     | (True, False) \<Rightarrow> ms_installed env (u, v) \<noteq> None \<or> (\<forall>v'. ms_installed env (u, v') = None))"
  using ms.check_install_spec [OF assms, of u v ow multi] by (cases ow; cases multi) auto

theorem check_install_table_witness:
  "check_install ms_read ''urn:a'' ''1'' (ms_from_iter [(''urn:a'', ''2'', mem_new)]) False True = Ok ()"
proof -
  have "ms_invar (ms_from_iter [(''urn:a'', ''2'', mem_new)])"
    by (simp add: ms_from_iter_def entry_insert_def ms_invar_def versions_ok_def)
  moreover have "ms_installed (ms_from_iter [(''urn:a'', ''2'', mem_new)]) (''urn:a'', ''1'') = None"
    by (simp add: ms_from_iter_def entry_insert_def ms_installed_def)
  ultimately show ?thesis
    using check_install_table [of "ms_from_iter [(''urn:a'', ''2'', mem_new)]" "''urn:a''" "''1''" False True]
    by simp
qed

text \<open>listing an environment succeeds and reports exactly the installed pairs of URI and version.\<close>

theorem env_list_complete:
  assumes "ms_invar env"
  shows "\<exists>l. do_env_list ms_read env = Ok l \<and>
    set l = {(u, Some v) |u v. ms_installed env (u, v) \<noteq> None}"
  using assms by (rule ms.list_spec)

theorem env_list_complete_witness:
  "\<exists>l. do_env_list ms_read (ms_from_iter [(''urn:a'', ''2'', mem_new)]) = Ok l
    \<and> (''urn:a'', Some ''2'') \<in> set l"
proof -
  have "ms_invar (ms_from_iter [(''urn:a'', ''2'', mem_new)])"
    by (simp add: ms_from_iter_def entry_insert_def ms_invar_def versions_ok_def)
  moreover have "ms_installed (ms_from_iter [(''urn:a'', ''2'', mem_new)]) (''urn:a'', ''2'') \<noteq> None"
    by (simp add: ms_from_iter_def entry_insert_def ms_installed_def)
  ultimately show ?thesis using env_list_complete by blast
qed

text \<open>uninstalling removes exactly the given version, or every version of the URI when none is given,
  cannot fail, and keeps the environment well-formed.\<close>

theorem env_uninstall_effect:
  assumes "ms_invar env"
  shows "\<exists>env'. do_env_uninstall (ms_write mem_new) u ver env = Ok env' \<and> ms_invar env'
    \<and> (\<forall>u' v'. ms_installed env' (u', v') =
        (if u' = u \<and> (ver = None \<or> ver = Some v') then None else ms_installed env (u', v')))"
  using assms by (rule ms.uninstall_spec)

theorem env_uninstall_effect_witness:
  "\<exists>env'. do_env_uninstall (ms_write mem_new) ''urn:a'' (Some ''2'')
      (ms_from_iter [(''urn:a'', ''2'', mem_new)]) = Ok env'
    \<and> ms_installed env' (''urn:a'', ''2'') = None"
proof -
  have "ms_invar (ms_from_iter [(''urn:a'', ''2'', mem_new)])"
    by (simp add: ms_from_iter_def entry_insert_def ms_invar_def versions_ok_def)
  from env_uninstall_effect [OF this, of "''urn:a''" "Some ''2''"] show ?thesis by force
qed

text \<open>an environment built from triples of URI, version and project holds the last project given for
  each pair, and is well-formed.\<close>

theorem ms_from_iter_last_wins:
  "ms_invar (ms_from_iter items)
    \<and> ms_installed (ms_from_iter items) = map_of (rev (map (\<lambda>(u, v, p). ((u, v), p)) items))"
  using fold_entry_insert [OF ms_empty(1), of items] by (simp add: ms_from_iter_def ms_empty(2))

end
