(* ===== verification/Resolve.thy ===== *)
theory Resolve
  imports Env
begin

text \<open>
  Resolvers, \<^verbatim>\<open>core/src/resolve\<close>: the outcome type and the resolvers that look up an
  IRI in memory or in an environment, and those that combine other resolvers (in sequence, by
  priority, HTTP with git, and the combined resolver with its local cache). A resolver is the
  function from IRIs that \<^verbatim>\<open>resolve_read\<close> is; the iterator of a resolution
  is the list of its items, except for the combined resolver, whose iterator is modelled as
  the state machine it is. Messages that quote a list of messages use the debug format of
  the standard library, which is an argument. Log messages are left out.
\<close>

section \<open>Outcomes and resolvers\<close>

datatype 'a ResolutionOutcome =
    Resolved 'a
  | UnsupportedIRIType string
  | Unresolvable string

fun outcome_map :: "('a \<Rightarrow> 'b) \<Rightarrow> 'a ResolutionOutcome \<Rightarrow> 'b ResolutionOutcome" where
  "outcome_map f (Resolved t) = Resolved (f t)"
| "outcome_map f (UnsupportedIRIType e) = UnsupportedIRIType e"
| "outcome_map f (Unresolvable e) = Unresolvable e"

type_synonym ('i, 'p, 'e) resolver = "'i \<Rightarrow> (('p, 'e) result list ResolutionOutcome, 'e) result"

definition null_resolve :: "('i, 'p, 'e) resolver" where
  "null_resolve uri = Ok (UnsupportedIRIType ''null resolver'')"

definition memory_resolve ::
  "('i \<Rightarrow> string) \<Rightarrow> ('i \<Rightarrow> bool) \<Rightarrow> ('i \<times> 'p list) list \<Rightarrow> ('i, 'p, 'e) resolver" where
  "memory_resolve str accept_iri projects uri =
    (if \<not> accept_iri uri
     then Ok (UnsupportedIRIType (''invalid IRI `'' @ str uri @ ''` for this memory resolver''))
     else Ok (case map_of projects uri of
         Some xs \<Rightarrow> Resolved (map Ok xs)
       | None \<Rightarrow> Unresolvable (str uri)))"

definition env_resolve ::
  "('i \<Rightarrow> string) \<Rightarrow> ('s, 'p, 'e) ReadEnvironment \<Rightarrow> 's \<Rightarrow> ('i, 'p, 'e) resolver" where
  "env_resolve str E s uri =
    and_then (env_versions E s (str uri)) (\<lambda>versions.
      let projects = map (\<lambda>v. and_then v (env_get_project E s (str uri))) versions in
      if projects = []
      then Ok (Unresolvable (''no versions of `'' @ str uri @ ''` found in environment''))
      else Ok (Resolved projects))"

section \<open>Resolvers in sequence\<close>

record ('p, 'e) seq_state =
  sq_iters :: "('p, 'e) result list list"
  sq_any_supported :: bool
  sq_msgs :: "string list"

definition sequential_step ::
  "'i \<Rightarrow> ('p, 'e) seq_state \<Rightarrow> ('i, 'p, 'e) resolver \<Rightarrow> (('p, 'e) seq_state, 'e) result" where
  "sequential_step uri st resolver =
    and_then (resolver uri) (\<lambda>outcome.
      Ok (case outcome of
        Resolved storages \<Rightarrow> st\<lparr>sq_any_supported := True, sq_iters := sq_iters st @ [storages]\<rparr>
      | UnsupportedIRIType msg \<Rightarrow> st\<lparr>sq_msgs := sq_msgs st @ [msg]\<rparr>
      | Unresolvable msg \<Rightarrow> st\<lparr>sq_any_supported := True, sq_msgs := sq_msgs st @ [msg]\<rparr>))"

definition sequential_resolve ::
  "(string list \<Rightarrow> string) \<Rightarrow> ('i, 'p, 'e) resolver list \<Rightarrow> ('i, 'p, 'e) resolver" where
  "sequential_resolve fmt_debug inner uri =
    and_then (fold_res (sequential_step uri)
        \<lparr>sq_iters = [], sq_any_supported = False, sq_msgs = []\<rparr> inner) (\<lambda>st.
      Ok (if sq_iters st \<noteq> [] then Resolved (concat (sq_iters st))
          else if sq_any_supported st then Unresolvable (''unresolvable: '' @ fmt_debug (sq_msgs st))
          else UnsupportedIRIType (''unsupported IRI: '' @ fmt_debug (sq_msgs st))))"

section \<open>Resolvers by priority\<close>

datatype ('h, 'l) PriorityError = HigherError 'h | LowerError 'l
datatype ('h, 'l) PriorityProject = HigherProject 'h | LowerProject 'l

definition priority_higher :: "('h, 'he) result \<Rightarrow> (('h, 'l) PriorityProject, ('he, 'le) PriorityError) result" where
  "priority_higher x = map_err HigherError (map_ok HigherProject x)"

definition priority_lower :: "('l, 'le) result \<Rightarrow> (('h, 'l) PriorityProject, ('he, 'le) PriorityError) result" where
  "priority_lower x = map_err LowerError (map_ok LowerProject x)"

definition priority_resolve ::
  "('i, 'h, 'he) resolver \<Rightarrow> ('i, 'l, 'le) resolver
   \<Rightarrow> ('i, ('h, 'l) PriorityProject, ('he, 'le) PriorityError) resolver" where
  "priority_resolve higher lower uri =
    and_then (map_err HigherError (higher uri)) (\<lambda>outcome.
      case outcome of
        Resolved resolved \<Rightarrow> Ok (Resolved (map priority_higher resolved))
      | _ \<Rightarrow> and_then (map_err LowerError (lower uri)) (\<lambda>out.
          Ok (outcome_map (map priority_lower) out)))"

text \<open>A priority project reads through to the project it wraps.\<close>

definition priority_read ::
  "('h, 'he) ProjectRead \<Rightarrow> ('l, 'le) ProjectRead
   \<Rightarrow> (('h, 'l) PriorityProject, ('he, 'le) PriorityError) ProjectRead" where
  "priority_read H L = \<lparr>
     get_project = (\<lambda>p. case p of
         HigherProject q \<Rightarrow> map_err HigherError (get_project H q)
       | LowerProject q \<Rightarrow> map_err LowerError (get_project L q)),
     read_source = (\<lambda>p path. case p of
         HigherProject q \<Rightarrow> map_err HigherError (read_source H q path)
       | LowerProject q \<Rightarrow> map_err LowerError (read_source L q path))\<rparr>"

section \<open>Remote resolvers\<close>

datatype RemotePriority = PreferGit | PreferHTTP
datatype ('h, 'g) RemoteResolverError = HTTPResolver 'h | GitResolver 'g
datatype ('h, 'g) RemoteProject = HTTPProject 'h | GitProject 'g

record ('h, 'he, 'g, 'ge) ResolvedRemote =
  resolved_http :: "('h, 'he) result list option"
  resolved_git :: "('g, 'ge) result list option"
  remote_priority :: RemotePriority

definition http_item where "http_item x = map_err HTTPResolver (map_ok HTTPProject x)"
definition git_item where "git_item x = map_err GitResolver (map_ok GitProject x)"

definition remote_next ::
  "('h, 'he, 'g, 'ge) ResolvedRemote
   \<Rightarrow> ((('h, 'g) RemoteProject, ('he, 'ge) RemoteResolverError) result
        \<times> ('h, 'he, 'g, 'ge) ResolvedRemote) option" where
  "remote_next it =
    (case remote_priority it of
       PreferGit \<Rightarrow>
         (case resolved_git it of
            Some (x # xs) \<Rightarrow> Some (git_item x, it\<lparr>resolved_git := Some xs\<rparr>)
          | _ \<Rightarrow>
            (case resolved_http it of
               Some (x # xs) \<Rightarrow> Some (http_item x, it\<lparr>resolved_git := None, resolved_http := Some xs\<rparr>)
             | _ \<Rightarrow> None))
     | PreferHTTP \<Rightarrow>
         (case resolved_http it of
            Some (x # xs) \<Rightarrow> Some (http_item x, it\<lparr>resolved_http := Some xs\<rparr>)
          | _ \<Rightarrow>
            (case resolved_git it of
               Some (x # xs) \<Rightarrow> Some (git_item x, it\<lparr>resolved_http := None, resolved_git := Some xs\<rparr>)
             | _ \<Rightarrow> None)))"

definition opt_length :: "'a list option \<Rightarrow> nat" where
  "opt_length o' = (case o' of Some xs \<Rightarrow> length xs | None \<Rightarrow> 0)"

function remote_drain ::
  "('h, 'he, 'g, 'ge) ResolvedRemote
   \<Rightarrow> (('h, 'g) RemoteProject, ('he, 'ge) RemoteResolverError) result list" where
  "remote_drain it = (case remote_next it of None \<Rightarrow> [] | Some (x, it') \<Rightarrow> x # remote_drain it')"
  by auto

termination
  by (relation "measure (\<lambda>it. opt_length (resolved_http it) + opt_length (resolved_git it))")
    (auto simp: remote_next_def opt_length_def split: RemotePriority.splits option.splits list.splits)

declare remote_drain.simps [simp del]

fun resolved_part :: "'a ResolutionOutcome \<Rightarrow> 'a option" where
  "resolved_part (Resolved x) = Some x"
| "resolved_part _ = None"

definition resolve_part ::
  "('e \<Rightarrow> 'f) \<Rightarrow> ('i, 'p, 'e) resolver option \<Rightarrow> 'i \<Rightarrow> (('p, 'e) result list option, 'f) result" where
  "resolve_part wrap resolver uri =
    (case resolver of
       None \<Rightarrow> Ok None
     | Some r \<Rightarrow> map_ok resolved_part (map_err wrap (r uri)))"

definition remote_resolve_iter ::
  "('i, 'h, 'he) resolver option \<Rightarrow> ('i, 'g, 'ge) resolver option \<Rightarrow> RemotePriority \<Rightarrow> 'i
   \<Rightarrow> (('h, 'he, 'g, 'ge) ResolvedRemote ResolutionOutcome, ('he, 'ge) RemoteResolverError) result" where
  "remote_resolve_iter http git priority uri =
    and_then (resolve_part HTTPResolver http uri) (\<lambda>h.
    and_then (resolve_part GitResolver git uri) (\<lambda>g.
    Ok (Resolved \<lparr>resolved_http = h, resolved_git = g, remote_priority = priority\<rparr>)))"

definition remote_resolve ::
  "('i, 'h, 'he) resolver option \<Rightarrow> ('i, 'g, 'ge) resolver option \<Rightarrow> RemotePriority
   \<Rightarrow> ('i, ('h, 'g) RemoteProject, ('he, 'ge) RemoteResolverError) resolver" where
  "remote_resolve http git priority uri =
    map_ok (outcome_map remote_drain) (remote_resolve_iter http git priority uri)"

section \<open>The combined resolver\<close>

datatype ('f, 'l, 'r, 'x) CombinedResolverError =
    FileErr 'f | LocalErr 'l | RemoteErr 'r | IndexErr 'x

datatype ('f, 'l, 'r, 'x) CombinedProjectStorage =
    FileProject 'f
  | RemoteProjectStorage 'r
  | IndexProject 'x
  | CachedRemoteProject 'l 'r
  | CachedIndexProject 'l 'x
  | DanglingLocalProject 'l

datatype ('f, 'fe, 'r, 're, 'x, 'xe) CombinedIteratorState =
    ResolvedFile "('f, 'fe) result list"
  | ResolvedRemoteState "('r, 're) result list"
  | ResolvedIndex "('x, 'xe) result list"
  | Done

record ('f, 'fe, 'l, 'r, 're, 'x, 'xe) CombinedIterator =
  ci_state :: "('f, 'fe, 'r, 're, 'x, 'xe) CombinedIteratorState"
  ci_locals :: "(string \<times> 'l) list"

text \<open>Matching a project against the local cache by its checksum: the cached project, if any, and the
  remaining cache.\<close>

definition take_cached ::
  "('p \<Rightarrow> (string option, 'c) result) \<Rightarrow> 'p \<Rightarrow> (string \<times> 'l) list \<Rightarrow> 'l option \<times> (string \<times> 'l) list" where
  "take_cached checksum_hex project locals =
    (case checksum_hex project of
       Ok (Some checksum) \<Rightarrow> (map_of locals checksum, AList.delete checksum locals)
     | _ \<Rightarrow> (None, locals))"

definition combined_remote_item ::
  "('r \<Rightarrow> (string option, 'c) result) \<Rightarrow> ('r, 're) result \<Rightarrow> (string \<times> 'l) list
   \<Rightarrow> (('f, 'l, 'r, 'x) CombinedProjectStorage, ('fe, 'le, 're, 'xe) CombinedResolverError) result
      \<times> (string \<times> 'l) list" where
  "combined_remote_item checksum_hex r locals =
    (case r of
       Err e \<Rightarrow> (Err (RemoteErr e), locals)
     | Ok project \<Rightarrow>
         (let (cached, locals') = take_cached checksum_hex project locals in
          (Ok (case cached of
                 Some local_project \<Rightarrow> CachedRemoteProject local_project project
               | None \<Rightarrow> RemoteProjectStorage project), locals')))"

definition combined_index_item ::
  "('x \<Rightarrow> (string option, 'c) result) \<Rightarrow> ('x, 'xe) result \<Rightarrow> (string \<times> 'l) list
   \<Rightarrow> (('f, 'l, 'r, 'x) CombinedProjectStorage, ('fe, 'le, 're, 'xe) CombinedResolverError) result
      \<times> (string \<times> 'l) list" where
  "combined_index_item checksum_hex r locals =
    (case r of
       Err e \<Rightarrow> (Err (IndexErr e), locals)
     | Ok project \<Rightarrow>
         (let (cached, locals') = take_cached checksum_hex project locals in
          (Ok (case cached of
                 Some local_project \<Rightarrow> CachedIndexProject local_project project
               | None \<Rightarrow> IndexProject project), locals')))"

text \<open>The step of the \<open>Done\<close> state pops the last local project.\<close>

definition combined_pop where
  "combined_pop locals =
    (if locals = [] then None
     else Some (Ok (DanglingLocalProject (snd (last locals))),
                \<lparr>ci_state = Done, ci_locals = butlast locals\<rparr>))"

definition combined_next ::
  "('r \<Rightarrow> (string option, 'c) result) \<Rightarrow> ('x \<Rightarrow> (string option, 'd) result)
   \<Rightarrow> ('f, 'fe, 'l, 'r, 're, 'x, 'xe) CombinedIterator
   \<Rightarrow> ((('f, 'l, 'r, 'x) CombinedProjectStorage, ('fe, 'le, 're, 'xe) CombinedResolverError) result
       \<times> ('f, 'fe, 'l, 'r, 're, 'x, 'xe) CombinedIterator) option" where
  "combined_next rsum xsum it =
    (case ci_state it of
       ResolvedFile [] \<Rightarrow> None
     | ResolvedFile (r # rs) \<Rightarrow>
         Some (map_err FileErr (map_ok FileProject r), it\<lparr>ci_state := ResolvedFile rs\<rparr>)
     | Done \<Rightarrow> combined_pop (ci_locals it)
     | ResolvedRemoteState (r # rs) \<Rightarrow>
         (let (item, locals') = combined_remote_item rsum r (ci_locals it) in
          Some (item, \<lparr>ci_state = ResolvedRemoteState rs, ci_locals = locals'\<rparr>))
     | ResolvedRemoteState [] \<Rightarrow> combined_pop (ci_locals it)
     | ResolvedIndex (r # rs) \<Rightarrow>
         (let (item, locals') = combined_index_item xsum r (ci_locals it) in
          Some (item, \<lparr>ci_state = ResolvedIndex rs, ci_locals = locals'\<rparr>))
     | ResolvedIndex [] \<Rightarrow> combined_pop (ci_locals it))"

fun state_length :: "('f, 'fe, 'r, 're, 'x, 'xe) CombinedIteratorState \<Rightarrow> nat" where
  "state_length (ResolvedFile rs) = length rs"
| "state_length (ResolvedRemoteState rs) = length rs"
| "state_length (ResolvedIndex rs) = length rs"
| "state_length Done = 0"

lemma length_delete_le: "length (AList.delete k al) \<le> length al"
  by (simp add: AList.length_delete_le)

lemma take_cached_length: "take_cached f p locals = (c, locals') \<Longrightarrow> length locals' \<le> length locals"
  by (auto simp: take_cached_def length_delete_le split: result.splits option.splits)

lemma combined_next_decreases:
  assumes "combined_next rsum xsum it = Some (item, it')"
  shows "state_length (ci_state it') + length (ci_locals it') < state_length (ci_state it) + length (ci_locals it)"
  using assms
  by (auto simp: combined_next_def combined_pop_def combined_remote_item_def combined_index_item_def
      dest!: take_cached_length split: CombinedIteratorState.splits list.splits if_splits prod.splits result.splits)

function combined_drain ::
  "('r \<Rightarrow> (string option, 'c) result) \<Rightarrow> ('x \<Rightarrow> (string option, 'd) result)
   \<Rightarrow> ('f, 'fe, 'l, 'r, 're, 'x, 'xe) CombinedIterator
   \<Rightarrow> (('f, 'l, 'r, 'x) CombinedProjectStorage, ('fe, 'le, 're, 'xe) CombinedResolverError) result list" where
  "combined_drain rsum xsum it =
    (case combined_next rsum xsum it of
       None \<Rightarrow> []
     | Some (item, it') \<Rightarrow> item # combined_drain rsum xsum it')"
  by auto

termination
  by (relation "measure (\<lambda>(_, _, it). state_length (ci_state it) + length (ci_locals it))")
    (auto dest: combined_next_decreases)

declare combined_drain.simps [simp del]

definition insert_local ::
  "('l \<Rightarrow> (string option, 'c) result) \<Rightarrow> (string \<times> 'l) list \<Rightarrow> ('l, 'le) result \<Rightarrow> (string \<times> 'l) list" where
  "insert_local lsum locals res =
    (case res of
       Err e \<Rightarrow> locals
     | Ok project \<Rightarrow> (case lsum project of
           Ok (Some checksum) \<Rightarrow> AList.update checksum project locals
         | _ \<Rightarrow> locals))"

text \<open>The local projects by checksum, in reverse order for popping, and whether the local resolver
  supports the IRI.\<close>

definition collect_locals ::
  "('l \<Rightarrow> (string option, 'c) result) \<Rightarrow> ('i, 'l, 'le) resolver option \<Rightarrow> 'i
   \<Rightarrow> (bool \<times> (string \<times> 'l) list, ('fe, 'le, 're, 'xe) CombinedResolverError) result" where
  "collect_locals lsum local_resolver uri =
    (case local_resolver of
       None \<Rightarrow> Ok (False, [])
     | Some l \<Rightarrow>
         and_then (map_err LocalErr (l uri)) (\<lambda>outcome.
           Ok (case outcome of
             Resolved projects \<Rightarrow> (True, rev (foldl (insert_local lsum) [] projects))
           | UnsupportedIRIType msg \<Rightarrow> (False, [])
           | Unresolvable msg \<Rightarrow> (True, []))))"

definition nominally_valid ::
  "('r \<Rightarrow> bool) \<Rightarrow> ('r, 'pe) ProjectRead \<Rightarrow> ('r, 're) result \<Rightarrow> bool" where
  "nominally_valid is_definitely_invalid RP r =
    (case r of
       Err e \<Rightarrow> False
     | Ok project \<Rightarrow>
         if is_definitely_invalid project then False
         else (case get_project RP project of
                 Ok (Some _, Some _) \<Rightarrow> True
               | _ \<Rightarrow> False))"

fun skip_invalid ::
  "('r \<Rightarrow> bool) \<Rightarrow> ('r, 'pe) ProjectRead \<Rightarrow> ('r, 're) result list \<Rightarrow> ('r, 're) result list" where
  "skip_invalid bad RP [] = []"
| "skip_invalid bad RP (r # rs) =
    (if nominally_valid bad RP r then r # rs else skip_invalid bad RP rs)"

text \<open>The remaining remote projects from the first valid one on, if there is one, and whether the remote
  resolver supports the IRI.\<close>

definition combined_remote ::
  "('r \<Rightarrow> bool) \<Rightarrow> ('r, 'pe) ProjectRead \<Rightarrow> ('i, 'r, 're) resolver option \<Rightarrow> 'i
   \<Rightarrow> (bool \<times> ('r, 're) result list, ('fe, 'le, 're, 'xe) CombinedResolverError) result" where
  "combined_remote bad RP remote_resolver uri =
    (case remote_resolver of
       None \<Rightarrow> Ok (False, [])
     | Some r \<Rightarrow>
         and_then (map_err RemoteErr (r uri)) (\<lambda>outcome.
           Ok (case outcome of
             UnsupportedIRIType msg \<Rightarrow> (False, [])
           | Unresolvable msg \<Rightarrow> (True, [])
           | Resolved projects \<Rightarrow> (True, skip_invalid bad RP projects))))"

definition combined_index ::
  "('i, 'x, 'xe) resolver option \<Rightarrow> 'i
   \<Rightarrow> (bool \<times> ('x, 'xe) result list option, ('fe, 'le, 're, 'xe) CombinedResolverError) result" where
  "combined_index index_resolver uri =
    (case index_resolver of
       None \<Rightarrow> Ok (False, None)
     | Some x \<Rightarrow>
         and_then (map_err IndexErr (x uri)) (\<lambda>outcome.
           Ok (case outcome of
             Resolved projects \<Rightarrow> (True, Some projects)
           | UnsupportedIRIType msg \<Rightarrow> (False, None)
           | Unresolvable msg \<Rightarrow> (True, None))))"

definition combined_file ::
  "('i, 'f, 'fe) resolver option \<Rightarrow> 'i
   \<Rightarrow> (('f, 'fe) result list ResolutionOutcome option, ('fe, 'le, 're, 'xe) CombinedResolverError) result" where
  "combined_file file_resolver uri =
    (case file_resolver of
       None \<Rightarrow> Ok None
     | Some f \<Rightarrow>
         and_then (map_err FileErr (f uri)) (\<lambda>outcome.
           Ok (case outcome of
             UnsupportedIRIType msg \<Rightarrow> None
           | Resolved r \<Rightarrow> Some (Resolved r)
           | Unresolvable msg \<Rightarrow> Some (Unresolvable (''failed to resolve as file: '' @ msg)))))"

definition combined_resolve_iter ::
  "('l \<Rightarrow> (string option, 'c) result) \<Rightarrow> ('r \<Rightarrow> bool) \<Rightarrow> ('r, 'pe) ProjectRead
   \<Rightarrow> ('i, 'f, 'fe) resolver option \<Rightarrow> ('i, 'l, 'le) resolver option
   \<Rightarrow> ('i, 'r, 're) resolver option \<Rightarrow> ('i, 'x, 'xe) resolver option \<Rightarrow> 'i
   \<Rightarrow> (('f, 'fe, 'l, 'r, 're, 'x, 'xe) CombinedIterator ResolutionOutcome,
       ('fe, 'le, 're, 'xe) CombinedResolverError) result" where
  "combined_resolve_iter lsum bad RP file_resolver local_resolver remote_resolver index_resolver uri =
    and_then (combined_file file_resolver uri) (\<lambda>early.
      case early of
        Some out \<Rightarrow> Ok (outcome_map (\<lambda>r. \<lparr>ci_state = ResolvedFile r, ci_locals = []\<rparr>) out)
      | None \<Rightarrow>
        and_then (collect_locals lsum local_resolver uri) (\<lambda>(local_supports, locals).
        and_then (combined_remote bad RP remote_resolver uri) (\<lambda>(remote_supports, remote_projects).
          if remote_projects \<noteq> [] then
            Ok (Resolved \<lparr>ci_state = ResolvedRemoteState remote_projects, ci_locals = locals\<rparr>)
          else
            and_then (combined_index index_resolver uri) (\<lambda>(index_supports, index_projects).
              case index_projects of
                Some x \<Rightarrow> Ok (Resolved \<lparr>ci_state = ResolvedIndex x, ci_locals = locals\<rparr>)
              | None \<Rightarrow>
                  if \<not> (local_supports \<or> remote_supports \<or> index_supports)
                  then Ok (UnsupportedIRIType ''no resolver accepted the IRI'')
                  else if locals = []
                  then Ok (Unresolvable ''no resolver was able to resolve the IRI'')
                  else Ok (Resolved \<lparr>ci_state = Done, ci_locals = locals\<rparr>)))))"

section \<open>What the iterators yield\<close>

lemma remote_drain_git:
  "remote_drain \<lparr>resolved_http = None, resolved_git = Some xs, remote_priority = p\<rparr> = map git_item xs"
  by (induction xs; subst remote_drain.simps; cases p) (auto simp: remote_next_def)

lemma remote_drain_http:
  "remote_drain \<lparr>resolved_http = Some xs, resolved_git = None, remote_priority = p\<rparr> = map http_item xs"
  by (induction xs; subst remote_drain.simps; cases p) (auto simp: remote_next_def)

lemma remote_drain_none:
  "remote_drain \<lparr>resolved_http = None, resolved_git = None, remote_priority = p\<rparr> = []"
  by (subst remote_drain.simps; cases p) (auto simp: remote_next_def)

definition or_nil :: "'a list option \<Rightarrow> 'a list" where
  "or_nil o' = (case o' of Some xs \<Rightarrow> xs | None \<Rightarrow> [])"

lemma remote_drain_order:
  "remote_drain \<lparr>resolved_http = h, resolved_git = g, remote_priority = p\<rparr> =
    (case p of
       PreferGit \<Rightarrow> map git_item (or_nil g) @ map http_item (or_nil h)
     | PreferHTTP \<Rightarrow> map http_item (or_nil h) @ map git_item (or_nil g))"
proof (cases p)
  case PreferGit
  have "remote_drain \<lparr>resolved_http = h, resolved_git = Some xs, remote_priority = PreferGit\<rparr> =
      map git_item xs @ map http_item (or_nil h)" for xs
  proof (induction xs)
    case Nil
    show ?case
    proof (cases h)
      case None
      then show ?thesis by (subst remote_drain.simps) (simp add: remote_next_def or_nil_def)
    next
      case (Some ys)
      then show ?thesis
        by (subst remote_drain.simps; cases ys) (simp_all add: remote_next_def or_nil_def remote_drain_http)
    qed
  next
    case (Cons x xs)
    then show ?case by (subst remote_drain.simps) (simp add: remote_next_def)
  qed
  then show ?thesis
    using PreferGit remote_drain_http remote_drain_none by (cases g; cases h) (auto simp: or_nil_def)
next
  case PreferHTTP
  have "remote_drain \<lparr>resolved_http = Some xs, resolved_git = g, remote_priority = PreferHTTP\<rparr> =
      map http_item xs @ map git_item (or_nil g)" for xs
  proof (induction xs)
    case Nil
    show ?case
    proof (cases g)
      case None
      then show ?thesis by (subst remote_drain.simps) (simp add: remote_next_def or_nil_def)
    next
      case (Some ys)
      then show ?thesis
        by (subst remote_drain.simps; cases ys) (simp_all add: remote_next_def or_nil_def remote_drain_git)
    qed
  next
    case (Cons x xs)
    then show ?case by (subst remote_drain.simps) (simp add: remote_next_def)
  qed
  then show ?thesis
    using PreferHTTP remote_drain_git remote_drain_none by (cases g; cases h) (auto simp: or_nil_def)
qed

lemma combined_drain_Done:
  "combined_drain rsum xsum \<lparr>ci_state = Done, ci_locals = ls\<rparr> =
    map (\<lambda>(k, l). Ok (DanglingLocalProject l)) (rev ls)"
proof (induction ls rule: rev_induct)
  case Nil
  show ?case by (subst combined_drain.simps) (simp add: combined_next_def combined_pop_def)
next
  case (snoc l ls)
  then show ?case
    by (subst combined_drain.simps) (simp add: combined_next_def combined_pop_def case_prod_beta)
qed

lemma combined_drain_remote_Nil:
  "combined_drain rsum xsum \<lparr>ci_state = ResolvedRemoteState [], ci_locals = ls\<rparr> =
    map (\<lambda>(k, l). Ok (DanglingLocalProject l)) (rev ls)"
  by (subst combined_drain.simps, cases ls rule: rev_cases)
    (auto simp: combined_next_def combined_pop_def combined_drain_Done case_prod_beta)

lemma combined_drain_remote_Cons:
  "combined_drain rsum xsum \<lparr>ci_state = ResolvedRemoteState (r # rs), ci_locals = ls\<rparr> =
    (case combined_remote_item rsum r ls of (item, ls') \<Rightarrow>
      item # combined_drain rsum xsum \<lparr>ci_state = ResolvedRemoteState rs, ci_locals = ls'\<rparr>)"
  by (subst combined_drain.simps) (simp add: combined_next_def case_prod_beta Let_def)

lemma combined_drain_index_Nil:
  "combined_drain rsum xsum \<lparr>ci_state = ResolvedIndex [], ci_locals = ls\<rparr> =
    map (\<lambda>(k, l). Ok (DanglingLocalProject l)) (rev ls)"
  by (subst combined_drain.simps, cases ls rule: rev_cases)
    (auto simp: combined_next_def combined_pop_def combined_drain_Done case_prod_beta)

lemma combined_drain_index_Cons:
  "combined_drain rsum xsum \<lparr>ci_state = ResolvedIndex (r # rs), ci_locals = ls\<rparr> =
    (case combined_index_item xsum r ls of (item, ls') \<Rightarrow>
      item # combined_drain rsum xsum \<lparr>ci_state = ResolvedIndex rs, ci_locals = ls'\<rparr>)"
  by (subst combined_drain.simps) (simp add: combined_next_def case_prod_beta Let_def)

lemma combined_drain_file:
  "combined_drain rsum xsum \<lparr>ci_state = ResolvedFile rs, ci_locals = ls\<rparr> =
    map (\<lambda>r. map_err FileErr (map_ok FileProject r)) rs"
  by (induction rs; subst combined_drain.simps) (auto simp: combined_next_def)

text \<open>The local projects that occur in an item, and the remote result it comes from.\<close>

fun item_locals :: "(('f, 'l, 'r, 'x) CombinedProjectStorage, 'e) result \<Rightarrow> 'l list" where
  "item_locals (Ok (CachedRemoteProject l _)) = [l]"
| "item_locals (Ok (CachedIndexProject l _)) = [l]"
| "item_locals (Ok (DanglingLocalProject l)) = [l]"
| "item_locals _ = []"

fun item_remote ::
  "(('f, 'l, 'r, 'x) CombinedProjectStorage, ('fe, 'le, 're, 'xe) CombinedResolverError) result
   \<Rightarrow> ('r, 're) result list" where
  "item_remote (Ok (RemoteProjectStorage r)) = [Ok r]"
| "item_remote (Ok (CachedRemoteProject _ r)) = [Ok r]"
| "item_remote (Err (RemoteErr e)) = [Err e]"
| "item_remote _ = []"

fun item_index ::
  "(('f, 'l, 'r, 'x) CombinedProjectStorage, ('fe, 'le, 're, 'xe) CombinedResolverError) result
   \<Rightarrow> ('x, 'xe) result list" where
  "item_index (Ok (IndexProject x)) = [Ok x]"
| "item_index (Ok (CachedIndexProject _ x)) = [Ok x]"
| "item_index (Err (IndexErr e)) = [Err e]"
| "item_index _ = []"

lemma mset_delete_key:
  assumes "distinct (keys al)" and "map_of al k = Some v"
  shows "mset (map snd al) = add_mset v (mset (map snd (AList.delete k al)))"
  using assms
proof (induction al)
  case Nil
  then show ?case by simp
next
  case (Cons a al)
  then show ?case by (cases a) (auto split: if_splits)
qed

lemma take_cached_facts:
  assumes "distinct (keys ls)" and taken: "take_cached checksum_hex p ls = (c, ls')"
  shows "mset (map snd ls) = mset (case c of Some l \<Rightarrow> [l] | None \<Rightarrow> []) + mset (map snd ls')"
    and "distinct (keys ls')"
proof -
  show "distinct (keys ls')"
    using assms by (auto simp: take_cached_def distinct_delete split: result.splits option.splits)
  show "mset (map snd ls) = mset (case c of Some l \<Rightarrow> [l] | None \<Rightarrow> []) + mset (map snd ls')"
  proof (cases "\<exists>k. checksum_hex p = Ok (Some k)")
    case True
    then obtain k where k: "checksum_hex p = Ok (Some k)" by blast
    show ?thesis
    proof (cases "map_of ls k")
      case None
      then have "AList.delete k ls = ls" by (simp add: map_of_eq_None_iff)
      then show ?thesis using taken k None by (auto simp: take_cached_def)
    next
      case (Some l)
      then have "c = Some l" "ls' = AList.delete k ls" using taken k by (simp_all add: take_cached_def)
      then show ?thesis using mset_delete_key [OF assms(1) Some] by simp
    qed
  next
    case False
    then have "take_cached checksum_hex p ls = (None, ls)"
      by (auto simp: take_cached_def split: result.splits option.splits)
    then show ?thesis using taken by auto
  qed
qed

lemma combined_remote_item_facts:
  assumes "distinct (keys ls)" and "combined_remote_item rsum r ls = (item, ls')"
  shows "item_remote item = [r]"
    and "mset (map snd ls) = mset (item_locals item) + mset (map snd ls')"
    and "distinct (keys ls')"
  using assms
  by (auto simp: combined_remote_item_def dest: take_cached_facts [OF assms(1)]
      split: result.splits option.splits prod.splits)

lemma combined_index_item_facts:
  assumes "distinct (keys ls)" and "combined_index_item xsum r ls = (item, ls')"
  shows "item_index item = [r]"
    and "mset (map snd ls) = mset (item_locals item) + mset (map snd ls')"
    and "distinct (keys ls')"
  using assms
  by (auto simp: combined_index_item_def dest: take_cached_facts [OF assms(1)]
      split: result.splits option.splits prod.splits)

lemma dangling_items:
  "concat (map item_remote (map (\<lambda>(k, l). Ok (DanglingLocalProject l)) (rev ls))) = []"
  "concat (map item_index (map (\<lambda>(k, l). Ok (DanglingLocalProject l)) (rev ls))) = []"
  "mset (concat (map item_locals (map (\<lambda>(k, l). Ok (DanglingLocalProject l)) (rev ls)))) = mset (map snd ls)"
  by (induction ls) auto

lemma combined_drain_remote_conserves:
  assumes "distinct (keys ls)"
    and "items = combined_drain rsum xsum \<lparr>ci_state = ResolvedRemoteState rs, ci_locals = ls\<rparr>"
  shows "concat (map item_remote items) = rs \<and> mset (concat (map item_locals items)) = mset (map snd ls)"
  using assms
proof (induction rs arbitrary: ls items)
  case Nil
  then show ?case
    by (simp add: combined_drain_remote_Nil dangling_items del: map_map concat_eq_Nil_conv)
next
  case (Cons r rs)
  obtain item ls' where i: "combined_remote_item rsum r ls = (item, ls')"
    and items: "items = item # combined_drain rsum xsum \<lparr>ci_state = ResolvedRemoteState rs, ci_locals = ls'\<rparr>"
    using Cons.prems(2) unfolding combined_drain_remote_Cons by (auto split: prod.splits)
  note f = combined_remote_item_facts [OF Cons.prems(1) i]
  then show ?case using Cons.IH [OF f(3) refl] by (simp add: items)
qed

lemma combined_drain_index_conserves:
  assumes "distinct (keys ls)"
    and "items = combined_drain rsum xsum \<lparr>ci_state = ResolvedIndex rs, ci_locals = ls\<rparr>"
  shows "concat (map item_index items) = rs \<and> mset (concat (map item_locals items)) = mset (map snd ls)"
  using assms
proof (induction rs arbitrary: ls items)
  case Nil
  then show ?case
    by (simp add: combined_drain_index_Nil dangling_items del: map_map concat_eq_Nil_conv)
next
  case (Cons r rs)
  obtain item ls' where i: "combined_index_item xsum r ls = (item, ls')"
    and items: "items = item # combined_drain rsum xsum \<lparr>ci_state = ResolvedIndex rs, ci_locals = ls'\<rparr>"
    using Cons.prems(2) unfolding combined_drain_index_Cons by (auto split: prod.splits)
  note f = combined_index_item_facts [OF Cons.prems(1) i]
  then show ?case using Cons.IH [OF f(3) refl] by (simp add: items)
qed

lemma collect_locals_distinct:
  assumes "collect_locals lsum l uri = Ok (b, ls)"
  shows "distinct (keys ls)"
proof -
  have d: "distinct (keys al) \<Longrightarrow> distinct (keys (foldl (insert_local lsum) al ps))" for al ps
  proof (induction ps arbitrary: al)
    case (Cons p ps)
    have "distinct (keys (insert_local lsum al p))"
      using Cons.prems by (auto simp: insert_local_def distinct_update split: result.splits option.splits)
    then show ?case using Cons.IH by simp
  qed simp
  show ?thesis
  proof (cases l)
    case (Some r)
    then obtain out where "r uri = Ok out" using assms by (auto simp: collect_locals_def)
    then show ?thesis
      using assms Some d [of "[]"] by (cases out) (auto simp: collect_locals_def rev_map [symmetric])
  qed (use assms in \<open>simp add: collect_locals_def\<close>)
qed

text \<open>The state the combined iterator starts in.\<close>

lemma combined_file_Some:
  assumes "combined_file f uri = Ok (Some (Resolved ps))"
  shows "\<exists>f'. f = Some f' \<and> f' uri = Ok (Resolved ps)"
proof -
  obtain f' out where "f = Some f'" "f' uri = Ok out"
    using assms by (cases f) (auto simp: combined_file_def)
  then show ?thesis using assms by (cases out) (auto simp: combined_file_def)
qed

lemma combined_remote_nonempty:
  assumes "combined_remote bad RP r uri = Ok (b, rs)" and "rs \<noteq> []"
  shows "\<exists>r' ps. r = Some r' \<and> r' uri = Ok (Resolved ps) \<and> rs = skip_invalid bad RP ps"
proof -
  obtain r' out where "r = Some r'" "r' uri = Ok out"
    using assms by (cases r) (auto simp: combined_remote_def)
  then show ?thesis using assms by (cases out) (auto simp: combined_remote_def)
qed

lemma combined_index_Some:
  assumes "combined_index x uri = Ok (b, Some xs)"
  shows "\<exists>x'. x = Some x' \<and> x' uri = Ok (Resolved xs)"
proof -
  obtain x' out where "x = Some x'" "x' uri = Ok out"
    using assms by (cases x) (auto simp: combined_index_def)
  then show ?thesis using assms by (cases out) (auto simp: combined_index_def)
qed

lemma combined_resolve_iter_start:
  assumes "combined_resolve_iter lsum bad RP f l r x uri
      = (Ok (Resolved it) :: (_, ('fe, 'le, 're, 'xe) CombinedResolverError) result)"
  shows "(\<exists>f' ps. f = Some f' \<and> f' uri = Ok (Resolved ps) \<and> ci_state it = ResolvedFile ps)
    \<or> (\<exists>r' ps. r = Some r' \<and> r' uri = Ok (Resolved ps) \<and> skip_invalid bad RP ps \<noteq> []
        \<and> ci_state it = ResolvedRemoteState (skip_invalid bad RP ps))
    \<or> (\<exists>x' xs. x = Some x' \<and> x' uri = Ok (Resolved xs) \<and> ci_state it = ResolvedIndex xs)
    \<or> ci_state it = Done \<and> ci_locals it \<noteq> []"
proof -
  obtain early where early: "combined_file f uri = (Ok early :: (_, ('fe, 'le, 're, 'xe) CombinedResolverError) result)"
    using assms unfolding combined_resolve_iter_def by (auto simp: and_then_eq_Ok)
  show ?thesis
  proof (cases early)
    case (Some out)
    then show ?thesis
      using assms early combined_file_Some by (cases out) (fastforce simp: combined_resolve_iter_def)+
  next
    case None
    obtain b locals where l: "collect_locals lsum l uri = (Ok (b, locals) :: (_, ('fe, 'le, 're, 'xe) CombinedResolverError) result)"
      using assms early None unfolding combined_resolve_iter_def by (auto simp: and_then_eq_Ok)
    obtain c rs where r: "combined_remote bad RP r uri = (Ok (c, rs) :: (_, ('fe, 'le, 're, 'xe) CombinedResolverError) result)"
      using assms early None l unfolding combined_resolve_iter_def by (auto simp: and_then_eq_Ok)
    show ?thesis
    proof (cases "rs = []")
      case False
      then have "ci_state it = ResolvedRemoteState rs"
        using assms early None l r by (auto simp: combined_resolve_iter_def)
      then show ?thesis using combined_remote_nonempty [OF r False] False by blast
    next
      case True
      obtain d xs where x: "combined_index x uri = (Ok (d, xs) :: (_, ('fe, 'le, 're, 'xe) CombinedResolverError) result)"
        using assms early None l r True unfolding combined_resolve_iter_def by (auto simp: and_then_eq_Ok)
      show ?thesis
      proof (cases xs)
        case (Some ys)
        then have "ci_state it = ResolvedIndex ys"
          using assms early None l r True x by (auto simp: combined_resolve_iter_def)
        then show ?thesis using combined_index_Some [OF x [unfolded Some]] by blast
      next
        case xs: None
        then have "ci_state it = Done \<and> ci_locals it \<noteq> []"
          using assms early None l r True x by (auto simp: combined_resolve_iter_def split: if_splits)
        then show ?thesis by blast
      qed
    qed
  qed
qed

definition starts_nonempty :: "('f, 'fe, 'l, 'r, 're, 'x, 'xe) CombinedIterator \<Rightarrow> bool" where
  "starts_nonempty it \<longleftrightarrow>
    ci_state it \<noteq> ResolvedFile [] \<and> ci_state it \<noteq> ResolvedRemoteState [] \<and> ci_state it \<noteq> ResolvedIndex []
    \<and> (ci_state it = Done \<longrightarrow> ci_locals it \<noteq> [])"

section \<open>The contract of a resolution\<close>

text \<open>A resolution that succeeds has at least one item, as the documentation of \<open>ResolutionOutcome\<close>
  requires.\<close>

locale resolver_contract =
  fixes resolve :: "('i, 'p, 'e) resolver"
  assumes resolved_nonempty: "resolve uri = Ok (Resolved ps) \<Longrightarrow> ps \<noteq> []"

interpretation env_resolver: resolver_contract "env_resolve str E s" for str E s
  by unfold_locales (auto simp: env_resolve_def Let_def split: if_splits)

interpretation null_resolver: resolver_contract null_resolve
  by unfold_locales (simp add: null_resolve_def)

locale resolver_pair = hi: resolver_contract higher + lo: resolver_contract lower
  for higher :: "('i, 'h, 'he) resolver" and lower :: "('i, 'l, 'le) resolver"
begin

lemma priority_nonempty:
  assumes "priority_resolve higher lower uri = Ok (Resolved ps)"
  shows "ps \<noteq> []"
proof -
  obtain out where out: "higher uri = Ok out"
    using assms by (auto simp: priority_resolve_def and_then_eq_Ok)
  show ?thesis
  proof (cases "\<exists>r. out = Resolved r")
    case True
    then show ?thesis using assms out hi.resolved_nonempty by (auto simp: priority_resolve_def)
  next
    case False
    then obtain out' where "lower uri = Ok out'" "outcome_map (map priority_lower) out' = Resolved ps"
      using assms out by (cases out) (auto simp: priority_resolve_def)
    then show ?thesis using lo.resolved_nonempty by (cases out') auto
  qed
qed

lemma combined_file_index_nonempty:
  assumes "combined_resolve_iter lsum bad RP (Some higher) l r (Some lower) uri = Ok (Resolved it)"
  shows "starts_nonempty it"
  using combined_resolve_iter_start [OF assms]
  by (auto simp: starts_nonempty_def dest: hi.resolved_nonempty lo.resolved_nonempty)

end

sublocale resolver_pair \<subseteq> pair: resolver_contract "priority_resolve higher lower"
  by unfold_locales (rule priority_nonempty)

lemma combined_drain_nonempty:
  assumes "starts_nonempty it"
  shows "combined_drain rsum xsum it \<noteq> []"
proof -
  have "combined_next rsum xsum it \<noteq> None"
    using assms
    by (cases "ci_state it")
      (auto simp: starts_nonempty_def combined_next_def combined_pop_def neq_Nil_conv split: prod.splits)
  then show ?thesis by (subst combined_drain.simps) (auto split: option.splits)
qed

text \<open>The list a resolver answers with, if it resolves the IRI.\<close>

definition resolved_by :: "('i, 'p, 'e) resolver option \<Rightarrow> 'i \<Rightarrow> ('p, 'e) result list option" where
  "resolved_by resolver uri =
    (case resolver of
       None \<Rightarrow> None
     | Some r \<Rightarrow> (case r uri of Ok out \<Rightarrow> resolved_part out | Err e \<Rightarrow> None))"

text \<open>The projects of a list that have a checksum, and of each checksum the last project with it.\<close>

definition checksums_of :: "('l \<Rightarrow> (string option, 'c) result) \<Rightarrow> ('l, 'le) result list \<Rightarrow> string list" where
  "checksums_of lsum ps =
    List.map_filter (\<lambda>p. case p of Ok q \<Rightarrow> (case lsum q of Ok c \<Rightarrow> c | Err e \<Rightarrow> None) | Err e \<Rightarrow> None) ps"

definition with_checksum :: "('l \<Rightarrow> (string option, 'c) result) \<Rightarrow> ('l, 'le) result list \<Rightarrow> string \<Rightarrow> 'l list" where
  "with_checksum lsum ps c =
    List.map_filter (\<lambda>p. case p of Ok q \<Rightarrow> (case lsum q of Ok d \<Rightarrow> (if d = Some c then Some q else None) | Err e \<Rightarrow> None)
      | Err e \<Rightarrow> None) ps"

definition latest_by_checksum :: "('l \<Rightarrow> (string option, 'c) result) \<Rightarrow> ('l, 'le) result list \<Rightarrow> 'l list" where
  "latest_by_checksum lsum ps = map (\<lambda>c. last (with_checksum lsum ps c)) (remdups (checksums_of lsum ps))"

fun cache_matches ::
  "('l \<Rightarrow> (string option, 'lc) result) \<Rightarrow> ('r \<Rightarrow> (string option, 'c) result) \<Rightarrow> ('x \<Rightarrow> (string option, 'd) result)
   \<Rightarrow> (('f, 'l, 'r, 'x) CombinedProjectStorage, 'e) result \<Rightarrow> bool" where
  "cache_matches lsum rsum xsum (Ok (CachedRemoteProject l r)) \<longleftrightarrow>
    (case (lsum l, rsum r) of (Ok (Some c), Ok (Some d)) \<Rightarrow> c = d | _ \<Rightarrow> False)"
| "cache_matches lsum rsum xsum (Ok (CachedIndexProject l x)) \<longleftrightarrow>
    (case (lsum l, xsum x) of (Ok (Some c), Ok (Some d)) \<Rightarrow> c = d | _ \<Rightarrow> False)"
| "cache_matches lsum rsum xsum _ \<longleftrightarrow> True"

definition keyed :: "('l \<Rightarrow> (string option, 'c) result) \<Rightarrow> (string \<times> 'l) list \<Rightarrow> bool" where
  "keyed lsum ls \<longleftrightarrow> (\<forall>(k, l) \<in> set ls. lsum l = Ok (Some k))"

lemma set_delete_sub: "set (AList.delete k al) \<subseteq> set al"
  by (auto simp: AList.delete_eq)

lemma set_update_sub: "set (AList.update k v al) \<subseteq> insert (k, v) (set al)"
  by (induction al) auto

lemma keyed_take:
  assumes "keyed lsum ls" and "take_cached checksum_hex p ls = (c, ls')"
  shows "keyed lsum ls'" and "c = Some l \<Longrightarrow> (\<exists>k. lsum l = Ok (Some k) \<and> checksum_hex p = Ok (Some k))"
  using assms set_delete_sub [of _ ls]
  by (fastforce simp: take_cached_def keyed_def dest: map_of_SomeD split: result.splits option.splits)+

lemma remote_item_matches:
  assumes "keyed lsum ls" and "combined_remote_item rsum r ls = (item, ls')"
  shows "cache_matches lsum rsum xsum item" and "keyed lsum ls'" and "item_index item = []"
  using assms keyed_take [OF assms(1)]
  by (fastforce simp: combined_remote_item_def split: result.splits option.splits prod.splits)+

lemma index_item_matches:
  assumes "keyed lsum ls" and "combined_index_item xsum r ls = (item, ls')"
  shows "cache_matches lsum rsum xsum item" and "keyed lsum ls'" and "item_remote item = []"
  using assms keyed_take [OF assms(1)]
  by (fastforce simp: combined_index_item_def split: result.splits option.splits prod.splits)+

lemma dangling_matches:
  "list_all (cache_matches lsum rsum xsum) (map (\<lambda>(k, l). Ok (DanglingLocalProject l)) (rev ls))"
  by (simp add: list_all_iff case_prod_beta)

lemma drain_remote_matches:
  assumes "keyed lsum ls"
    and "items = combined_drain rsum xsum \<lparr>ci_state = ResolvedRemoteState rs, ci_locals = ls\<rparr>"
  shows "list_all (cache_matches lsum rsum xsum) items \<and> concat (map item_index items) = []"
  using assms
proof (induction rs arbitrary: ls items)
  case Nil
  then show ?case
    by (simp add: combined_drain_remote_Nil dangling_items dangling_matches del: map_map concat_eq_Nil_conv)
next
  case (Cons r rs)
  obtain item ls' where i: "combined_remote_item rsum r ls = (item, ls')"
    and items: "items = item # combined_drain rsum xsum \<lparr>ci_state = ResolvedRemoteState rs, ci_locals = ls'\<rparr>"
    using Cons.prems(2) unfolding combined_drain_remote_Cons by (auto split: prod.splits)
  note f = remote_item_matches [OF Cons.prems(1) i]
  then show ?case using Cons.IH [OF f(2) refl] by (simp add: items)
qed

lemma drain_index_matches:
  assumes "keyed lsum ls"
    and "items = combined_drain rsum xsum \<lparr>ci_state = ResolvedIndex rs, ci_locals = ls\<rparr>"
  shows "list_all (cache_matches lsum rsum xsum) items \<and> concat (map item_remote items) = []"
  using assms
proof (induction rs arbitrary: ls items)
  case Nil
  then show ?case
    by (simp add: combined_drain_index_Nil dangling_items dangling_matches del: map_map concat_eq_Nil_conv)
next
  case (Cons r rs)
  obtain item ls' where i: "combined_index_item xsum r ls = (item, ls')"
    and items: "items = item # combined_drain rsum xsum \<lparr>ci_state = ResolvedIndex rs, ci_locals = ls'\<rparr>"
    using Cons.prems(2) unfolding combined_drain_index_Cons by (auto split: prod.splits)
  note f = index_item_matches [OF Cons.prems(1) i]
  then show ?case using Cons.IH [OF f(2) refl] by (simp add: items)
qed

lemma insert_local_fold:
  shows "keyed lsum (foldl (insert_local lsum) [] ps)" (is ?k)
    and "distinct (keys (foldl (insert_local lsum) [] ps))" (is ?d)
    and "set (keys (foldl (insert_local lsum) [] ps)) = set (checksums_of lsum ps)" (is ?s)
    and "c \<in> set (checksums_of lsum ps) \<Longrightarrow>
      map_of (foldl (insert_local lsum) [] ps) c = Some (last (with_checksum lsum ps c))"
proof -
  have "?k \<and> ?d \<and> ?s \<and> (\<forall>c \<in> set (checksums_of lsum ps).
      map_of (foldl (insert_local lsum) [] ps) c = Some (last (with_checksum lsum ps c)))"
  proof (induction ps rule: rev_induct)
    case Nil
    then show ?case by (simp add: keyed_def checksums_of_def map_filter_simps)
  next
    case (snoc p ps)
    let ?al = "foldl (insert_local lsum) [] ps"
    show ?case
    proof (cases "\<exists>q k. p = Ok q \<and> lsum q = Ok (Some k)")
      case True
      then obtain q k where q: "p = Ok q" "lsum q = Ok (Some k)" by blast
      have new: "insert_local lsum ?al p = AList.update k q ?al"
        "checksums_of lsum (ps @ [p]) = checksums_of lsum ps @ [k]"
        "with_checksum lsum (ps @ [p]) c = with_checksum lsum ps c @ (if c = k then [q] else [])" for c
        using q by (simp_all add: insert_local_def checksums_of_def with_checksum_def List.map_filter_def)
      have "keyed lsum (AList.update k q ?al)"
        using snoc.IH q(2) set_update_sub [of k q ?al] by (auto simp: keyed_def)
      moreover have "set (keys (AList.update k q ?al)) = insert k (set (keys ?al))"
        by (simp add: update_keys insert_absorb)
      ultimately show ?thesis using snoc.IH by (auto simp: new distinct_update update_conv')
    next
      case False
      then have "insert_local lsum ?al p = ?al"
        "checksums_of lsum (ps @ [p]) = checksums_of lsum ps"
        "with_checksum lsum (ps @ [p]) c = with_checksum lsum ps c" for c
        by (auto simp: insert_local_def checksums_of_def with_checksum_def List.map_filter_def
            split: result.splits option.splits)
      then show ?thesis using snoc.IH by simp
    qed
  qed
  then show ?k ?d ?s "c \<in> set (checksums_of lsum ps) \<Longrightarrow>
      map_of (foldl (insert_local lsum) [] ps) c = Some (last (with_checksum lsum ps c))" by auto
qed

lemma mset_map_snd:
  assumes "distinct (keys al)"
  shows "mset (map snd al) = image_mset (\<lambda>k. the (map_of al k)) (mset (keys al))"
  using assms by (induction al) (auto intro!: image_mset_cong)

lemma latest_by_checksum_fold:
  "mset (map snd (foldl (insert_local lsum) [] ps)) = mset (latest_by_checksum lsum ps)"
proof -
  let ?al = "foldl (insert_local lsum) [] ps"
  have "mset (keys ?al) = mset (remdups (checksums_of lsum ps))"
    using insert_local_fold(3) [of lsum ps]
    by (intro iffD1 [OF set_eq_iff_mset_eq_distinct]) (simp_all add: insert_local_fold(2))
  then have "mset (map snd ?al) = image_mset (\<lambda>k. the (map_of ?al k)) (mset (remdups (checksums_of lsum ps)))"
    using mset_map_snd [OF insert_local_fold(2)] by metis
  also have "\<dots> = image_mset (\<lambda>k. last (with_checksum lsum ps k)) (mset (remdups (checksums_of lsum ps)))"
    by (rule image_mset_cong) (simp add: insert_local_fold(4))
  finally show ?thesis by (simp add: latest_by_checksum_def)
qed

lemma collect_locals_latest:
  assumes "collect_locals lsum l uri = Ok (b, ls)"
  shows "mset (map snd ls) = mset (latest_by_checksum lsum (or_nil (resolved_by l uri)))"
    and "keyed lsum ls" and "distinct (keys ls)"
proof -
  have nil: "latest_by_checksum lsum [] = []"
    by (simp add: latest_by_checksum_def checksums_of_def map_filter_simps)
  have k: "keyed lsum (rev al) = keyed lsum al" for al by (simp add: keyed_def)
  have "mset (map snd ls) = mset (latest_by_checksum lsum (or_nil (resolved_by l uri))) \<and> keyed lsum ls"
  proof (cases l)
    case None
    then show ?thesis using assms by (simp add: collect_locals_def resolved_by_def or_nil_def nil keyed_def)
  next
    case (Some r)
    then obtain out where "r uri = Ok out" using assms by (auto simp: collect_locals_def)
    then show ?thesis
      using assms Some
      by (cases out) (auto simp: collect_locals_def resolved_by_def or_nil_def nil keyed_def [of lsum "[]"] k
          rev_map [symmetric] latest_by_checksum_fold [symmetric] insert_local_fold(1))
  qed
  then show "mset (map snd ls) = mset (latest_by_checksum lsum (or_nil (resolved_by l uri)))" "keyed lsum ls" by auto
  show "distinct (keys ls)" by (rule collect_locals_distinct [OF assms])
qed

lemma skip_invalid_dropWhile: "skip_invalid bad RP rs = dropWhile (\<lambda>r. \<not> nominally_valid bad RP r) rs"
  by (induction rs) auto

lemma combined_file_resolved:
  assumes "combined_file f uri = Ok early"
  shows "resolved_by f uri = (case early of Some (Resolved ps) \<Rightarrow> Some ps | _ \<Rightarrow> None)"
proof (cases f)
  case (Some g)
  then obtain out where "g uri = Ok out" using assms by (auto simp: combined_file_def)
  then show ?thesis using assms Some by (cases out) (auto simp: combined_file_def resolved_by_def)
qed (use assms in \<open>simp add: combined_file_def resolved_by_def\<close>)

lemma combined_remote_resolved:
  assumes "combined_remote bad RP r uri = Ok (b, rs)"
  shows "rs = dropWhile (\<lambda>r. \<not> nominally_valid bad RP r) (or_nil (resolved_by r uri))"
proof (cases r)
  case (Some g)
  then obtain out where "g uri = Ok out" using assms by (auto simp: combined_remote_def)
  then show ?thesis using assms Some
    by (cases out) (auto simp: combined_remote_def resolved_by_def or_nil_def skip_invalid_dropWhile)
qed (use assms in \<open>simp add: combined_remote_def resolved_by_def or_nil_def\<close>)

lemma combined_index_resolved:
  assumes "combined_index x uri = Ok (b, xs)"
  shows "xs = resolved_by x uri"
proof (cases x)
  case (Some g)
  then obtain out where "g uri = Ok out" using assms by (auto simp: combined_index_def)
  then show ?thesis using assms Some by (cases out) (auto simp: combined_index_def resolved_by_def)
qed (use assms in \<open>simp add: combined_index_def resolved_by_def\<close>)

text \<open>The state the combined iterator starts in, from the answers of the resolvers.\<close>

lemma combined_resolve_iter_cases:
  fixes f :: "('i, 'f, 'fe) resolver option" and l :: "('i, 'l, 'le) resolver option"
    and r :: "('i, 'r, 're) resolver option" and x :: "('i, 'x, 'xe) resolver option"
  assumes run: "combined_resolve_iter lsum bad RP f l r x uri = Ok (Resolved it)"
    and rs: "rs = dropWhile (\<lambda>r. \<not> nominally_valid bad RP r) (or_nil (resolved_by r uri))"
  shows "(\<exists>fs. resolved_by f uri = Some fs \<and> ci_state it = ResolvedFile fs)
    \<or> resolved_by f uri = None
      \<and> (\<exists>b. collect_locals lsum l uri = (Ok (b, ci_locals it) :: (_, ('fe, 'le, 're, 'xe) CombinedResolverError) result))
      \<and> ci_state it = (if rs \<noteq> [] then ResolvedRemoteState rs
          else (case resolved_by x uri of Some xs \<Rightarrow> ResolvedIndex xs | None \<Rightarrow> Done))"
proof -
  obtain early where early: "combined_file f uri = (Ok early :: (_, ('fe, 'le, 're, 'xe) CombinedResolverError) result)"
    using run unfolding combined_resolve_iter_def by (auto simp: and_then_eq_Ok)
  note f = combined_file_resolved [OF early]
  show ?thesis
  proof (cases early)
    case (Some out)
    then show ?thesis using run early f by (cases out) (auto simp: combined_resolve_iter_def)
  next
    case None
    obtain b locals where l: "collect_locals lsum l uri = (Ok (b, locals) :: (_, ('fe, 'le, 're, 'xe) CombinedResolverError) result)"
      using run early None unfolding combined_resolve_iter_def by (auto simp: and_then_eq_Ok)
    obtain c where r: "combined_remote bad RP r uri = (Ok (c, rs) :: (_, ('fe, 'le, 're, 'xe) CombinedResolverError) result)"
      using run early None l combined_remote_resolved rs unfolding combined_resolve_iter_def
      by (fastforce simp: and_then_eq_Ok)
    show ?thesis
    proof (cases "rs = []")
      case False
      then show ?thesis using run early None l r f by (auto simp: combined_resolve_iter_def)
    next
      case True
      obtain d where x: "combined_index x uri = (Ok (d, resolved_by x uri) :: (_, ('fe, 'le, 're, 'xe) CombinedResolverError) result)"
        using run early None l r True combined_index_resolved unfolding combined_resolve_iter_def
        by (fastforce simp: and_then_eq_Ok)
      then show ?thesis
        using run early None l r f True by (auto simp: combined_resolve_iter_def split: option.splits if_splits)
    qed
  qed
qed

section \<open>Properties\<close>


text \<open>Evidence that the hypotheses hold: two remote projects, one of them cached, and one dangling
  local project.\<close>

definition sample_sum :: "nat \<Rightarrow> (string option, unit) result" where
  "sample_sum n = (if n = 0 then Ok None else Ok (Some (replicate n (CHR ''a''))))"

definition sample_read :: "(nat, unit) ProjectRead" where
  "sample_read = \<lparr>get_project = (\<lambda>p. Ok (Some sample_raw_info, Some sample_raw_meta)), read_source = (\<lambda>p path. Err ())\<rparr>"

definition sample_remote :: "(nat, nat, unit) resolver" where
  "sample_remote uri = Ok (Resolved [Err (), Ok 0, Ok 2, Err ()])"

definition sample_local :: "(nat, nat, unit) resolver" where
  "sample_local uri = Ok (Resolved [Ok 1, Ok 2, Ok 1])"

definition sample_combined ::
  "((nat, unit, nat, nat, unit, nat, unit) CombinedIterator ResolutionOutcome,
    (unit, unit, unit, unit) CombinedResolverError) result" where
  "sample_combined = combined_resolve_iter sample_sum (\<lambda>r. False) sample_read
    (Some null_resolve) (Some sample_local) (Some sample_remote) (Some null_resolve) 5"

definition sample_iterator :: "(nat, unit, nat, nat, unit, nat, unit) CombinedIterator" where
  "sample_iterator = \<lparr>ci_state = ResolvedRemoteState [Ok 0, Ok 2, Err ()], ci_locals = [(''aa'', 2), (''a'', 1)]\<rparr>"

lemma sample_combined_Resolved: "sample_combined = Ok (Resolved sample_iterator)"
  by code_simp

definition sample_items ::
  "((nat, nat, nat, nat) CombinedProjectStorage, (unit, unit, unit, unit) CombinedResolverError) result list" where
  "sample_items = combined_drain sample_sum sample_sum sample_iterator"


text \<open>Only the invalid projects before the first valid one are discarded: in the sample, the error after
  the valid projects is yielded.\<close>

lemma later_invalid_remote_kept:
  "\<not> nominally_valid (\<lambda>r. False) sample_read (Err () :: (nat, unit) result) \<and> Err (RemoteErr ()) \<in> set sample_items"
  by code_simp

text \<open>If the file resolver and the index resolver never resolve an IRI to no project, then neither
  does the combined resolver: whenever it reports the IRI resolved, its iterator yields at least one
  item, whatever the local and remote resolvers do.\<close>

theorem combined_resolver_nonempty:
  assumes "\<And>u ps. f u = Ok (Resolved ps) \<Longrightarrow> ps \<noteq> []" and "\<And>u ps. x u = Ok (Resolved ps) \<Longrightarrow> ps \<noteq> []"
    and "combined_resolve_iter lsum bad RP (Some f) l r (Some x) uri = Ok (Resolved it)"
  shows "combined_drain rsum xsum it \<noteq> []"
proof -
  have "resolver_pair f x" 
    using assms(1,2) by (intro resolver_pair.intro resolver_contract.intro)
  then show ?thesis
    by (intro combined_drain_nonempty resolver_pair.combined_file_index_nonempty [OF _ assms(3)])
qed

theorem combined_resolver_nonempty_witness:
  "combined_drain sample_sum sample_sum sample_iterator \<noteq> []"
  by (rule combined_resolver_nonempty [OF _ _ sample_combined_Resolved [unfolded sample_combined_def]])
    (simp_all add: null_resolve_def)

section \<open>Sequential and remote resolution\<close>

fun outcome_msg :: "'a ResolutionOutcome \<Rightarrow> string option" where
  "outcome_msg (Resolved _) = None"
| "outcome_msg (UnsupportedIRIType m) = Some m"
| "outcome_msg (Unresolvable m) = Some m"

fun supported :: "'a ResolutionOutcome \<Rightarrow> bool" where
  "supported (UnsupportedIRIType _) = False"
| "supported _ = True"

lemma sequential_fold:
  assumes "list_all2 (\<lambda>r out. r uri = Ok out) rs outs"
  shows "fold_res (sequential_step uri) st rs =
    Ok \<lparr>sq_iters = sq_iters st @ List.map_filter resolved_part outs,
        sq_any_supported = (sq_any_supported st \<or> list_ex supported outs),
        sq_msgs = sq_msgs st @ List.map_filter outcome_msg outs\<rparr>"
  using assms
proof (induction arbitrary: st rule: list_all2_induct)
  case Nil
  then show ?case by (simp add: map_filter_simps)
next
  case (Cons r rs out outs)
  then show ?case by (cases out) (simp_all add: sequential_step_def map_filter_simps)
qed

text \<open>The sequential resolver asks its resolvers in order. When none of them fails, the IRI resolves
  to the concatenation of all resolved lists in that order; with no resolved list it is unresolvable if
  some resolver supports the IRI and unsupported otherwise, with the messages of all resolvers in
  order. The first resolver that fails is the failure of the whole.\<close>

theorem sequential_resolve_spec:
  assumes "list_all2 (\<lambda>r out. r uri = Ok out) rs outs"
  shows "sequential_resolve fmt rs uri =
      Ok (if list_ex (\<lambda>out. resolved_part out \<noteq> None) outs then Resolved (concat (List.map_filter resolved_part outs))
          else if list_ex supported outs
          then Unresolvable (''unresolvable: '' @ fmt (List.map_filter outcome_msg outs))
          else UnsupportedIRIType (''unsupported IRI: '' @ fmt (List.map_filter outcome_msg outs)))
    \<and> (r uri = Err e \<longrightarrow> sequential_resolve fmt (rs @ r # rs') uri = Err e)"
proof -
  have "(List.map_filter resolved_part outs \<noteq> []) = list_ex (\<lambda>out. resolved_part out \<noteq> None) outs"
    by (induction outs) (auto simp: map_filter_simps split: option.splits)
  then show ?thesis
    using sequential_fold [OF assms]
    by (simp add: sequential_resolve_def fold_res_append sequential_step_def)
qed

theorem sequential_resolve_spec_witness:
  "sequential_resolve (\<lambda>ms. concat ms) [null_resolve, sample_remote, sample_local] 5
    = Ok (Resolved [Err (), Ok 0, Ok 2, Err (), Ok 1, Ok 2, Ok 1])"
  using conjunct1 [OF sequential_resolve_spec
      [where uri = 5 and rs = "[null_resolve, sample_remote, sample_local]" and fmt = "\<lambda>ms. concat ms"
        and outs = "[UnsupportedIRIType ''null resolver'', Resolved [Err (), Ok 0, Ok 2, Err ()], Resolved [Ok 1, Ok 2, Ok 1]]"]]
  by (simp add: null_resolve_def sample_remote_def sample_local_def map_filter_simps)

text \<open>When neither the HTTP nor the git resolver fails, the remote resolver always reports the IRI
  resolved, also when both report it unsupported or unresolvable; the list of projects is then empty.
  The projects of the preferred kind come first, each list in the order of its resolver.\<close>

theorem remote_resolve_spec:
  assumes "h uri = Ok hout" and "g uri = Ok gout"
  shows "remote_resolve (Some h) (Some g) p uri = Ok (Resolved (case p of
        PreferGit \<Rightarrow> map git_item (or_nil (resolved_part gout)) @ map http_item (or_nil (resolved_part hout))
      | PreferHTTP \<Rightarrow> map http_item (or_nil (resolved_part hout)) @ map git_item (or_nil (resolved_part gout))))
    \<and> (resolved_part hout = None \<and> resolved_part gout = None \<longrightarrow> remote_resolve (Some h) (Some g) p uri = Ok (Resolved []))"
  using assms
  by (auto simp: remote_resolve_def remote_resolve_iter_def resolve_part_def remote_drain_order or_nil_def
      split: RemotePriority.splits)

theorem remote_resolve_spec_witness:
  "remote_resolve (Some sample_remote) (Some sample_local) PreferGit 5 =
    Ok (Resolved [git_item (Ok 1), git_item (Ok 2), git_item (Ok 1),
      http_item (Err ()), http_item (Ok 0), http_item (Ok 2), http_item (Err ())])
   \<and> remote_resolve (Some (null_resolve :: (nat, nat, unit) resolver)) (Some (null_resolve :: (nat, nat, unit) resolver))
       PreferGit 5 = Ok (Resolved [])"
  using remote_resolve_spec [where h = sample_remote and g = sample_local and uri = 5 and p = PreferGit,
      OF sample_remote_def sample_local_def]
    remote_resolve_spec [where h = null_resolve and g = null_resolve and uri = 5 and p = PreferGit,
      OF null_resolve_def null_resolve_def]
  by (simp add: or_nil_def)

end
