(* ===== verification/Solver.thy ===== *)
theory Solver
  imports Resolve "HOL-Library.Word"
begin

text \<open>
  The dependency solver, \<^verbatim>\<open>core/src/solve/pubgrub.rs\<close>: sets of alternatives, the
  cache of candidates, the dependency provider handed to the PubGrub algorithm and the
  extraction of its solution. The algorithm itself (\<^verbatim>\<open>pubgrub::resolve\<close>), its
  constraint map, its derivation trees and the standard library's unstable sort are
  parameters. The \<^verbatim>\<open>RefCell\<close> of the solver is a cache passed along explicitly; an
  early return keeps the cache as it is at that point. A panic of the source is a value:
  a constructor of the error for the index \<^verbatim>\<open>found_versions[0]\<close>, and of the outcome
  for the two in \<^verbatim>\<open>solve\<close>. Log messages are left out.
\<close>

section \<open>Packages and sets of alternatives\<close>

datatype ('iri, 'req) DependencyIdentifier =
    Requested "('iri, 'req) InterchangeProjectUsageG list"
  | RemoteIri 'iri

text \<open>A set of alternatives of a package. The index type of the source is \<^verbatim>\<open>usize\<close>; the type is
  a parameter here, so that the laws can be stated for machine words while the solver below counts
  positions of a list, which are never beyond the range of a machine word.\<close>

type_synonym usize = "64 word"

datatype 'v DiscreteHashSet = Finite "'v set" | CoFinite "'v set"

definition vs_empty :: "'v DiscreteHashSet" where
  "vs_empty = Finite {}"

definition vs_singleton :: "'v \<Rightarrow> 'v DiscreteHashSet" where
  "vs_singleton v = Finite {v}"

fun vs_complement :: "'v DiscreteHashSet \<Rightarrow> 'v DiscreteHashSet" where
  "vs_complement (Finite hash_set) = CoFinite hash_set"
| "vs_complement (CoFinite hash_set) = Finite hash_set"

fun vs_intersection :: "'v DiscreteHashSet \<Rightarrow> 'v DiscreteHashSet \<Rightarrow> 'v DiscreteHashSet" where
  "vs_intersection (Finite hash_set) (Finite other) = Finite (hash_set \<inter> other)"
| "vs_intersection (Finite hash_set) (CoFinite other) = Finite (hash_set - other)"
| "vs_intersection (CoFinite hash_set) (Finite other) = Finite (other - hash_set)"
| "vs_intersection (CoFinite hash_set) (CoFinite other) = CoFinite (hash_set \<union> other)"

fun vs_contains :: "'v DiscreteHashSet \<Rightarrow> 'v \<Rightarrow> bool" where
  "vs_contains (Finite hash_set) v \<longleftrightarrow> v \<in> hash_set"
| "vs_contains (CoFinite hash_set) v \<longleftrightarrow> v \<notin> hash_set"

text \<open>The number of entries in the hash set inside, and the same set under another numbering.\<close>

fun vs_card :: "'v DiscreteHashSet \<Rightarrow> nat" where
  "vs_card (Finite hash_set) = card hash_set"
| "vs_card (CoFinite hash_set) = card hash_set"

fun vs_image :: "('v \<Rightarrow> 'w) \<Rightarrow> 'v DiscreteHashSet \<Rightarrow> 'w DiscreteHashSet" where
  "vs_image f (Finite hash_set) = Finite (f ` hash_set)"
| "vs_image f (CoFinite hash_set) = CoFinite (f ` hash_set)"

section \<open>Candidates\<close>

record ('iri, 'ver, 'req) CandidateSummary =
  cs_version :: 'ver
  cs_usage :: "('iri, 'req) InterchangeProjectUsageG list"

record ('iri, 'ver, 'req, 'p) Candidate =
  c_summary :: "('iri, 'ver, 'req) CandidateSummary"
  c_project :: 'p

type_synonym ('iri, 'ver, 'req, 'p) CandidateMap = "('iri \<times> ('iri, 'ver, 'req, 'p) Candidate list) list"

datatype 're InternalSolverError =
    Resolution 're
  | NotFound string string
  | NoValidCandidates string
  | UnsupportedIriType string
  | VersionNotAvailable string
  | FoundVersionsPanic

type_synonym ('a, 're, 's) cached = "'s \<Rightarrow> ('a, 're InternalSolverError) result \<times> 's"

definition cbind :: "('a, 're, 's) cached \<Rightarrow> ('a \<Rightarrow> ('b, 're, 's) cached) \<Rightarrow> ('b, 're, 's) cached" where
  "cbind m f s = (case m s of (Ok a, s') \<Rightarrow> f a s' | (Err e, s') \<Rightarrow> (Err e, s'))"

text \<open>An alternative that is an error, or whose version or usages are missing or invalid, is skipped.\<close>

definition candidate_of ::
  "('iri, 'ver, 'req, 'time) externs \<Rightarrow> ('p, 'pe) ProjectRead \<Rightarrow> ('p, 're) result
   \<Rightarrow> ('iri, 'ver, 'req, 'p) Candidate option" where
  "candidate_of E PR alternative =
    (case alternative of
       Err e \<Rightarrow> None
     | Ok project \<Rightarrow>
         (case project_version PR project of
            Ok (Some version) \<Rightarrow>
              (case ver_parse E version of
                 Err e \<Rightarrow> None
               | Ok v \<Rightarrow>
                   (case project_usage PR project of
                      Ok (Some usage) \<Rightarrow>
                        (case collect_res (validate_usage E) usage of
                           Ok us \<Rightarrow> Some \<lparr>c_summary = \<lparr>cs_version = v, cs_usage = us\<rparr>, c_project = project\<rparr>
                         | Err e \<Rightarrow> None)
                    | Ok None \<Rightarrow> None
                    | Err e \<Rightarrow> None))
          | Ok None \<Rightarrow> None
          | Err e \<Rightarrow> None))"

text \<open>The candidates found for an IRI that is not in the cache.\<close>

definition find_candidates ::
  "('iri, 'ver, 'req, 'time) externs \<Rightarrow> ('p, 'pe) ProjectRead \<Rightarrow> ('iri, 'p, 're) resolver \<Rightarrow> 'iri
   \<Rightarrow> (('iri, 'ver, 'req, 'p) Candidate list, 're InternalSolverError) result" where
  "find_candidates E PR resolver uri =
    and_then (map_err Resolution (resolver uri)) (\<lambda>outcome.
      case outcome of
        UnsupportedIRIType msg \<Rightarrow>
          Err (UnsupportedIriType (''unsupported IRI type of `'' @ iri_str E uri @ ''`: '' @ msg))
      | Unresolvable msg \<Rightarrow> Err (NotFound (iri_str E uri) msg)
      | Resolved alternatives \<Rightarrow>
          (let found = List.map_filter (candidate_of E PR) alternatives in
           if found = [] then Err (NoValidCandidates (iri_str E uri)) else Ok found))"

definition resolve_candidates ::
  "('iri, 'ver, 'req, 'time) externs \<Rightarrow> ('p, 'pe) ProjectRead \<Rightarrow> ('iri, 'p, 're) resolver \<Rightarrow> 'iri
   \<Rightarrow> (('iri, 'ver, 'req) CandidateSummary list, 're, ('iri, 'ver, 'req, 'p) CandidateMap) cached" where
  "resolve_candidates E PR resolver uri cache =
    (case map_of cache uri of
       Some occupied \<Rightarrow> (Ok (map c_summary occupied), cache)
     | None \<Rightarrow>
         (case find_candidates E PR resolver uri of
            Err e \<Rightarrow> (Err e, cache)
          | Ok found \<Rightarrow> (Ok (map c_summary found), AList.update uri found cache)))"

section \<open>The dependency provider\<close>

datatype ('iri, 'req) Dependencies =
    Unavailable string
  | Available "(('iri, 'req) DependencyIdentifier \<times> nat DiscreteHashSet) list"

record ('iri, 'ver, 'req) solver_externs =
  constraints_from_iter ::
    "(('iri, 'req) DependencyIdentifier \<times> nat DiscreteHashSet) list
     \<Rightarrow> (('iri, 'req) DependencyIdentifier \<times> nat DiscreteHashSet) list"
  sort_descending :: "(nat \<times> 'ver) list \<Rightarrow> (nat \<times> 'ver) list"

definition valid_candidates ::
  "('iri, 'ver, 'req, 'time) externs \<Rightarrow> 'req \<Rightarrow> ('iri, 'ver, 'req) CandidateSummary list \<Rightarrow> nat set" where
  "valid_candidates E constraint cands =
    set (filter (\<lambda>i. req_matches E constraint (cs_version (cands ! i))) [0..<length cands])"

definition version_not_available ::
  "('iri, 'ver, 'req, 'time) externs \<Rightarrow> 'iri \<Rightarrow> 'req \<Rightarrow> 'ver list \<Rightarrow> 're InternalSolverError" where
  "version_not_available E res constraint found_versions =
    (case found_versions of
       [] \<Rightarrow> FoundVersionsPanic
     | v # vs \<Rightarrow> VersionNotAvailable (''project `'' @ iri_str E res @ ''`'' @ [CHR 0x0A]
         @ ''was found, but the requested version constraint `'' @ req_str E constraint @ ''`'' @ [CHR 0x0A]
         @ ''was not satisfied by any of the found versions:'' @ [CHR 0x0A]
         @ ''`'' @ ver_str E v @ ''`'' @ concat (map (\<lambda>w. '', `'' @ ver_str E w @ ''`'') vs)))"

definition usage_dep ::
  "('iri, 'ver, 'req, 'time) externs \<Rightarrow> ('p, 'pe) ProjectRead \<Rightarrow> ('iri, 'p, 're) resolver
   \<Rightarrow> ('iri, 'req) InterchangeProjectUsageG
   \<Rightarrow> (('iri, 'req) DependencyIdentifier \<times> nat DiscreteHashSet, 're, ('iri, 'ver, 'req, 'p) CandidateMap) cached" where
  "usage_dep E PR resolver usage =
    cbind (resolve_candidates E PR resolver (resource usage)) (\<lambda>cands cache.
      case version_constraint usage of
        Some constraint \<Rightarrow>
          (let valid = valid_candidates E constraint cands in
           if valid = {} then (Err (version_not_available E (resource usage) constraint (map cs_version cands)), cache)
           else (Ok (RemoteIri (resource usage), Finite valid), cache))
      | None \<Rightarrow> (Ok (RemoteIri (resource usage), vs_complement vs_empty), cache))"

fun usage_deps ::
  "('iri, 'ver, 'req, 'time) externs \<Rightarrow> ('p, 'pe) ProjectRead \<Rightarrow> ('iri, 'p, 're) resolver
   \<Rightarrow> ('iri, 'req) InterchangeProjectUsageG list
   \<Rightarrow> ((('iri, 'req) DependencyIdentifier \<times> nat DiscreteHashSet) list, 're, ('iri, 'ver, 'req, 'p) CandidateMap) cached" where
  "usage_deps E PR resolver [] cache = (Ok [], cache)"
| "usage_deps E PR resolver (usage # usages) cache =
    cbind (usage_dep E PR resolver usage) (\<lambda>dep.
      cbind (usage_deps E PR resolver usages) (\<lambda>deps cache'. (Ok (dep # deps), cache'))) cache"

definition compute_deps ::
  "('iri, 'ver, 'req, 'time) externs \<Rightarrow> ('iri, 'ver, 'req) solver_externs \<Rightarrow> ('p, 'pe) ProjectRead
   \<Rightarrow> ('iri, 'p, 're) resolver \<Rightarrow> ('iri, 'req) InterchangeProjectUsageG list
   \<Rightarrow> (('iri, 'req) Dependencies, 're, ('iri, 'ver, 'req, 'p) CandidateMap) cached" where
  "compute_deps E X PR resolver usages =
    cbind (usage_deps E PR resolver usages) (\<lambda>deps cache. (Ok (Available (constraints_from_iter X deps)), cache))"

text \<open>The priority is \<open>Reverse\<close> of the number returned: the smaller it is, the earlier the
  package is decided.\<close>

fun prioritize :: "('iri, 'req) DependencyIdentifier \<Rightarrow> nat DiscreteHashSet \<Rightarrow> nat" where
  "prioritize package (Finite hash_set) = card hash_set"
| "prioritize package (CoFinite hash_set) = 0"

definition first_allowed :: "nat set \<Rightarrow> (nat \<times> 'ver) list \<Rightarrow> nat option" where
  "first_allowed excluded versions_indexes = map_option fst (List.find (\<lambda>(i, v). i \<notin> excluded) versions_indexes)"

definition choose_version ::
  "('iri, 'ver, 'req, 'time) externs \<Rightarrow> ('iri, 'ver, 'req) solver_externs \<Rightarrow> ('p, 'pe) ProjectRead
   \<Rightarrow> ('iri, 'p, 're) resolver \<Rightarrow> ('iri, 'req) DependencyIdentifier \<Rightarrow> nat DiscreteHashSet
   \<Rightarrow> (nat option, 're, ('iri, 'ver, 'req, 'p) CandidateMap) cached" where
  "choose_version E X PR resolver package rng cache =
    (case rng of
       Finite hash_set \<Rightarrow> (Ok (if hash_set = {} then None else Some (Min hash_set)), cache)
     | CoFinite hash_set \<Rightarrow>
         (case package of
            Requested usages \<Rightarrow> (Ok None, cache)
          | RemoteIri iri \<Rightarrow>
              cbind (resolve_candidates E PR resolver iri) (\<lambda>cands cache'.
                (Ok (first_allowed hash_set
                  (sort_descending X (List.enumerate 0 (map cs_version cands)))), cache')) cache))"

definition get_dependencies ::
  "('iri, 'ver, 'req, 'time) externs \<Rightarrow> ('iri, 'ver, 'req) solver_externs \<Rightarrow> ('p, 'pe) ProjectRead
   \<Rightarrow> ('iri, 'p, 're) resolver \<Rightarrow> ('iri, 'req) DependencyIdentifier \<Rightarrow> nat
   \<Rightarrow> (('iri, 'req) Dependencies, 're, ('iri, 'ver, 'req, 'p) CandidateMap) cached" where
  "get_dependencies E X PR resolver package version =
    (case package of
       Requested usages \<Rightarrow> compute_deps E X PR resolver usages
     | RemoteIri iri \<Rightarrow>
         cbind (resolve_candidates E PR resolver iri) (\<lambda>cands.
           if length cands \<le> version
           then (\<lambda>cache. (Ok (Unavailable (''cannot resolve IRI `'' @ iri_str E iri @ ''` to valid project'')), cache))
           else compute_deps E X PR resolver (cs_usage (cands ! version))))"

section \<open>Solving\<close>

datatype ('iri, 'req, 'tree, 'e) PubGrubError =
    NoSolution 'tree
  | ErrorRetrievingDependencies "('iri, 'req) DependencyIdentifier" nat 'e
  | ErrorChoosingVersion "('iri, 'req) DependencyIdentifier" 'e
  | ErrorInShouldCancel 'e

fun into_solver_error :: "('tree \<Rightarrow> 'tree) \<Rightarrow> ('iri, 'req, 'tree, 'e) PubGrubError \<Rightarrow> ('iri, 'req, 'tree, 'e) PubGrubError" where
  "into_solver_error collapse_no_versions (NoSolution derivation_tree) = NoSolution (collapse_no_versions derivation_tree)"
| "into_solver_error collapse_no_versions value = value"

text \<open>The message of an error; \<open>None\<close> stands for reaching \<open>unreachable!()\<close>.\<close>

fun solver_error_display ::
  "('iri, 'ver, 'req, 'time) externs \<Rightarrow> ('tree \<Rightarrow> string) \<Rightarrow> ('e \<Rightarrow> string)
   \<Rightarrow> ('iri, 'req, 'tree, 'e) PubGrubError \<Rightarrow> string option" where
  "solver_error_display E report fmt (NoSolution derivation_tree) =
    Some (''failed to satisfy usage constraints:'' @ [CHR 0x0A] @ report derivation_tree @ [CHR 0x0A])"
| "solver_error_display E report fmt (ErrorRetrievingDependencies (Requested _) version source) =
    Some (''failed to retrieve project(s): '' @ fmt source)"
| "solver_error_display E report fmt (ErrorRetrievingDependencies (RemoteIri iri) version source) =
    Some (''failed to retrieve usages of `'' @ iri_str E iri @ ''`: '' @ fmt source)"
| "solver_error_display E report fmt (ErrorChoosingVersion (Requested _) source) = None"
| "solver_error_display E report fmt (ErrorChoosingVersion (RemoteIri iri) source) =
    Some (''unable to select version of `'' @ iri_str E iri @ ''`: '' @ fmt source)"
| "solver_error_display E report fmt (ErrorInShouldCancel source) = None"

datatype ('iri, 'req, 'tree, 'p, 'e) solve_outcome =
    Solved "('iri \<times> 'p) list"
  | SolveError "('iri, 'req, 'tree, 'e) PubGrubError"
  | SolvePanic

fun extract_solution ::
  "(('iri, 'req) DependencyIdentifier \<times> nat) list \<Rightarrow> ('iri, 'ver, 'req, 'p) CandidateMap \<Rightarrow> ('iri \<times> 'p) list
   \<Rightarrow> ('iri, 'req, 'tree, 'p, 'e) solve_outcome" where
  "extract_solution [] candidate_map result = Solved result"
| "extract_solution ((Requested _, idx) # solution) candidate_map result =
    extract_solution solution candidate_map result"
| "extract_solution ((RemoteIri uri, idx) # solution) candidate_map result =
    (case map_of candidate_map uri of
       None \<Rightarrow> SolvePanic
     | Some extracted \<Rightarrow>
         if idx < length extracted
         then extract_solution solution (AList.delete uri candidate_map)
                (AList.update uri (c_project (extracted ! idx)) result)
         else SolvePanic)"

type_synonym ('iri, 'ver, 'req, 'tree, 'p, 're) pubgrub =
  "(('iri, 'req) DependencyIdentifier \<Rightarrow> nat DiscreteHashSet \<Rightarrow> nat)
   \<Rightarrow> (('iri, 'req) DependencyIdentifier \<Rightarrow> nat DiscreteHashSet
        \<Rightarrow> (nat option, 're, ('iri, 'ver, 'req, 'p) CandidateMap) cached)
   \<Rightarrow> (('iri, 'req) DependencyIdentifier \<Rightarrow> nat
        \<Rightarrow> (('iri, 'req) Dependencies, 're, ('iri, 'ver, 'req, 'p) CandidateMap) cached)
   \<Rightarrow> ('iri, 'req) DependencyIdentifier \<Rightarrow> nat \<Rightarrow> ('iri, 'ver, 'req, 'p) CandidateMap
   \<Rightarrow> ((('iri, 'req) DependencyIdentifier \<times> nat) list,
        ('iri, 'req, 'tree, 're InternalSolverError) PubGrubError) result
      \<times> ('iri, 'ver, 'req, 'p) CandidateMap"

definition solve ::
  "('iri, 'ver, 'req, 'time) externs \<Rightarrow> ('iri, 'ver, 'req) solver_externs \<Rightarrow> ('p, 'pe) ProjectRead
   \<Rightarrow> ('iri, 'ver, 'req, 'tree, 'p, 're) pubgrub \<Rightarrow> ('tree \<Rightarrow> 'tree)
   \<Rightarrow> ('iri, 'req) InterchangeProjectUsageG list \<Rightarrow> ('iri, 'p, 're) resolver
   \<Rightarrow> ('iri, 'req, 'tree, 'p, 're InternalSolverError) solve_outcome" where
  "solve E X PR pubgrub_resolve collapse_no_versions requested resolver =
    (case pubgrub_resolve prioritize (choose_version E X PR resolver) (get_dependencies E X PR resolver)
        (Requested requested) 0 [] of
       (Err e, cache) \<Rightarrow> SolveError (into_solver_error collapse_no_versions e)
     | (Ok solution, cache) \<Rightarrow> extract_solution solution cache [])"

section \<open>Version sets\<close>

text \<open>What PubGrub asks of a version set: the operations act as those on sets of versions, and equality is
  that of the represented sets. The derived operations are those the algorithm uses.\<close>

locale version_set =
  fixes empt :: 's and single :: "'v \<Rightarrow> 's" and compl :: "'s \<Rightarrow> 's" and inter :: "'s \<Rightarrow> 's \<Rightarrow> 's"
    and contains :: "'s \<Rightarrow> 'v \<Rightarrow> bool" and weight :: "'s \<Rightarrow> nat" and capacity :: nat
  assumes contains_empty: "\<not> contains empt v"
    and contains_single: "contains (single v) w \<longleftrightarrow> w = v"
    and contains_compl: "contains (compl a) v \<longleftrightarrow> \<not> contains a v"
    and contains_inter: "contains (inter a b) v \<longleftrightarrow> contains a v \<and> contains b v"
    and weight_empty: "weight empt = 0"
    and weight_compl: "weight (compl a) = weight a"
    and weight_inter: "weight (inter a b) \<le> weight a + weight b"
    and ext_eq: "weight a + weight b < capacity \<Longrightarrow> (\<And>v. contains a v = contains b v) \<Longrightarrow> a = b"
begin

lemma contains_union: "contains (compl (inter (compl a) (compl b))) v \<longleftrightarrow> contains a v \<or> contains b v"
  by (simp add: contains_compl contains_inter)

lemma weight_union: "weight (compl (inter (compl a) (compl b))) \<le> weight a + weight b"
  using weight_inter [of "compl a" "compl b"] by (simp add: weight_compl)

lemma disjoint_iff:
  assumes "weight a + weight b < capacity"
  shows "inter a b = empt \<longleftrightarrow> (\<forall>v. \<not> (contains a v \<and> contains b v))"
proof
  show "\<forall>v. \<not> (contains a v \<and> contains b v)" if "inter a b = empt"
    using contains_inter [of a b] that contains_empty by simp
  show "inter a b = empt" if "\<forall>v. \<not> (contains a v \<and> contains b v)"
    using that assms weight_inter [of a b] by (intro ext_eq) (auto simp: contains_inter contains_empty weight_empty)
qed

lemma subset_iff:
  assumes "2 * weight a + weight b < capacity"
  shows "inter a b = a \<longleftrightarrow> (\<forall>v. contains a v \<longrightarrow> contains b v)"
proof
  show "\<forall>v. contains a v \<longrightarrow> contains b v" if "inter a b = a"
    using contains_inter [of a b] unfolding that by blast
  show "inter a b = a" if "\<forall>v. contains a v \<longrightarrow> contains b v"
    using that assms weight_inter [of a b] by (intro ext_eq) (auto simp: contains_inter)
qed

lemma eq_iff: "weight a + weight b < capacity \<Longrightarrow> a = b \<longleftrightarrow> (\<forall>v. contains a v = contains b v)"
  using ext_eq by blast

end

lemma vs_contains_complement: "vs_contains (vs_complement a) v \<longleftrightarrow> \<not> vs_contains a v"
  by (cases a) auto

lemma vs_contains_intersection: "vs_contains (vs_intersection a b) v \<longleftrightarrow> vs_contains a v \<and> vs_contains b v"
  by (cases a; cases b) auto

lemma vs_card_complement: "vs_card (vs_complement a) = vs_card a"
  by (cases a) auto

lemma vs_card_intersection: "vs_card (vs_intersection a b) \<le> vs_card a + vs_card b" for a b :: "'v::finite DiscreteHashSet"
proof -
  have "card (S \<inter> T) \<le> card S + card T" "card (S - T) \<le> card S + card T"
    "card (S - T) \<le> card T + card S" for S T :: "'v set"
    using card_mono [of S "S \<inter> T"] card_mono [of S "S - T"] by auto
  then show ?thesis by (cases a; cases b) (auto intro: card_Un_le)
qed

lemma small_not_complement:
  fixes S T :: "'v::finite set"
  assumes "card S + card T < CARD('v)"
  shows "\<exists>v. (v \<in> S) \<noteq> (v \<notin> T)"
proof -
  have "card (S \<union> T) < CARD('v)" using card_Un_le [of S T] assms by simp
  then have "S \<union> T \<noteq> UNIV" by auto
  then show ?thesis by blast
qed

lemma vs_ext:
  fixes a b :: "'v::finite DiscreteHashSet"
  assumes "vs_card a + vs_card b < CARD('v)" and "\<And>v. vs_contains a v = vs_contains b v"
  shows "a = b"
proof (cases a; cases b)
  fix S T assume "a = Finite S" "b = Finite T"
  then show ?thesis using assms(2) by auto
next
  fix S T assume "a = CoFinite S" "b = CoFinite T"
  then show ?thesis using assms(2) by auto
next
  fix S T assume "a = Finite S" "b = CoFinite T"
  then show ?thesis using assms small_not_complement [of S T] by auto
next
  fix S T assume "a = CoFinite S" "b = Finite T"
  then show ?thesis using assms small_not_complement [of T S] by auto
qed

lemma vs_image_inj:
  assumes "inj f"
  shows "vs_image f (vs_intersection a b) = vs_intersection (vs_image f a) (vs_image f b)"
    and "vs_image f (vs_complement a) = vs_complement (vs_image f a)"
    and "vs_contains (vs_image f a) (f v) \<longleftrightarrow> vs_contains a v"
    and "vs_image f a = vs_image f b \<longleftrightarrow> a = b"
  using assms
  by (cases a; cases b; auto simp: image_Int image_set_diff image_Un inj_image_mem_iff inj_image_eq_iff)+

interpretation dhs: version_set vs_empty vs_singleton vs_complement vs_intersection
  "vs_contains :: usize DiscreteHashSet \<Rightarrow> usize \<Rightarrow> bool" vs_card "2 ^ 64"
  by unfold_locales
    (simp_all add: vs_empty_def vs_singleton_def vs_contains_complement vs_contains_intersection
      vs_card_complement vs_card_intersection vs_ext card_word)

section \<open>The cache of candidates\<close>

text \<open>The cache holds, for each IRI in it, what a fresh lookup would find.\<close>

definition cache_ok ::
  "('iri, 'ver, 'req, 'time) externs \<Rightarrow> ('p, 'pe) ProjectRead \<Rightarrow> ('iri, 'p, 're) resolver
   \<Rightarrow> ('iri, 'ver, 'req, 'p) CandidateMap \<Rightarrow> bool" where
  "cache_ok E PR resolver cache \<longleftrightarrow>
    (\<forall>uri cs. map_of cache uri = Some cs \<longrightarrow> find_candidates E PR resolver uri = Ok cs)"

lemma cache_ok_Nil: "cache_ok E PR resolver []"
  by (simp add: cache_ok_def)

lemma resolve_candidates_correct:
  assumes "cache_ok E PR resolver cache"
  shows "\<exists>cache'. resolve_candidates E PR resolver uri cache =
      (map_ok (map c_summary) (find_candidates E PR resolver uri), cache')
    \<and> cache_ok E PR resolver cache' \<and> map_of cache \<subseteq>\<^sub>m map_of cache'
    \<and> (\<forall>cs. find_candidates E PR resolver uri = Ok cs \<longrightarrow> map_of cache' uri = Some cs)"
proof (cases "map_of cache uri")
  case (Some cs)
  then have "find_candidates E PR resolver uri = Ok cs" using assms by (simp add: cache_ok_def)
  then show ?thesis using Some assms by (simp add: resolve_candidates_def)
next
  case None
  show ?thesis
  proof (cases "find_candidates E PR resolver uri")
    case (Err e)
    then show ?thesis using None assms by (simp add: resolve_candidates_def)
  next
    case (Ok cs)
    have "cache_ok E PR resolver (AList.update uri cs cache)"
      using assms Ok by (auto simp: cache_ok_def update_conv' split: if_splits)
    moreover have "map_of cache \<subseteq>\<^sub>m map_of (AList.update uri cs cache)"
      using None by (auto simp: map_le_def update_conv')
    ultimately show ?thesis using None Ok by (simp add: resolve_candidates_def update_conv')
  qed
qed

lemma find_candidates_nonempty:
  assumes "find_candidates E PR resolver uri = Ok cs"
  shows "cs \<noteq> []"
proof -
  obtain out where "resolver uri = Ok out" using assms by (auto simp: find_candidates_def)
  then show ?thesis using assms by (cases out) (auto simp: find_candidates_def Let_def split: if_splits)
qed

section \<open>The provider refines lookups without a cache\<close>

text \<open>The dependencies of a list of usages, computed from fresh lookups.\<close>

definition dep_of ::
  "('iri, 'ver, 'req, 'time) externs \<Rightarrow> ('p, 'pe) ProjectRead \<Rightarrow> ('iri, 'p, 're) resolver
   \<Rightarrow> ('iri, 'req) InterchangeProjectUsageG
   \<Rightarrow> (('iri, 'req) DependencyIdentifier \<times> nat DiscreteHashSet, 're InternalSolverError) result" where
  "dep_of E PR resolver usage =
    and_then (find_candidates E PR resolver (resource usage)) (\<lambda>found.
      let cands = map c_summary found in
      case version_constraint usage of
        Some constraint \<Rightarrow>
          if valid_candidates E constraint cands = {}
          then Err (version_not_available E (resource usage) constraint (map cs_version cands))
          else Ok (RemoteIri (resource usage), Finite (valid_candidates E constraint cands))
      | None \<Rightarrow> Ok (RemoteIri (resource usage), CoFinite {}))"

definition choice_of ::
  "('iri, 'ver, 'req, 'time) externs \<Rightarrow> ('iri, 'ver, 'req) solver_externs \<Rightarrow> ('p, 'pe) ProjectRead
   \<Rightarrow> ('iri, 'p, 're) resolver \<Rightarrow> ('iri, 'req) DependencyIdentifier \<Rightarrow> nat DiscreteHashSet
   \<Rightarrow> (nat option, 're InternalSolverError) result" where
  "choice_of E X PR resolver package rng =
    (case rng of
       Finite hash_set \<Rightarrow> Ok (if hash_set = {} then None else Some (Min hash_set))
     | CoFinite hash_set \<Rightarrow>
         (case package of
            Requested usages \<Rightarrow> Ok None
          | RemoteIri iri \<Rightarrow>
              map_ok (\<lambda>found. first_allowed hash_set
                (sort_descending X (List.enumerate 0 (map (cs_version \<circ> c_summary) found))))
                (find_candidates E PR resolver iri)))"

definition deps_of ::
  "('iri, 'ver, 'req, 'time) externs \<Rightarrow> ('iri, 'ver, 'req) solver_externs \<Rightarrow> ('p, 'pe) ProjectRead
   \<Rightarrow> ('iri, 'p, 're) resolver \<Rightarrow> ('iri, 'req) DependencyIdentifier \<Rightarrow> nat
   \<Rightarrow> (('iri, 'req) Dependencies, 're InternalSolverError) result" where
  "deps_of E X PR resolver package version =
    (case package of
       Requested usages \<Rightarrow>
         map_ok (Available \<circ> constraints_from_iter X) (collect_res (dep_of E PR resolver) usages)
     | RemoteIri iri \<Rightarrow>
         and_then (find_candidates E PR resolver iri) (\<lambda>found.
           if length found \<le> version
           then Ok (Unavailable (''cannot resolve IRI `'' @ iri_str E iri @ ''` to valid project''))
           else map_ok (Available \<circ> constraints_from_iter X)
             (collect_res (dep_of E PR resolver) (cs_usage (c_summary (found ! version))))))"

text \<open>A cached operation answers as its uncached counterpart, only ever adds entries to the cache, and
  keeps the cache correct.\<close>

definition answers ::
  "('iri, 'ver, 'req, 'time) externs \<Rightarrow> ('p, 'pe) ProjectRead \<Rightarrow> ('iri, 'p, 're) resolver
   \<Rightarrow> ('a, 're, ('iri, 'ver, 'req, 'p) CandidateMap) cached \<Rightarrow> ('a, 're InternalSolverError) result \<Rightarrow> bool" where
  "answers E PR resolver m r \<longleftrightarrow>
    (\<forall>cache. cache_ok E PR resolver cache \<longrightarrow>
      fst (m cache) = r \<and> cache_ok E PR resolver (snd (m cache))
      \<and> map_of cache \<subseteq>\<^sub>m map_of (snd (m cache)))"

lemma map_ok_and_then: "map_ok f r = and_then r (\<lambda>x. Ok (f x))"
  by (cases r) simp_all

lemma answers_resolve_candidates:
  "answers E PR resolver (resolve_candidates E PR resolver uri)
    (map_ok (map c_summary) (find_candidates E PR resolver uri))"
  unfolding answers_def
proof (intro allI impI, goal_cases)
  case (1 cache)
  then show ?case using resolve_candidates_correct [of E PR resolver cache uri] by auto
qed

lemma answers_cbind:
  assumes "answers E PR resolver m r" and "\<And>a. r = Ok a \<Longrightarrow> answers E PR resolver (f a) (g a)"
  shows "answers E PR resolver (cbind m f) (and_then r g)"
  unfolding answers_def
proof (intro allI impI)
  fix cache assume ok: "cache_ok E PR resolver cache"
  let ?c = "snd (m cache)"
  have m: "fst (m cache) = r" "cache_ok E PR resolver ?c" "map_of cache \<subseteq>\<^sub>m map_of ?c"
    using assms(1) ok by (auto simp: answers_def)
  show "fst (cbind m f cache) = and_then r g \<and> cache_ok E PR resolver (snd (cbind m f cache))
      \<and> map_of cache \<subseteq>\<^sub>m map_of (snd (cbind m f cache))"
  proof (cases r)
    case (Ok a)
    then have "cbind m f cache = f a ?c" using m(1) by (cases "m cache") (simp add: cbind_def)
    moreover have "fst (f a ?c) = g a \<and> cache_ok E PR resolver (snd (f a ?c)) \<and> map_of ?c \<subseteq>\<^sub>m map_of (snd (f a ?c))"
      using assms(2) [OF Ok] m(2) by (auto simp: answers_def)
    ultimately show ?thesis using Ok m(3) map_le_trans [OF m(3)] by simp
  next
    case (Err e)
    then have "cbind m f cache = (Err e, ?c)" using m(1) by (cases "m cache") (simp add: cbind_def)
    then show ?thesis using Err m(2,3) by simp
  qed
qed

lemma answers_return: "answers E PR resolver (\<lambda>cache. (r, cache)) r"
  by (simp add: answers_def)

lemma answers_usage_dep: "answers E PR resolver (usage_dep E PR resolver usage) (dep_of E PR resolver usage)"
proof -
  have "dep_of E PR resolver usage =
    and_then (map_ok (map c_summary) (find_candidates E PR resolver (resource usage))) (\<lambda>cands.
      case version_constraint usage of
        Some constraint \<Rightarrow>
          if valid_candidates E constraint cands = {}
          then Err (version_not_available E (resource usage) constraint (map cs_version cands))
          else Ok (RemoteIri (resource usage), Finite (valid_candidates E constraint cands))
      | None \<Rightarrow> Ok (RemoteIri (resource usage), CoFinite {}))"
    by (cases "find_candidates E PR resolver (resource usage)") (simp_all add: dep_of_def Let_def)
  moreover have "answers E PR resolver (usage_dep E PR resolver usage) \<dots>"
    unfolding usage_dep_def
    by (intro answers_cbind answers_resolve_candidates)
      (auto simp: answers_def Let_def vs_empty_def split: option.splits)
  ultimately show ?thesis by simp
qed

lemma answers_usage_deps:
  "answers E PR resolver (usage_deps E PR resolver usages) (collect_res (dep_of E PR resolver) usages)"
proof (induction usages)
  case Nil
  show ?case by (simp add: answers_def)
next
  case (Cons u us)
  have "usage_deps E PR resolver (u # us) = cbind (usage_dep E PR resolver u) (\<lambda>dep.
      cbind (usage_deps E PR resolver us) (\<lambda>deps cache'. (Ok (dep # deps), cache')))"
    by (rule ext) simp
  moreover have "answers E PR resolver \<dots> (and_then (dep_of E PR resolver u) (\<lambda>dep.
      and_then (collect_res (dep_of E PR resolver) us) (\<lambda>deps. Ok (dep # deps))))"
    by (intro answers_cbind answers_usage_dep Cons.IH answers_return)
  ultimately show ?case by (simp add: map_ok_and_then)
qed

lemma answers_compute_deps:
  "answers E PR resolver (compute_deps E X PR resolver usages)
    (map_ok (Available \<circ> constraints_from_iter X) (collect_res (dep_of E PR resolver) usages))"
proof -
  have "answers E PR resolver (compute_deps E X PR resolver usages)
    (and_then (collect_res (dep_of E PR resolver) usages) (\<lambda>deps. Ok (Available (constraints_from_iter X deps))))"
    unfolding compute_deps_def by (intro answers_cbind answers_usage_deps answers_return)
  then show ?thesis by (cases "collect_res (dep_of E PR resolver) usages") simp_all
qed

lemma answers_choose_version:
  "answers E PR resolver (choose_version E X PR resolver package rng) (choice_of E X PR resolver package rng)"
proof (cases rng)
  case (Finite S)
  then show ?thesis by (simp add: answers_def choose_version_def choice_of_def)
next
  case (CoFinite S)
  show ?thesis
  proof (cases package)
    case (Requested us)
    then show ?thesis using CoFinite by (simp add: answers_def choose_version_def choice_of_def)
  next
    case (RemoteIri iri)
    let ?f = "\<lambda>cands. first_allowed S (sort_descending X (List.enumerate 0 (map cs_version cands)))"
    have "choose_version E X PR resolver package rng =
        cbind (resolve_candidates E PR resolver iri) (\<lambda>cands cache'. (Ok (?f cands), cache'))"
      by (rule ext) (simp add: choose_version_def CoFinite RemoteIri)
    moreover have "answers E PR resolver \<dots>
        (and_then (map_ok (map c_summary) (find_candidates E PR resolver iri)) (\<lambda>cands. Ok (?f cands)))"
      by (intro answers_cbind answers_resolve_candidates answers_return)
    ultimately show ?thesis
      by (cases "find_candidates E PR resolver iri") (simp_all add: choice_of_def CoFinite RemoteIri)
  qed
qed

lemma answers_get_dependencies:
  "answers E PR resolver (get_dependencies E X PR resolver package version) (deps_of E X PR resolver package version)"
proof (cases package)
  case (Requested us)
  then show ?thesis by (simp add: get_dependencies_def deps_of_def answers_compute_deps)
next
  case (RemoteIri iri)
  let ?g = "\<lambda>cands. if length cands \<le> version
      then Ok (Unavailable (''cannot resolve IRI `'' @ iri_str E iri @ ''` to valid project''))
      else map_ok (Available \<circ> constraints_from_iter X)
        (collect_res (dep_of E PR resolver) (cs_usage (cands ! version)))"
  have "deps_of E X PR resolver package version =
      and_then (map_ok (map c_summary) (find_candidates E PR resolver iri)) ?g"
    by (cases "find_candidates E PR resolver iri") (auto simp: deps_of_def RemoteIri not_le)
  moreover have "answers E PR resolver (get_dependencies E X PR resolver package version) \<dots>"
    unfolding get_dependencies_def RemoteIri DependencyIdentifier.case
    by (intro answers_cbind answers_resolve_candidates)
      (simp only: answers_return answers_compute_deps split: if_split, simp)
  ultimately show ?thesis by simp
qed

section \<open>Runs of the algorithm\<close>

text \<open>What a run of PubGrub does to the provider's state: it calls the provider any number of times, in an
  order of its own.\<close>

inductive provider_run ::
  "('p \<Rightarrow> 'vs \<Rightarrow> 's \<Rightarrow> 'c \<times> 's) \<Rightarrow> ('p \<Rightarrow> 'v \<Rightarrow> 's \<Rightarrow> 'd \<times> 's) \<Rightarrow> 's \<Rightarrow> 's \<Rightarrow> bool"
  for pick getd where
  run_start: "provider_run pick getd s s"
| run_choose: "provider_run pick getd s t \<Longrightarrow> pick p S t = (r, u) \<Longrightarrow> provider_run pick getd s u"
| run_get: "provider_run pick getd s t \<Longrightarrow> getd p v t = (d, u) \<Longrightarrow> provider_run pick getd s u"

locale dependency_provider =
  fixes pick :: "'p \<Rightarrow> 'vs \<Rightarrow> 's \<Rightarrow> 'c \<times> 's" and getd :: "'p \<Rightarrow> 'v \<Rightarrow> 's \<Rightarrow> 'd \<times> 's"
    and invar :: "'s \<Rightarrow> bool" and grows :: "'s \<Rightarrow> 's \<Rightarrow> bool"
    and choice :: "'p \<Rightarrow> 'vs \<Rightarrow> 'c" and deps :: "'p \<Rightarrow> 'v \<Rightarrow> 'd"
  assumes grows_refl: "grows s s" and grows_trans: "grows s t \<Longrightarrow> grows t u \<Longrightarrow> grows s u"
    and choose_ok: "invar s \<Longrightarrow> pick p S s = (r, t) \<Longrightarrow> r = choice p S \<and> invar t \<and> grows s t"
    and getd_ok: "invar s \<Longrightarrow> getd p v s = (d, t) \<Longrightarrow> d = deps p v \<and> invar t \<and> grows s t"
begin

lemma run_invar:
  assumes "provider_run pick getd s t" and "invar s"
  shows "invar t \<and> grows s t"
  using assms
proof (induction rule: provider_run.induct)
  case (run_start s)
  then show ?case by (simp add: grows_refl)
next
  case (run_choose s t p S r u)
  then show ?case using choose_ok grows_trans by metis
next
  case (run_get s t p v d u)
  then show ?case using getd_ok grows_trans by metis
qed

lemma run_choice: "provider_run pick getd s t \<Longrightarrow> invar s \<Longrightarrow> pick p S t = (r, u) \<Longrightarrow> r = choice p S"
  using run_invar choose_ok by blast

lemma run_deps: "provider_run pick getd s t \<Longrightarrow> invar s \<Longrightarrow> getd p v t = (d, u) \<Longrightarrow> d = deps p v"
  using run_invar getd_ok by blast

end

interpretation ps: dependency_provider "choose_version E X PR resolver" "get_dependencies E X PR resolver"
  "cache_ok E PR resolver" "\<lambda>s t. map_of s \<subseteq>\<^sub>m map_of t" "choice_of E X PR resolver" "deps_of E X PR resolver"
  for E X PR resolver
proof unfold_locales
  fix s t :: "('a, 'b, 'c, 'e) CandidateMap" and p S r v d
  show "choose_version E X PR resolver p S s = (r, t) \<Longrightarrow>
      r = choice_of E X PR resolver p S \<and> cache_ok E PR resolver t \<and> map_of s \<subseteq>\<^sub>m map_of t"
    if "cache_ok E PR resolver s"
    using answers_choose_version [of E PR resolver X p S] that unfolding answers_def by force
  show "get_dependencies E X PR resolver p v s = (d, t) \<Longrightarrow>
      d = deps_of E X PR resolver p v \<and> cache_ok E PR resolver t \<and> map_of s \<subseteq>\<^sub>m map_of t"
    if "cache_ok E PR resolver s"
    using answers_get_dependencies [of E PR resolver X p v] that unfolding answers_def by force
qed (auto intro: map_le_trans)

text \<open>The contract of \<open>pubgrub::resolve\<close> for one run: the run is a sequence of provider calls; a solution
  assigns one version to each of its packages, the root among them, and for each package the
  dependencies of its version were retrieved, are available, and are satisfied by the solution; a
  failure to pick a version is one the provider reported for that package.\<close>

definition pubgrub_contract ::
  "(('iri, 'req) DependencyIdentifier \<Rightarrow> nat DiscreteHashSet \<Rightarrow> 's \<Rightarrow> (nat option, 'e) result \<times> 's)
   \<Rightarrow> (('iri, 'req) DependencyIdentifier \<Rightarrow> nat \<Rightarrow> 's \<Rightarrow> (('iri, 'req) Dependencies, 'e) result \<times> 's)
   \<Rightarrow> ('iri, 'req) DependencyIdentifier \<Rightarrow> nat \<Rightarrow> 's
   \<Rightarrow> ((('iri, 'req) DependencyIdentifier \<times> nat) list, ('iri, 'req, 'tree, 'e) PubGrubError) result \<times> 's \<Rightarrow> bool" where
  "pubgrub_contract pick getd root v0 s0 out \<longleftrightarrow>
    provider_run pick getd s0 (snd out)
    \<and> (\<forall>sol. fst out = Ok sol \<longrightarrow>
        distinct (map fst sol) \<and> (root, v0) \<in> set sol
        \<and> (\<forall>(p, v) \<in> set sol. \<exists>s deps s'.
            provider_run pick getd s0 s \<and> getd p v s = (Ok (Available deps), s')
            \<and> provider_run pick getd s' (snd out)
            \<and> (\<forall>(q, S) \<in> set deps. \<exists>w. (q, w) \<in> set sol \<and> vs_contains S w)))
    \<and> (\<forall>p e. fst out = Err (ErrorChoosingVersion p e) \<longrightarrow>
        (\<exists>s S s'. provider_run pick getd s0 s \<and> pick p S s = (Err e, s')))
    \<and> (\<forall>e. fst out \<noteq> Err (ErrorInShouldCancel e))"

text \<open>Of the constraint map, a hash map collected from a vector of pairs: a later entry replaces an
  earlier one of the same package.\<close>

definition constraints_law :: "('iri, 'ver, 'req) solver_externs \<Rightarrow> bool" where
  "constraints_law X \<longleftrightarrow>
    (\<forall>deps. set (constraints_from_iter X deps) = {(p, S). map_of (rev deps) p = Some S})"

lemma constraints_law_fst:
  assumes "constraints_law X"
  shows "fst ` set (constraints_from_iter X deps) = fst ` set deps"
proof -
  have "p \<in> fst ` set (constraints_from_iter X deps) \<longleftrightarrow> map_of (rev deps) p \<noteq> None" for p
    using assms by (force simp: constraints_law_def)
  then show ?thesis unfolding map_of_eq_None_iff by auto
qed

text \<open>Of the sort: it permutes and orders by descending version.\<close>

definition sort_law :: "('ver \<Rightarrow> 'ver \<Rightarrow> bool) \<Rightarrow> ('iri, 'ver, 'req) solver_externs \<Rightarrow> bool" where
  "sort_law le X \<longleftrightarrow>
    (\<forall>xs. mset (sort_descending X xs) = mset xs
      \<and> sorted_wrt (\<lambda>a b. le (snd b) (snd a)) (sort_descending X xs))"

section \<open>Extraction\<close>

lemma get_dependencies_caches:
  assumes "cache_ok E PR resolver s" and "get_dependencies E X PR resolver (RemoteIri iri) v s = (d, s')"
    and "find_candidates E PR resolver iri = Ok cs"
  shows "map_of s' iri = Some cs"
proof -
  obtain t where t: "resolve_candidates E PR resolver iri s = (Ok (map c_summary cs), t)"
    "cache_ok E PR resolver t" "map_of t iri = Some cs"
    using resolve_candidates_correct [OF assms(1), of iri] assms(3) by auto
  have "map_of t \<subseteq>\<^sub>m map_of s'"
  proof (cases "length cs \<le> v")
    case True
    then show ?thesis using assms(2) t(1) by (auto simp: get_dependencies_def cbind_def)
  next
    case False
    then have "compute_deps E X PR resolver (cs_usage (map c_summary cs ! v)) t = (d, s')"
      using assms(2) t(1) by (simp add: get_dependencies_def cbind_def)
    then show ?thesis
      using answers_compute_deps [of E PR resolver X "cs_usage (map c_summary cs ! v)"] t(2)
      unfolding answers_def by force
  qed
  then show ?thesis using t(3) by (auto simp: map_le_def dom_def)
qed

lemma extract_solution_Solved:
  assumes "distinct (map fst sol)"
    and "\<And>uri idx. (RemoteIri uri, idx) \<in> set sol \<Longrightarrow> \<exists>cs. map_of cache uri = Some cs \<and> idx < length cs"
  shows "\<exists>r. extract_solution sol cache result = (Solved r :: ('iri, 'req, 'tree, 'p, 'e) solve_outcome)
    \<and> (\<forall>uri. map_of r uri = (case map_of sol (RemoteIri uri) of
        Some idx \<Rightarrow> Some (c_project (the (map_of cache uri) ! idx)) | None \<Rightarrow> map_of result uri))"
  using assms
proof (induction sol arbitrary: cache result)
  case Nil
  then show ?case by simp
next
  case (Cons a sol)
  obtain k idx where a: "a = (k, idx)" by force
  show ?case
  proof (cases k)
    case (Requested us)
    then show ?thesis using Cons a by simp
  next
    case (RemoteIri uri)
    obtain cs where cs: "map_of cache uri = Some cs" "idx < length cs"
      using Cons.prems(2) [of uri idx] a RemoteIri by auto
    have fresh: "RemoteIri uri \<notin> fst ` set sol" using Cons.prems(1) a RemoteIri by simp
    have "\<exists>r. extract_solution sol (AList.delete uri cache) (AList.update uri (c_project (cs ! idx)) result) = (Solved r :: ('iri, 'req, 'tree, 'p, 'e) solve_outcome)
      \<and> (\<forall>u. map_of r u = (case map_of sol (RemoteIri u) of
          Some i \<Rightarrow> Some (c_project (the (map_of (AList.delete uri cache) u) ! i))
        | None \<Rightarrow> map_of (AList.update uri (c_project (cs ! idx)) result) u))"
    proof (rule Cons.IH)
      show "distinct (map fst sol)" using Cons.prems(1) by simp
      show "\<exists>cs. map_of (AList.delete uri cache) u = Some cs \<and> i < length cs" if "(RemoteIri u, i) \<in> set sol" for u i
      proof -
        have "u \<noteq> uri" using that fresh by force
        then show ?thesis using Cons.prems(2) [of u i] that by (simp add: delete_conv')
      qed
    qed
    then obtain r where r: "extract_solution sol (AList.delete uri cache) (AList.update uri (c_project (cs ! idx)) result) = (Solved r :: ('iri, 'req, 'tree, 'p, 'e) solve_outcome)"
      "\<And>u. map_of r u = (case map_of sol (RemoteIri u) of
          Some i \<Rightarrow> Some (c_project (the (map_of (AList.delete uri cache) u) ! i))
        | None \<Rightarrow> map_of (AList.update uri (c_project (cs ! idx)) result) u)"
      by blast
    have none: "map_of sol (RemoteIri uri) = None" using fresh by (simp add: map_of_eq_None_iff)
    have "map_of r u = (case map_of (a # sol) (RemoteIri u) of
        Some i \<Rightarrow> Some (c_project (the (map_of cache u) ! i)) | None \<Rightarrow> map_of result u)" for u
      using r(2) [of u] cs none a RemoteIri
      by (cases "u = uri") (simp_all add: delete_conv' update_conv' split: option.splits)
    then show ?thesis using r(1) a RemoteIri cs by simp
  qed
qed

section \<open>Soundness\<close>

text \<open>The version of a candidate satisfies a usage.\<close>

definition meets ::
  "('iri, 'ver, 'req, 'time) externs \<Rightarrow> ('iri, 'req) InterchangeProjectUsageG
   \<Rightarrow> ('iri, 'ver, 'req, 'p) Candidate \<Rightarrow> bool" where
  "meets E usage c \<longleftrightarrow>
    (case version_constraint usage of
       None \<Rightarrow> True
     | Some constraint \<Rightarrow> req_matches E constraint (cs_version (c_summary c)))"

lemma dep_of_fst: "dep_of E PR resolver u = Ok d \<Longrightarrow> fst d = RemoteIri (resource u)"
  by (auto simp: dep_of_def Let_def split: option.splits if_splits)

lemma dep_of_meets:
  assumes "dep_of E PR resolver u = Ok (q, S)" and "vs_contains S w"
    and "find_candidates E PR resolver (resource u) = Ok cs" and "w < length cs"
  shows "meets E u (cs ! w)"
  using assms
  by (auto simp: dep_of_def Let_def meets_def valid_candidates_def split: option.splits if_splits)

lemma collect_deps_fst:
  assumes "collect_res (dep_of E PR resolver) usages = Ok deps"
  shows "map fst deps = map (RemoteIri \<circ> resource) usages"
proof -
  have "list_all2 (\<lambda>u d. dep_of E PR resolver u = Ok d) usages deps"
    using assms by (simp add: collect_res_Ok)
  then show ?thesis by (induction rule: list_all2_induct) (auto dest: dep_of_fst)
qed

text \<open>A solved package: its IRI has candidates, the index is in range, and the final cache has them.\<close>

lemma solution_cached:
  assumes contract: "pubgrub_contract (choose_version E X PR resolver) (get_dependencies E X PR resolver)
      root 0 [] (Ok sol, cache)"
    and "(RemoteIri uri, idx) \<in> set sol"
  shows "\<exists>cs. find_candidates E PR resolver uri = Ok cs \<and> idx < length cs \<and> map_of cache uri = Some cs"
proof -
  from assms obtain s deps s' where
    run: "provider_run (choose_version E X PR resolver) (get_dependencies E X PR resolver) [] s"
      "provider_run (choose_version E X PR resolver) (get_dependencies E X PR resolver) s' cache"
    and get: "get_dependencies E X PR resolver (RemoteIri uri) idx s = (Ok (Available deps), s')"
    unfolding pubgrub_contract_def by fastforce
  have s: "cache_ok E PR resolver s" using ps.run_invar [OF run(1)] cache_ok_Nil by blast
  have d: "deps_of E X PR resolver (RemoteIri uri) idx = Ok (Available deps)"
    and s': "cache_ok E PR resolver s'"
    using ps.getd_ok [OF s get] by auto
  obtain cs where cs: "find_candidates E PR resolver uri = Ok cs" "idx < length cs"
    using d by (auto simp: deps_of_def split: if_splits)
  have "map_of s' uri = Some cs" by (rule get_dependencies_caches [OF s get cs(1)])
  moreover have "map_of s' \<subseteq>\<^sub>m map_of cache" using ps.run_invar [OF run(2) s'] by blast
  ultimately have "map_of cache uri = Some cs" by (auto simp: map_le_def dom_def)
  then show ?thesis using cs by blast
qed

lemma solution_deps:
  assumes contract: "pubgrub_contract (choose_version E X PR resolver) (get_dependencies E X PR resolver)
      root 0 [] (Ok sol, cache)"
    and "(p, v) \<in> set sol"
  shows "\<exists>deps. deps_of E X PR resolver p v = Ok (Available deps)
    \<and> (\<forall>(q, S) \<in> set deps. \<exists>w. (q, w) \<in> set sol \<and> vs_contains S w)"
proof -
  from assms obtain s deps s' where
    run: "provider_run (choose_version E X PR resolver) (get_dependencies E X PR resolver) [] s"
    and get: "get_dependencies E X PR resolver p v s = (Ok (Available deps), s')"
    and sat: "\<forall>(q, S) \<in> set deps. \<exists>w. (q, w) \<in> set sol \<and> vs_contains S w"
    unfolding pubgrub_contract_def by fastforce
  have "deps_of E X PR resolver p v = Ok (Available deps)"
    using ps.run_deps [OF run cache_ok_Nil get] by simp
  then show ?thesis using sat by blast
qed

text \<open>A usage of a list is effective if it is the last one of its resource.\<close>

definition effective :: "('iri, 'req) InterchangeProjectUsageG list \<Rightarrow> ('iri, 'req) InterchangeProjectUsageG \<Rightarrow> bool" where
  "effective usages u \<longleftrightarrow> List.find (\<lambda>u'. resource u' = resource u) (rev usages) = Some u"

lemma effective_exists:
  assumes "u \<in> set usages"
  shows "\<exists>u'. effective usages u' \<and> resource u' = resource u"
proof -
  have "List.find (\<lambda>u'. resource u' = resource u) (rev usages) \<noteq> None"
    using assms by (auto simp: find_None_iff)
  then obtain u' where u': "List.find (\<lambda>u'. resource u' = resource u) (rev usages) = Some u'" by blast
  then have "resource u' = resource u" by (auto simp: find_Some_iff)
  with u' show ?thesis by (intro exI [of _ u']) (simp add: effective_def)
qed

lemma find_Some_in: "List.find P xs = Some x \<Longrightarrow> x \<in> set xs \<and> P x"
  by (auto simp: find_Some_iff)

lemma effective_distinct:
  assumes "distinct (map resource usages)" and "u \<in> set usages"
  shows "effective usages u"
proof -
  obtain u' where u': "effective usages u'" "resource u' = resource u" using effective_exists [OF assms(2)] by blast
  then have "u' \<in> set usages" using find_Some_in by (fastforce simp: effective_def)
  then have "u' = u" using assms u'(2) by (auto simp: distinct_map inj_on_def)
  with u'(1) show ?thesis by simp
qed

lemma find_dep:
  assumes "list_all2 (\<lambda>u d. dep_of E PR resolver u = Ok d) usages ds"
    and "List.find (\<lambda>u'. resource u' = r) usages = Some u"
  shows "\<exists>S. map_of ds (RemoteIri r) = Some S \<and> dep_of E PR resolver u = Ok (RemoteIri r, S)"
  using assms
proof (induction rule: list_all2_induct)
  case (Cons x xs d ds)
  then show ?case using dep_of_fst [OF Cons.hyps(1)] by (cases d) (auto split: if_splits)
qed simp

lemma usages_satisfied:
  assumes law: "constraints_law X"
    and deps: "collect_res (dep_of E PR resolver) usages = Ok ds"
    and sat: "\<forall>(q, S) \<in> set (constraints_from_iter X ds). \<exists>w. (q, w) \<in> set sol \<and> vs_contains S w"
    and u: "effective usages u"
  shows "\<exists>w. (RemoteIri (resource u), w) \<in> set sol
    \<and> (\<forall>cs. find_candidates E PR resolver (resource u) = Ok cs \<longrightarrow> w < length cs \<longrightarrow> meets E u (cs ! w))"
proof -
  have "list_all2 (\<lambda>u d. dep_of E PR resolver u = Ok d) (rev usages) (rev ds)"
    using deps by (simp add: collect_res_Ok)
  from find_dep [OF this u [unfolded effective_def]]
  obtain S where S: "map_of (rev ds) (RemoteIri (resource u)) = Some S"
    and d: "dep_of E PR resolver u = Ok (RemoteIri (resource u), S)" by (elim exE conjE)
  from S have "(RemoteIri (resource u), S) \<in> set (constraints_from_iter X ds)"
    using law by (simp add: constraints_law_def)
  then obtain w where "(RemoteIri (resource u), w) \<in> set sol" "vs_contains S w" using sat by fastforce
  then show ?thesis using dep_of_meets [OF d] by blast
qed

lemma extract_after_contract:
  assumes contract: "pubgrub_contract (choose_version E X PR resolver) (get_dependencies E X PR resolver)
      root 0 [] (Ok sol, cache)"
  shows "\<exists>r. extract_solution sol cache [] = (Solved r :: ('iri, 'req, 'tree, 'p, 'e) solve_outcome)
    \<and> (\<forall>uri. map_of r uri = (case map_of sol (RemoteIri uri) of
        Some idx \<Rightarrow> Some (c_project (the (map_of cache uri) ! idx)) | None \<Rightarrow> None))"
proof -
  have "distinct (map fst sol)" using contract by (simp add: pubgrub_contract_def)
  moreover have "\<exists>cs. map_of cache uri = Some cs \<and> idx < length cs" if "(RemoteIri uri, idx) \<in> set sol" for uri idx
    using solution_cached [OF contract that] by blast
  ultimately show ?thesis using extract_solution_Solved [of sol cache "[]"] unfolding map_of.simps by blast
qed

lemma solve_Ok:
  assumes "pubgrub prioritize (choose_version E X PR resolver) (get_dependencies E X PR resolver)
      (Requested requested) 0 [] = (Ok sol, cache)"
    and "pubgrub_contract (choose_version E X PR resolver) (get_dependencies E X PR resolver)
      (Requested requested) 0 [] (Ok sol :: (_, ('iri, 'req, 'tree, 're InternalSolverError) PubGrubError) result, cache)"
  shows "\<exists>r. solve E X PR pubgrub collapse requested resolver
        = (Solved r :: ('iri, 'req, 'tree, 'p, 're InternalSolverError) solve_outcome)
    \<and> (\<forall>uri. map_of r uri = (case map_of sol (RemoteIri uri) of
        Some idx \<Rightarrow> Some (c_project (the (map_of cache uri) ! idx)) | None \<Rightarrow> None))"
  using extract_after_contract [OF assms(2)] assms(1) unfolding solve_def by simp

text \<open>The candidate a solution selects for an IRI.\<close>

definition selection ::
  "(('iri, 'req) DependencyIdentifier \<times> nat) list \<Rightarrow> ('iri, 'ver, 'req, 'p) CandidateMap
   \<Rightarrow> 'iri \<Rightarrow> ('iri, 'ver, 'req, 'p) Candidate option" where
  "selection sol cache iri = map_option (\<lambda>idx. the (map_of cache iri) ! idx) (map_of sol (RemoteIri iri))"

lemma selection_intro:
  assumes contract: "pubgrub_contract (choose_version E X PR resolver) (get_dependencies E X PR resolver) root 0 [] (Ok sol, cache)"
    and "(RemoteIri iri, idx) \<in> set sol"
  shows "\<exists>cs. selection sol cache iri = Some (cs ! idx) \<and> find_candidates E PR resolver iri = Ok cs \<and> idx < length cs"
proof -
  have "distinct (map fst sol)" using contract by (simp add: pubgrub_contract_def)
  then have "map_of sol (RemoteIri iri) = Some idx" using assms(2) by simp
  then show ?thesis using solution_cached [OF assms] by (auto simp: selection_def)
qed

lemma selection_dest:
  assumes contract: "pubgrub_contract (choose_version E X PR resolver) (get_dependencies E X PR resolver) root 0 [] (Ok sol, cache)"
    and "selection sol cache iri = Some c"
  shows "\<exists>idx cs. (RemoteIri iri, idx) \<in> set sol \<and> find_candidates E PR resolver iri = Ok cs \<and> idx < length cs \<and> c = cs ! idx"
proof -
  obtain idx where idx: "map_of sol (RemoteIri iri) = Some idx" "c = the (map_of cache iri) ! idx"
    using assms(2) by (auto simp: selection_def)
  then have "(RemoteIri iri, idx) \<in> set sol" by (simp add: map_of_SomeD)
  then show ?thesis using solution_cached [OF contract] idx(2) by force
qed

text \<open>The usages of any package of the solution have a project in it, and it meets the effective ones.\<close>

lemma selection_present:
  assumes law: "constraints_law X"
    and contract: "pubgrub_contract (choose_version E X PR resolver) (get_dependencies E X PR resolver) root 0 [] (Ok sol, cache)"
    and "(p, v) \<in> set sol" and "u \<in> set usages"
    and deps: "deps_of E X PR resolver p v
      = map_ok (Available \<circ> constraints_from_iter X) (collect_res (dep_of E PR resolver) usages)"
  shows "\<exists>c. selection sol cache (resource u) = Some c"
proof -
  obtain ds where ds: "collect_res (dep_of E PR resolver) usages = Ok ds"
    and sat: "\<forall>(q, S) \<in> set (constraints_from_iter X ds). \<exists>w. (q, w) \<in> set sol \<and> vs_contains S w"
    using solution_deps [OF contract assms(3)] deps by (auto simp: map_ok_eq_Ok)
  have "RemoteIri (resource u) \<in> set (map fst ds)" using assms(4) by (simp add: collect_deps_fst [OF ds])
  then have "RemoteIri (resource u) \<in> fst ` set (constraints_from_iter X ds)"
    by (simp add: constraints_law_fst [OF law])
  then obtain w where "(RemoteIri (resource u), w) \<in> set sol" using sat by force
  then show ?thesis using selection_intro [OF contract] by blast
qed

lemma selection_closed:
  assumes law: "constraints_law X"
    and contract: "pubgrub_contract (choose_version E X PR resolver) (get_dependencies E X PR resolver) root 0 [] (Ok sol, cache)"
    and "(p, v) \<in> set sol" and "effective usages u"
    and deps: "deps_of E X PR resolver p v
      = map_ok (Available \<circ> constraints_from_iter X) (collect_res (dep_of E PR resolver) usages)"
  shows "\<exists>c. selection sol cache (resource u) = Some c \<and> meets E u c"
proof -
  obtain ds where ds: "collect_res (dep_of E PR resolver) usages = Ok ds"
    and sat: "\<forall>(q, S) \<in> set (constraints_from_iter X ds). \<exists>w. (q, w) \<in> set sol \<and> vs_contains S w"
    using solution_deps [OF contract assms(3)] deps by (auto simp: map_ok_eq_Ok)
  obtain w where w: "(RemoteIri (resource u), w) \<in> set sol"
    and m: "\<And>cs. find_candidates E PR resolver (resource u) = Ok cs \<Longrightarrow> w < length cs \<Longrightarrow> meets E u (cs ! w)"
    using usages_satisfied [OF law ds sat assms(4)] by blast
  then show ?thesis using selection_intro [OF contract w] by blast
qed

text \<open>Every resource of the usages is selected, the last usage of each is met, and all are if no resource
  occurs twice.\<close>

definition dependencies_met ::
  "('iri, 'ver, 'req, 'time) externs \<Rightarrow> ('iri \<Rightarrow> ('iri, 'ver, 'req, 'p) Candidate option)
   \<Rightarrow> ('iri, 'req) InterchangeProjectUsageG list \<Rightarrow> bool" where
  "dependencies_met E sel usages \<longleftrightarrow>
    (\<forall>u \<in> set usages. \<exists>c. sel (resource u) = Some c
      \<and> (\<forall>pre post. usages = pre @ u # post \<longrightarrow> resource u \<notin> resource ` set post \<longrightarrow> meets E u c)
      \<and> (distinct (map resource usages) \<longrightarrow> meets E u c))"

lemma find_append_None: "List.find P xs = None \<Longrightarrow> List.find P (xs @ ys) = List.find P ys"
  by (induction xs) auto

lemma effective_last: "resource u \<notin> resource ` set post \<Longrightarrow> effective (pre @ u # post) u"
proof -
  assume "resource u \<notin> resource ` set post"
  then have "List.find (\<lambda>u'. resource u' = resource u) (rev post) = None"
    by (simp add: find_None_iff image_iff) metis
  then show ?thesis by (simp add: effective_def find_append_None)
qed

lemma selection_closed_all:
  assumes law: "constraints_law X"
    and contract: "pubgrub_contract (choose_version E X PR resolver) (get_dependencies E X PR resolver) root 0 [] (Ok sol, cache)"
    and "(p, v) \<in> set sol"
    and deps: "deps_of E X PR resolver p v
      = map_ok (Available \<circ> constraints_from_iter X) (collect_res (dep_of E PR resolver) usages)"
  shows "dependencies_met E (selection sol cache) usages"
  unfolding dependencies_met_def
proof
  fix u assume u: "u \<in> set usages"
  obtain c where c: "selection sol cache (resource u) = Some c"
    using selection_present [OF law contract assms(3) u deps] by blast
  have "meets E u c" if "effective usages u"
    using selection_closed [OF law contract assms(3) that deps] c by simp
  then show "\<exists>c. selection sol cache (resource u) = Some c
      \<and> (\<forall>pre post. usages = pre @ u # post \<longrightarrow> resource u \<notin> resource ` set post \<longrightarrow> meets E u c)
      \<and> (distinct (map resource usages) \<longrightarrow> meets E u c)"
    using c effective_last effective_distinct [OF _ u] by blast
qed

text \<open>The projects of a solution are candidates, and the solution is closed under their usages.\<close>

lemma solve_closed:
  assumes law: "constraints_law X"
    and "pubgrub_contract (choose_version E X PR resolver) (get_dependencies E X PR resolver)
      (Requested requested) 0 []
      (pubgrub prioritize (choose_version E X PR resolver) (get_dependencies E X PR resolver) (Requested requested) 0 [])"
    and "solve E X PR pubgrub collapse requested resolver = Solved result"
  shows "u \<in> set requested \<Longrightarrow> map_of result (resource u) \<noteq> None"
    and "map_of result iri = Some p \<Longrightarrow> \<exists>cs c. find_candidates E PR resolver iri = Ok cs \<and> c \<in> set cs \<and> c_project c = p
      \<and> (\<forall>u \<in> set (cs_usage (c_summary c)). map_of result (resource u) \<noteq> None)"
proof -
  obtain sol cache where run: "pubgrub prioritize (choose_version E X PR resolver) (get_dependencies E X PR resolver)
      (Requested requested) 0 [] = (Ok sol, cache)"
    using assms(3) by (auto simp: solve_def split: prod.splits result.splits)
  note contract = assms(2) [unfolded run]
  have res: "map_of result i = map_option c_project (selection sol cache i)" for i
    using solve_Ok [of pubgrub, OF run contract, of collapse] assms(3)
    by (auto simp: selection_def split: option.splits)
  have root: "(Requested requested, 0) \<in> set sol" using contract by (simp add: pubgrub_contract_def)
  show "map_of result (resource u) \<noteq> None" if "u \<in> set requested"
    using selection_present [OF law contract root that] by (auto simp: res deps_of_def)
  show "\<exists>cs c. find_candidates E PR resolver iri = Ok cs \<and> c \<in> set cs \<and> c_project c = p
      \<and> (\<forall>u \<in> set (cs_usage (c_summary c)). map_of result (resource u) \<noteq> None)"
    if p: "map_of result iri = Some p"
  proof -
    obtain c where c: "selection sol cache iri = Some c" "c_project c = p" using p by (auto simp: res)
    obtain idx cs where i: "(RemoteIri iri, idx) \<in> set sol" "find_candidates E PR resolver iri = Ok cs"
      "idx < length cs" "c = cs ! idx" using selection_dest [OF contract c(1)] by blast
    have "map_of result (resource u) \<noteq> None" if "u \<in> set (cs_usage (c_summary c))" for u
      using selection_present [OF law contract i(1) that] i(2,3,4) by (auto simp: res deps_of_def)
    moreover have "c \<in> set cs" using i(3,4) by simp
    ultimately show ?thesis using i(2) c(2) by blast
  qed
qed

lemma candidate_facts:
  assumes "find_candidates E PR resolver iri = Ok cs" and "c \<in> set cs"
  shows "\<exists>raw. project_usage PR (c_project c) = Ok (Some raw)
    \<and> collect_res (validate_usage E) raw = Ok (cs_usage (c_summary c))"
proof -
  obtain out where out: "resolver iri = Ok out" using assms(1) by (auto simp: find_candidates_def)
  then obtain alts where "resolver iri = Ok (Resolved alts)" "cs = List.map_filter (candidate_of E PR) alts"
    using assms(1) by (cases out) (auto simp: find_candidates_def Let_def split: if_splits)
  then obtain alt where "alt \<in> set alts" and c: "candidate_of E PR alt = Some c"
    using assms(2) by (auto simp: List.map_filter_def)
  from c show ?thesis
    by (auto simp: candidate_of_def split: result.split_asm option.split_asm)
qed

section \<open>Properties\<close>

text \<open>C2: If the algorithm keeps its contract, \<open>solve\<close> never panics: every package of the solution is found
  in the cache it left behind, and its index is one of the cached candidates. Nor does printing an
  error reach \<open>unreachable!()\<close>.\<close>

theorem solve_no_panic:
  assumes "pubgrub_contract (choose_version E X PR resolver) (get_dependencies E X PR resolver)
      (Requested requested) 0 []
      (pubgrub prioritize (choose_version E X PR resolver) (get_dependencies E X PR resolver) (Requested requested) 0 [])"
  shows "solve E X PR pubgrub collapse requested resolver \<noteq> SolvePanic
    \<and> (\<forall>e. solve E X PR pubgrub collapse requested resolver = SolveError e \<longrightarrow> solver_error_display E report fmt e \<noteq> None)"
proof (cases "pubgrub prioritize (choose_version E X PR resolver) (get_dependencies E X PR resolver) (Requested requested) 0 []")
  case (Pair out cache)
  note contract = assms [unfolded Pair]
  show ?thesis
  proof (cases out)
    case (Ok sol)
    then show ?thesis using solve_Ok [of pubgrub, OF Pair [unfolded Ok] contract [unfolded Ok], of collapse] by auto
  next
    case (Err e)
    have "solver_error_display E report fmt (into_solver_error collapse e) \<noteq> None"
    proof (cases e)
      case (ErrorChoosingVersion p err)
      then obtain s S s' where run: "provider_run (choose_version E X PR resolver) (get_dependencies E X PR resolver) [] s"
        and pick: "choose_version E X PR resolver p S s = (Err err, s')"
        using contract Err unfolding pubgrub_contract_def by auto
      have "Err err = choice_of E X PR resolver p S" by (rule ps.run_choice [OF run cache_ok_Nil pick])
      then obtain iri where "p = RemoteIri iri"
        by (auto simp: choice_of_def split: DiscreteHashSet.splits DependencyIdentifier.splits)
      then show ?thesis using ErrorChoosingVersion by simp
    next
      case (ErrorRetrievingDependencies p v err)
      then show ?thesis by (cases p) simp_all
    next
      case (ErrorInShouldCancel err)
      then show ?thesis using contract Err by (auto simp: pubgrub_contract_def)
    qed simp
    then show ?thesis using Err Pair by (simp add: solve_def)
  qed
qed


text \<open>Evidence that the contract can be kept: an algorithm for a chain of two dependencies.\<close>

definition chain_pubgrub :: "('iri, 'ver, 'req, unit, 'p, 're) pubgrub" where
  "chain_pubgrub prio pick getd root v0 s0 =
    (case getd root v0 s0 of
       (Ok (Available [(q, S)]), s1) \<Rightarrow>
         (case pick q S s1 of
            (Ok (Some v), s2) \<Rightarrow>
              (case getd q v s2 of
                 (Ok (Available [(r, T)]), s3) \<Rightarrow>
                   (case pick r T s3 of
                      (Ok (Some w), s4) \<Rightarrow>
                        (case getd r w s4 of
                           (Ok (Available []), s5) \<Rightarrow>
                             if distinct [root, q, r] \<and> vs_contains S v \<and> vs_contains T w
                             then (Ok [(root, v0), (q, v), (r, w)], s5) else (Err (NoSolution ()), s0)
                         | _ \<Rightarrow> (Err (NoSolution ()), s0))
                    | _ \<Rightarrow> (Err (NoSolution ()), s0))
               | _ \<Rightarrow> (Err (NoSolution ()), s0))
          | _ \<Rightarrow> (Err (NoSolution ()), s0))
     | _ \<Rightarrow> (Err (NoSolution ()), s0))"

lemma chain_pubgrub_cases:
  "chain_pubgrub prio pick getd root v0 s0 = (Err (NoSolution ()), s0)
   \<or> (\<exists>q S s1 v s2 r T s3 w s4 s5.
        getd root v0 s0 = (Ok (Available [(q, S)]), s1) \<and> pick q S s1 = (Ok (Some v), s2)
        \<and> getd q v s2 = (Ok (Available [(r, T)]), s3) \<and> pick r T s3 = (Ok (Some w), s4)
        \<and> getd r w s4 = (Ok (Available []), s5)
        \<and> distinct [root, q, r] \<and> vs_contains S v \<and> vs_contains T w
        \<and> chain_pubgrub prio pick getd root v0 s0 = (Ok [(root, v0), (q, v), (r, w)], s5))"
  unfolding chain_pubgrub_def
  by (simp split: prod.split result.split option.split Dependencies.split list.split)

lemma chain_pubgrub_contract:
  "pubgrub_contract pick getd root v0 s0 (chain_pubgrub prio pick getd root v0 s0)"
  using chain_pubgrub_cases [of prio pick getd root v0 s0]
proof
  assume "chain_pubgrub prio pick getd root v0 s0 = (Err (NoSolution ()), s0)"
  then show ?thesis by (simp add: pubgrub_contract_def run_start)
next
  assume "\<exists>q S s1 v s2 r T s3 w s4 s5.
        getd root v0 s0 = (Ok (Available [(q, S)]), s1) \<and> pick q S s1 = (Ok (Some v), s2)
        \<and> getd q v s2 = (Ok (Available [(r, T)]), s3) \<and> pick r T s3 = (Ok (Some w), s4)
        \<and> getd r w s4 = (Ok (Available []), s5)
        \<and> distinct [root, q, r] \<and> vs_contains S v \<and> vs_contains T w
        \<and> chain_pubgrub prio pick getd root v0 s0 = (Ok [(root, v0), (q, v), (r, w)], s5)"
  then obtain q S s1 v s2 r T s3 w s4 s5 where
    g: "getd root v0 s0 = (Ok (Available [(q, S)]), s1)" "pick q S s1 = (Ok (Some v), s2)"
      "getd q v s2 = (Ok (Available [(r, T)]), s3)" "pick r T s3 = (Ok (Some w), s4)"
      "getd r w s4 = (Ok (Available []), s5)"
    and d: "distinct [root, q, r]" "vs_contains S v" "vs_contains T w"
    and out: "chain_pubgrub prio pick getd root v0 s0 = (Ok [(root, v0), (q, v), (r, w)], s5)"
    by blast
  note run = provider_run.intros [of pick getd]
  have run0: "provider_run pick getd s0 s2" "provider_run pick getd s0 s4" "provider_run pick getd s0 s5"
    "provider_run pick getd s1 s5" "provider_run pick getd s3 s5"
    using run(1) run(2) [OF _ g(2)] run(2) [OF _ g(4)] run(3) [OF _ g(1)] run(3) [OF _ g(3)] run(3) [OF _ g(5)]
    by blast+
  let ?sol = "[(root, v0), (q, v), (r, w)]"
  let ?good = "\<lambda>p x. \<exists>s deps s'. provider_run pick getd s0 s \<and> getd p x s = (Ok (Available deps), s')
      \<and> provider_run pick getd s' s5 \<and> (\<forall>(q', S') \<in> set deps. \<exists>w'. (q', w') \<in> set ?sol \<and> vs_contains S' w')"
  have "?good root v0"
    using g(1) d run0 run(1) [of s0]
    by (intro exI [of _ s0] exI [of _ "[(q, S)]"] exI [of _ s1]) auto
  moreover have "?good q v"
    using g(3) d run0 by (intro exI [of _ s2] exI [of _ "[(r, T)]"] exI [of _ s3]) auto
  moreover have "?good r w"
    using g(5) run0 run(1) [of s5] by (intro exI [of _ s4] exI [of _ "[]"] exI [of _ s5]) auto
  ultimately have "\<forall>(p, x) \<in> set ?sol. ?good p x" by simp
  then show ?thesis using d(1) run0(3) by (simp add: pubgrub_contract_def out)
qed

definition sample_solver_read :: "(nat, unit) ProjectRead" where
  "sample_solver_read = \<lparr>
     get_project = (\<lambda>n. Ok (Some ((info_minimal ''lib'' (if n = 1 then ''1'' else ''2''))
       \<lparr>i_usage := (if n = 3 then [] else [Resource ''b:y'' None])\<rparr>), None)),
     read_source = (\<lambda>n path. Err ())\<rparr>"

definition sample_solver_resolve :: "(string, nat, unit) resolver" where
  "sample_solver_resolve uri =
    (if uri = ''a:x'' then Ok (Resolved [Ok 1, Ok 2]) else Ok (Resolved [Err (), Ok 3]))"

definition sample_solver_externs :: "(string, string, string) solver_externs" where
  "sample_solver_externs = \<lparr>constraints_from_iter = (\<lambda>deps. AList.clearjunk (rev deps)), sort_descending = (\<lambda>xs. rev (sort_key snd xs))\<rparr>"

definition sample_solve where
  "sample_solve = solve sample_externs sample_solver_externs sample_solver_read chain_pubgrub (\<lambda>t. t)
     [Resource ''a:x'' (Some ''2'')] sample_solver_resolve"

lemma sample_solve_Solved: "sample_solve = Solved [(''a:x'', 2), (''b:y'', 3)]"
  by code_simp

lemma sample_constraints_law: "constraints_law sample_solver_externs"
proof -
  have "set (AList.clearjunk xs) = {(p, S). map_of xs p = Some S}" for xs :: "((string, string) DependencyIdentifier \<times> nat DiscreteHashSet) list"
    using map_of_eq_Some_iff [OF distinct_clearjunk, of xs] by (auto simp: map_of_clearjunk)
  then show ?thesis by (simp add: constraints_law_def sample_solver_externs_def)
qed

text \<open>Of two constraints on one resource, the first is lost: version 1 and version 2 are requested, and
  version 2 is selected.\<close>

lemma duplicate_usage_dropped:
  "solve sample_externs sample_solver_externs sample_solver_read chain_pubgrub (\<lambda>t. t)
      [Resource ''a:x'' (Some ''1''), Resource ''a:x'' (Some ''2'')] sample_solver_resolve
    = Solved [(''a:x'', 2), (''b:y'', 3)]
   \<and> project_version sample_solver_read 2 = Ok (Some ''2'')
   \<and> \<not> req_matches sample_externs ''1'' ''2''"
  by code_simp

theorem solve_no_panic_witness: "sample_solve \<noteq> SolvePanic"
  unfolding sample_solve_def by (rule conjunct1 [OF solve_no_panic [where pubgrub = chain_pubgrub, OF chain_pubgrub_contract]])


lemma find_sorted_wrt:
  assumes "sorted_wrt R xs" and "List.find P xs = Some x"
  shows "\<And>y. y \<in> set xs \<Longrightarrow> P y \<Longrightarrow> y = x \<or> R x y"
  using assms
proof (induction xs)
  case Nil
  then show ?case by simp
next
  case (Cons a xs)
  then show ?case by (cases "P a") auto
qed

text \<open>How a version is chosen. From a finite set of alternatives it is the least index. For a package
  constrained only by exclusions it is an index of an existing candidate that is not excluded, and no
  candidate that is not excluded has a higher version; there is no choice exactly if every candidate
  is excluded. The choice does not depend on what is cached.\<close>

theorem choose_version_highest:
  assumes "cache_ok E PR resolver cache" and "sort_law le X" and "\<And>v. le v v"
    and "find_candidates E PR resolver iri = Ok cs" and "finite S"
  shows "fst (choose_version E X PR resolver package (Finite S) cache) = Ok (if S = {} then None else Some (Min S))
    \<and> (case fst (choose_version E X PR resolver (RemoteIri iri) (CoFinite S) cache) of
         Ok (Some i) \<Rightarrow> i < length cs \<and> i \<notin> S
           \<and> (\<forall>j < length cs. j \<notin> S \<longrightarrow> le (cs_version (c_summary (cs ! j))) (cs_version (c_summary (cs ! i))))
       | Ok None \<Rightarrow> {..<length cs} \<subseteq> S
       | Err e \<Rightarrow> False)"
proof -
  let ?xs = "List.enumerate 0 (map (cs_version \<circ> c_summary) cs)"
  let ?ys = "sort_descending X ?xs"
  have same: "set ?ys = set ?xs" and ord: "sorted_wrt (\<lambda>a b. le (snd b) (snd a)) ?ys"
    using assms(2) mset_eq_setD by (auto simp: sort_law_def)
  have in_xs: "(j, v) \<in> set ?xs \<longleftrightarrow> j < length cs \<and> v = cs_version (c_summary (cs ! j))" for j v
    by (auto simp: in_set_enumerate_eq)
  have r: "fst (choose_version E X PR resolver (RemoteIri iri) (CoFinite S) cache) = Ok (first_allowed S ?ys)"
    using answers_choose_version [of E PR resolver X "RemoteIri iri" "CoFinite S"] assms(1,4)
    by (simp add: answers_def choice_of_def)
  have "case first_allowed S ?ys of
      Some i \<Rightarrow> i < length cs \<and> i \<notin> S
        \<and> (\<forall>j < length cs. j \<notin> S \<longrightarrow> le (cs_version (c_summary (cs ! j))) (cs_version (c_summary (cs ! i))))
    | None \<Rightarrow> {..<length cs} \<subseteq> S"
  proof (cases "List.find (\<lambda>(i, v). i \<notin> S) ?ys")
    case None
    then have "j \<in> S" if "j < length cs" for j
      using that in_xs same unfolding find_None_iff by force
    then show ?thesis using None by (auto simp: first_allowed_def)
  next
    case (Some x)
    obtain i v where x: "x = (i, v)" by force
    have i: "(i, v) \<in> set ?xs" "i \<notin> S" using find_Some_in [OF Some] same x by auto
    have "le (cs_version (c_summary (cs ! j))) v" if "j < length cs" "j \<notin> S" for j
      using find_sorted_wrt [OF ord Some, of "(j, cs_version (c_summary (cs ! j)))"] same in_xs that x assms(3) by auto
    then show ?thesis using i in_xs Some x by (auto simp: first_allowed_def)
  qed
  then show ?thesis
    unfolding r using answers_choose_version [of E PR resolver X package "Finite S"] assms(1)
    by (cases "first_allowed S ?ys") (simp_all add: answers_def choice_of_def)
qed

lemma sample_sort_law: "sort_law (\<le>) sample_solver_externs"
  unfolding sort_law_def sample_solver_externs_def
proof (intro allI conjI)
  fix xs :: "(nat \<times> string) list"
  have "sorted (map snd (sort_key snd xs))" by simp
  then show "sorted_wrt (\<lambda>a b. snd b \<le> snd a)
      (sort_descending \<lparr>constraints_from_iter = \<lambda>deps. AList.clearjunk (rev deps), sort_descending = \<lambda>xs. rev (sort_key snd xs)\<rparr> xs)"
    by (simp add: sorted_wrt_rev sorted_wrt_map)
qed simp

theorem choose_version_highest_witness:
  "fst (choose_version sample_externs sample_solver_externs sample_solver_read sample_solver_resolve
      (RemoteIri ''b:y'') (Finite {4, 2}) []) = Ok (Some 2)"
proof -
  have "is_ok (find_candidates sample_externs sample_solver_read sample_solver_resolve ''a:x'')" by code_simp
  then obtain cs where "find_candidates sample_externs sample_solver_read sample_solver_resolve ''a:x'' = Ok cs"
    by (auto simp: is_ok_iff)
  from choose_version_highest [OF cache_ok_Nil sample_sort_law order.refl this, of "{4, 2}" "RemoteIri ''b:y''"]
  show ?thesis by simp
qed

text \<open>The cache is transparent: in any state the algorithm can bring the provider to, choosing a version
  and retrieving dependencies give what fresh lookups would give, so that the outcome of each call is a
  function of its arguments alone; entries are only ever added to the cache.\<close>

theorem provider_deterministic:
  assumes "provider_run (choose_version E X PR resolver) (get_dependencies E X PR resolver) [] cache"
  shows "fst (choose_version E X PR resolver p S cache) = choice_of E X PR resolver p S
    \<and> fst (get_dependencies E X PR resolver p v cache) = deps_of E X PR resolver p v
    \<and> (\<forall>uri cs. map_of cache uri = Some cs \<longrightarrow>
        find_candidates E PR resolver uri = Ok cs \<and> cs \<noteq> []
        \<and> map_of (snd (choose_version E X PR resolver p S cache)) uri = Some cs
        \<and> map_of (snd (get_dependencies E X PR resolver p v cache)) uri = Some cs)"
proof -
  have ok: "cache_ok E PR resolver cache" using ps.run_invar [OF assms cache_ok_Nil] by blast
  have a: "fst (choose_version E X PR resolver p S cache) = choice_of E X PR resolver p S"
    "map_of cache \<subseteq>\<^sub>m map_of (snd (choose_version E X PR resolver p S cache))"
    using answers_choose_version [of E PR resolver X p S] ok by (auto simp: answers_def)
  have b: "fst (get_dependencies E X PR resolver p v cache) = deps_of E X PR resolver p v"
    "map_of cache \<subseteq>\<^sub>m map_of (snd (get_dependencies E X PR resolver p v cache))"
    using answers_get_dependencies [of E PR resolver X p v] ok by (auto simp: answers_def)
  have "find_candidates E PR resolver uri = Ok cs \<and> cs \<noteq> []
        \<and> map_of (snd (choose_version E X PR resolver p S cache)) uri = Some cs
        \<and> map_of (snd (get_dependencies E X PR resolver p v cache)) uri = Some cs"
    if "map_of cache uri = Some cs" for uri cs
    using that ok a(2) b(2) find_candidates_nonempty [of E PR resolver uri cs]
    by (auto simp: cache_ok_def map_le_def dom_def)
  then show ?thesis using a(1) b(1) by blast
qed

theorem provider_deterministic_witness:
  "fst (get_dependencies sample_externs sample_solver_externs sample_solver_read sample_solver_resolve
      (RemoteIri ''b:y'') 0 []) = Ok (Available [])"
proof -
  have "deps_of sample_externs sample_solver_externs sample_solver_read sample_solver_resolve
      (RemoteIri ''b:y'') 0 = Ok (Available [])" by code_simp
  then show ?thesis
    using provider_deterministic [OF run_start, of sample_externs sample_solver_externs sample_solver_read
        sample_solver_resolve "RemoteIri ''b:y''" _ 0] by simp
qed

text \<open>Equality of the source's sets is not exact: the finite set of all machine words and the co-finite
  set with no exception contain the same indices and differ.\<close>

lemma discrete_hash_set_eq_not_exact:
  "(Finite UNIV :: usize DiscreteHashSet) \<noteq> CoFinite {}
   \<and> vs_contains (Finite UNIV :: usize DiscreteHashSet) v = vs_contains (CoFinite {}) v"
  by simp

text \<open>C36: The alternatives of a package form a version set over machine words: complement, intersection
  and singletons act as the corresponding operations on the sets of indices they stand for. Equality of
  values is equality of those sets as long as the hash sets of the two together have less than
  \<open>2 ^ 64\<close> entries, so that below this bound disjointness can be decided by comparing an
  intersection with the empty set; the same holds for inclusion as long as the entries of both and
  those of the first once more stay below the bound. Reading the indices as numbers, as the
  solver's model does, commutes with all of it.\<close>

theorem discrete_hash_set_laws:
  fixes a b :: "usize DiscreteHashSet"
  shows "(vs_contains (vs_complement a) v \<longleftrightarrow> \<not> vs_contains a v)
    \<and> (vs_contains (vs_intersection a b) v \<longleftrightarrow> vs_contains a v \<and> vs_contains b v)
    \<and> (vs_contains (vs_singleton w) v \<longleftrightarrow> v = w) \<and> \<not> vs_contains vs_empty v
    \<and> (vs_card a + vs_card b < 2 ^ 64 \<longrightarrow>
        (a = b \<longleftrightarrow> (\<forall>v. vs_contains a v = vs_contains b v))
        \<and> (vs_intersection a b = vs_empty \<longleftrightarrow> (\<forall>v. \<not> (vs_contains a v \<and> vs_contains b v))))
    \<and> (2 * vs_card a + vs_card b < 2 ^ 64 \<longrightarrow>
        (vs_intersection a b = a \<longleftrightarrow> (\<forall>v. vs_contains a v \<longrightarrow> vs_contains b v)))
    \<and> vs_card (vs_complement a) = vs_card a \<and> vs_card (vs_intersection a b) \<le> vs_card a + vs_card b
    \<and> vs_image unat (vs_intersection a b) = vs_intersection (vs_image unat a) (vs_image unat b)
    \<and> vs_image unat (vs_complement a) = vs_complement (vs_image unat a)
    \<and> (vs_contains (vs_image unat a) (unat v) \<longleftrightarrow> vs_contains a v)"
proof -
  have inj: "inj (unat :: usize \<Rightarrow> nat)" by (simp add: inj_def word_unat_eq_iff)
  show ?thesis
    using dhs.contains_compl dhs.contains_inter dhs.contains_single dhs.contains_empty
      dhs.disjoint_iff dhs.subset_iff dhs.eq_iff dhs.weight_compl dhs.weight_inter vs_image_inj [OF inj]
    by (intro conjI impI) (simp_all only: not_False_eq_True)
qed

theorem discrete_hash_set_laws_witness:
  "vs_intersection (Finite {1, 2}) (CoFinite {1, 2}) = (vs_empty :: usize DiscreteHashSet)"
proof -
  have "vs_card (Finite {1, 2 :: usize}) + vs_card (CoFinite {1, 2 :: usize}) < 2 ^ 64"
    by (simp add: card_insert_if)
  with discrete_hash_set_laws [where a = "Finite {1, 2}" and b = "CoFinite {1, 2}"]
  have "vs_intersection (Finite {1, 2 :: usize}) (CoFinite {1, 2}) = vs_empty
      \<longleftrightarrow> (\<forall>v. \<not> (vs_contains (Finite {1, 2 :: usize}) v \<and> vs_contains (CoFinite {1, 2}) v))" by blast
  moreover have "\<forall>v. \<not> (vs_contains (Finite {1, 2 :: usize}) v \<and> vs_contains (CoFinite {1, 2}) v)" by auto
  ultimately show ?thesis by blast
qed

end
