(* ===== verification/LockCommand.thy ===== *)
theory LockCommand
  imports Solver
begin

text \<open>
  Locking, \<^verbatim>\<open>core/src/commands/lock.rs\<close>: \<^verbatim>\<open>do_lock_projects\<close> reads the input
  projects into a lock, \<^verbatim>\<open>do_lock_extend\<close> solves for their usages and adds the solution,
  refusing symbols that are exported twice. The source list of a project depends on its kind and
  is an argument, as are the hash of the standard library, whose algorithm is unspecified, and
  the iteration order of its hash map. \<open>LockPanic\<close> stands for a panic of the solver or for the
  index \<^verbatim>\<open>ids[0]\<close> of an empty list. Assertions of debug builds and log messages are left out.
\<close>

datatype IncompleteField = InfoField | MetaField | CanonicalDigest

datatype ('pe, 'iri, 'req, 'tree, 're) LockError =
    DependencyProject 'pe
  | IncompleteProject string IncompleteField
  | InvalidUsage string InterchangeProjectValidationError
  | SolverFailed "('iri, 'req, 'tree, 're InternalSolverError) PubGrubError"
  | LockNameCollision string LockProject LockProject
  | SelfNameCollision string LockProject
  | LockPanic

datatype ('ie, 'pe, 'iri, 'req, 'tree, 're) LockProjectError =
    InputProjectError 'ie
  | LockErr "('pe, 'iri, 'req, 'tree, 're) LockError"

record ('iri, 'p) LockOutcome =
  lo_lock :: Lock
  lo_dependencies :: "('iri \<times> 'p) list"

text \<open>What locking is parametrized by: the resolver with its project reader, the solver's parameters, the
  sources of a resolved project, the hash and the iteration order.\<close>

record ('iri, 'ver, 'req, 'time, 'p, 'pe, 'tree, 're) lock_params =
  lp_externs :: "('iri, 'ver, 'req, 'time) externs"
  lp_solver :: "('iri, 'ver, 'req) solver_externs"
  lp_read :: "('p, 'pe) ProjectRead"
  lp_sources :: "'p \<Rightarrow> (Source list, 'pe) result"
  lp_pubgrub :: "('iri, 'ver, 'req, 'tree, 'p, 're) pubgrub"
  lp_collapse :: "'tree \<Rightarrow> 'tree"
  lp_hash :: "string \<Rightarrow> 64 word"
  lp_order :: "('iri \<times> 'p) list \<Rightarrow> ('iri \<times> 'p) list"

definition lock_project ::
  "InterchangeProjectInfoRaw \<Rightarrow> InterchangeProjectMetadataRaw \<Rightarrow> string list \<Rightarrow> Source list \<Rightarrow> LockProject" where
  "lock_project info meta identifiers sources = \<lparr>
     p_publisher = i_publisher info,
     p_name = i_name info,
     p_version = i_version info,
     p_exports = map fst (m_index meta),
     p_identifiers = identifiers,
     p_usages = map resource (i_usage info),
     p_sources = sources\<rparr>"

section \<open>Extending a lock\<close>

fun index_exports ::
  "(string \<Rightarrow> 64 word) \<Rightarrow> LockProject list \<Rightarrow> nat \<Rightarrow> LockProject \<Rightarrow> string list \<Rightarrow> (64 word \<rightharpoonup> nat)
   \<Rightarrow> (64 word \<rightharpoonup> nat, ('pe, 'iri, 'req, 'tree, 're) LockError) result" where
  "index_exports hash projects i p [] symbols = Ok symbols"
| "index_exports hash projects i p (s # ss) symbols =
    (case symbols (hash s) of
       Some conflict_idx \<Rightarrow> Err (LockNameCollision s (projects ! conflict_idx) p)
     | None \<Rightarrow> index_exports hash projects i p ss (symbols(hash s \<mapsto> i)))"

definition index_project ::
  "(string \<Rightarrow> 64 word) \<Rightarrow> LockProject list \<Rightarrow> string set \<times> (64 word \<rightharpoonup> nat) \<Rightarrow> nat \<times> LockProject
   \<Rightarrow> (string set \<times> (64 word \<rightharpoonup> nat), ('pe, 'iri, 'req, 'tree, 're) LockError) result" where
  "index_project hash projects = (\<lambda>(lock_iris, symbols) (i, p).
    map_ok (\<lambda>symbols'. (case first_of (p_identifiers p) of
        Some iri \<Rightarrow> (insert iri lock_iris, symbols')
      | None \<Rightarrow> (lock_iris, symbols')))
      (index_exports hash projects i p (p_exports p) symbols))"

fun claim_exports ::
  "(string \<Rightarrow> 64 word) \<Rightarrow> LockProject list \<Rightarrow> LockProject \<Rightarrow> string list \<Rightarrow> (64 word \<rightharpoonup> nat)
   \<Rightarrow> (64 word \<rightharpoonup> nat, ('pe, 'iri, 'req, 'tree, 're) LockError) result" where
  "claim_exports hash projects p [] symbols = Ok symbols"
| "claim_exports hash projects p (s # ss) symbols =
    (case symbols (hash s) of
       Some conflict_idx \<Rightarrow>
         if conflict_idx = length projects then Err (SelfNameCollision s p)
         else Err (LockNameCollision s (projects ! conflict_idx) p)
     | None \<Rightarrow> claim_exports hash projects p ss (symbols(hash s \<mapsto> length projects)))"

record ('iri, 'p) extend_state =
  es_projects :: "LockProject list"
  es_symbols :: "64 word \<rightharpoonup> nat"
  es_dependencies :: "('iri \<times> 'p) list"

definition lock_dependency ::
  "('iri, 'ver, 'req, 'time, 'p, 'pe, 'tree, 're) lock_params \<Rightarrow> (string \<times> 'm) list \<Rightarrow> 'iri \<Rightarrow> 'p
   \<Rightarrow> (LockProject, ('pe, 'iri, 'req, 'tree, 're) LockError) result" where
  "lock_dependency L provided iri project =
    (let iri_s = iri_str (lp_externs L) iri in
     and_then (map_err DependencyProject (get_info (lp_read L) project)) (\<lambda>i.
     and_then (ok_or i (IncompleteProject iri_s InfoField)) (\<lambda>info.
     and_then (map_err DependencyProject (get_meta (lp_read L) project)) (\<lambda>m.
     and_then (ok_or m (IncompleteProject iri_s MetaField)) (\<lambda>meta.
     and_then (if map_of provided iri_s = None then map_err DependencyProject (lp_sources L project) else Ok []) (\<lambda>sources.
     Ok (lock_project info meta [iri_s] sources)))))))"

definition extend_step ::
  "('iri, 'ver, 'req, 'time, 'p, 'pe, 'tree, 're) lock_params \<Rightarrow> (string \<times> 'm) list \<Rightarrow> string set
   \<Rightarrow> ('iri, 'p) extend_state \<Rightarrow> 'iri \<times> 'p
   \<Rightarrow> (('iri, 'p) extend_state, ('pe, 'iri, 'req, 'tree, 're) LockError) result" where
  "extend_step L provided lock_iris st = (\<lambda>(iri, project).
    and_then (lock_dependency L provided iri project) (\<lambda>p.
    and_then
      (if iri_str (lp_externs L) iri \<in> lock_iris then Ok st
       else map_ok (\<lambda>symbols. st\<lparr>es_symbols := symbols, es_projects := es_projects st @ [p]\<rparr>)
              (claim_exports (lp_hash L) (es_projects st) p (p_exports p) (es_symbols st))) (\<lambda>st'.
    Ok (st'\<lparr>es_dependencies := es_dependencies st' @ [(iri, project)]\<rparr>))))"

definition do_lock_extend ::
  "('iri, 'ver, 'req, 'time, 'p, 'pe, 'tree, 're) lock_params \<Rightarrow> Lock
   \<Rightarrow> ('iri, 'req) InterchangeProjectUsageG list \<Rightarrow> ('iri, 'p, 're) resolver \<Rightarrow> (string \<times> 'm) list
   \<Rightarrow> (('iri, 'p) LockOutcome, ('pe, 'iri, 'req, 'tree, 're) LockError) result" where
  "do_lock_extend L lock usages resolver provided =
    (case solve (lp_externs L) (lp_solver L) (lp_read L) (lp_pubgrub L) (lp_collapse L) usages resolver of
       SolvePanic \<Rightarrow> Err LockPanic
     | SolveError e \<Rightarrow> Err (SolverFailed e)
     | Solved solution \<Rightarrow>
         and_then (fold_res (index_project (lp_hash L) (lock_projects lock)) ({}, Map.empty)
             (List.enumerate 0 (lock_projects lock))) (\<lambda>(lock_iris, symbols).
         and_then (fold_res (extend_step L provided lock_iris)
             \<lparr>es_projects = lock_projects lock, es_symbols = symbols, es_dependencies = []\<rparr>
             (lp_order L solution)) (\<lambda>st.
         Ok \<lparr>lo_lock = lock\<lparr>lock_projects := es_projects st\<rparr>, lo_dependencies = es_dependencies st\<rparr>)))"

section \<open>Locking projects\<close>

definition input_label :: "('iri, 'ver, 'req, 'time) externs \<Rightarrow> 'iri list option \<Rightarrow> string" where
  "input_label E identifiers =
    (case identifiers of
       Some (iri # _) \<Rightarrow> ''`'' @ iri_str E iri @ ''`''
     | _ \<Rightarrow> ''<unknown input project>'')"

definition invalid_usage ::
  "('iri, 'ver, 'req, 'time) externs \<Rightarrow> 'iri list option \<Rightarrow> string \<Rightarrow> InterchangeProjectValidationError
   \<Rightarrow> ('pe, 'iri, 'req, 'tree, 're) LockError" where
  "invalid_usage E identifiers nm e =
    (case identifiers of
       Some (iri # _) \<Rightarrow> InvalidUsage (iri_str E iri) e
     | Some [] \<Rightarrow> LockPanic
     | None \<Rightarrow> InvalidUsage nm e)"

text \<open>One input project: the entry it gets in the lock and its validated usages.\<close>

definition lock_input ::
  "('iri, 'ver, 'req, 'time) externs \<Rightarrow> ('i, 'ie) ProjectRead \<Rightarrow> ('i \<Rightarrow> (Source list, 'ie) result)
   \<Rightarrow> 'iri list option \<times> 'i
   \<Rightarrow> (LockProject \<times> ('iri, 'req) InterchangeProjectUsageG list,
       ('ie, 'pe, 'iri, 'req, 'tree, 're) LockProjectError) result" where
  "lock_input E PI srcs = (\<lambda>(identifiers, project).
    and_then (map_err InputProjectError (get_info PI project)) (\<lambda>i.
    and_then (ok_or i (LockErr (IncompleteProject (input_label E identifiers) InfoField))) (\<lambda>info.
    and_then (map_err (\<lambda>e. LockErr (invalid_usage E identifiers (i_name info) e)) (validate_info E info)) (\<lambda>validated_info.
    and_then (map_err InputProjectError (get_meta PI project)) (\<lambda>m.
    and_then (ok_or m (LockErr (IncompleteProject (''`'' @ i_name info @ ''` '' @ i_version info) MetaField))) (\<lambda>meta.
    and_then (map_err InputProjectError (srcs project)) (\<lambda>sources.
    Ok (lock_project info meta (case identifiers of Some ids \<Rightarrow> map (iri_str E) ids | None \<Rightarrow> []) sources,
        i_usage validated_info))))))))"

definition do_lock_projects ::
  "('iri, 'ver, 'req, 'time, 'p, 'pe, 'tree, 're) lock_params \<Rightarrow> ('i, 'ie) ProjectRead
   \<Rightarrow> ('i \<Rightarrow> (Source list, 'ie) result) \<Rightarrow> ('iri list option \<times> 'i) list \<Rightarrow> ('iri, 'p, 're) resolver
   \<Rightarrow> (string \<times> 'm) list
   \<Rightarrow> (('iri, 'p) LockOutcome, ('ie, 'pe, 'iri, 'req, 'tree, 're) LockProjectError) result" where
  "do_lock_projects L PI srcs projects resolver provided =
    and_then (collect_res (lock_input (lp_externs L) PI srcs) projects) (\<lambda>inputs.
      map_err LockErr (do_lock_extend L (lock_default\<lparr>lock_projects := map fst inputs\<rparr>)
        (concat (map snd inputs)) resolver provided))"

section \<open>Symbols are exported once\<close>

text \<open>The symbol table covers exactly the exports of the projects, which are distinct.\<close>

definition symbols_ok :: "(string \<Rightarrow> 64 word) \<Rightarrow> LockProject list \<Rightarrow> (64 word \<rightharpoonup> nat) \<Rightarrow> bool" where
  "symbols_ok hash projects symbols \<longleftrightarrow>
    dom symbols = hash ` set (concat (map p_exports projects)) \<and> distinct (concat (map p_exports projects))"

lemma index_exports_Ok:
  "index_exports hash projects i p ss symbols = (Ok symbols' :: (_, ('pe, 'iri, 'req, 'tree, 're) LockError) result)
    \<Longrightarrow> distinct ss \<and> hash ` set ss \<inter> dom symbols = {} \<and> dom symbols' = dom symbols \<union> hash ` set ss"
proof (induction ss arbitrary: symbols)
  case (Cons s ss)
  from Cons.prems have n: "symbols (hash s) = None"
    and r: "index_exports hash projects i p ss (symbols(hash s \<mapsto> i)) = (Ok symbols' :: (_, ('pe, 'iri, 'req, 'tree, 're) LockError) result)"
    by (auto split: option.split_asm if_split_asm)
  note IH = Cons.IH [OF r]
  have "hash s \<notin> hash ` set ss" "hash s \<notin> dom symbols" using IH n by auto
  then have "distinct (s # ss)" "hash ` set (s # ss) \<inter> dom symbols = {}" using IH by auto
  moreover have "dom symbols' = dom (symbols(hash s \<mapsto> i)) \<union> hash ` set ss" using IH by blast
  then have "dom symbols' = dom symbols \<union> hash ` set (s # ss)" by auto
  ultimately show ?case by blast
qed simp

lemma claim_exports_Ok:
  "claim_exports hash projects p ss symbols = (Ok symbols' :: (_, ('pe, 'iri, 'req, 'tree, 're) LockError) result)
    \<Longrightarrow> distinct ss \<and> hash ` set ss \<inter> dom symbols = {} \<and> dom symbols' = dom symbols \<union> hash ` set ss"
proof (induction ss arbitrary: symbols)
  case (Cons s ss)
  from Cons.prems have n: "symbols (hash s) = None"
    and r: "claim_exports hash projects p ss (symbols(hash s \<mapsto> length projects)) = (Ok symbols' :: (_, ('pe, 'iri, 'req, 'tree, 're) LockError) result)"
    by (auto split: option.split_asm if_split_asm)
  note IH = Cons.IH [OF r]
  have "hash s \<notin> hash ` set ss" "hash s \<notin> dom symbols" using IH n by auto
  then have "distinct (s # ss)" "hash ` set (s # ss) \<inter> dom symbols = {}" using IH by auto
  moreover have "dom symbols' = dom (symbols(hash s \<mapsto> length projects)) \<union> hash ` set ss" using IH by blast
  then have "dom symbols' = dom symbols \<union> hash ` set (s # ss)" by auto
  ultimately show ?case by blast
qed simp

lemma symbols_ok_extend:
  assumes "symbols_ok hash projects symbols"
    and "distinct (p_exports p)" "hash ` set (p_exports p) \<inter> dom symbols = {}"
    and "dom symbols' = dom symbols \<union> hash ` set (p_exports p)"
  shows "symbols_ok hash (projects @ [p]) symbols'"
proof -
  have "set (concat (map p_exports projects)) \<inter> set (p_exports p) = {}"
    using assms(1,3) unfolding symbols_ok_def by blast
  then show ?thesis using assms(1,2,4) by (simp add: symbols_ok_def image_Un)
qed

lemma index_projects_Ok:
  assumes "fold_res (index_project hash projects) (iris, symbols) (List.enumerate n ps)
      = (Ok (iris', symbols') :: (_, ('pe, 'iri, 'req, 'tree, 're) LockError) result)"
    and "symbols_ok hash qs symbols"
  shows "symbols_ok hash (qs @ ps) symbols' \<and> iris' = iris \<union> {i. \<exists>p \<in> set ps. first_of (p_identifiers p) = Some i}"
  using assms
proof (induction ps arbitrary: iris symbols n qs)
  case Nil
  then show ?case by auto
next
  case (Cons p ps)
  obtain symbols1 where ex: "index_exports hash projects n p (p_exports p) symbols = (Ok symbols1 :: (_, ('pe, 'iri, 'req, 'tree, 're) LockError) result)"
    and rest: "fold_res (index_project hash projects)
      (case first_of (p_identifiers p) of Some iri \<Rightarrow> insert iri iris | None \<Rightarrow> iris, symbols1)
      (List.enumerate (Suc n) ps) = (Ok (iris', symbols') :: (_, ('pe, 'iri, 'req, 'tree, 're) LockError) result)"
    using Cons.prems(1)
    by (cases "first_of (p_identifiers p)") (auto simp: index_project_def map_ok_eq_Ok)
  have "symbols_ok hash (qs @ [p]) symbols1"
    using index_exports_Ok [OF ex] by (intro symbols_ok_extend [OF Cons.prems(2)]) simp_all
  note IH = Cons.IH [OF rest this]
  have sy: "symbols_ok hash (qs @ p # ps) symbols'" using IH by simp
  have "iris' = (case first_of (p_identifiers p) of Some iri \<Rightarrow> insert iri iris | None \<Rightarrow> iris)
      \<union> {i. \<exists>p \<in> set ps. first_of (p_identifiers p) = Some i}" using IH by blast
  then have "iris' = iris \<union> {i. \<exists>p \<in> set (p # ps). first_of (p_identifiers p) = Some i}"
    by (cases "first_of (p_identifiers p)") auto
  with sy show ?case by blast
qed

lemma extend_step_Ok:
  fixes L :: "('iri, 'ver, 'req, 'time, 'p, 'pe, 'tree, 're) lock_params"
  assumes "extend_step L provided iris st (iri, project) = Ok st'"
  obtains p where "lock_dependency L provided iri project = Ok p"
    and "es_dependencies st' = es_dependencies st @ [(iri, project)]"
    and "symbols_ok (lp_hash L) (es_projects st) (es_symbols st) \<longrightarrow> symbols_ok (lp_hash L) (es_projects st') (es_symbols st')"
    and "es_projects st' = (if iri_str (lp_externs L) iri \<in> iris then es_projects st else es_projects st @ [p])"
proof -
  obtain p st1 where p: "lock_dependency L provided iri project = Ok p"
    and st1: "(if iri_str (lp_externs L) iri \<in> iris then Ok st
       else map_ok (\<lambda>symbols. st\<lparr>es_symbols := symbols, es_projects := es_projects st @ [p]\<rparr>)
              (claim_exports (lp_hash L) (es_projects st) p (p_exports p) (es_symbols st))) = (Ok st1 :: (_, ('pe, 'iri, 'req, 'tree, 're) LockError) result)"
    and st': "st' = st1\<lparr>es_dependencies := es_dependencies st1 @ [(iri, project)]\<rparr>"
    using assms by (auto simp: extend_step_def)
  show ?thesis
  proof (cases "iri_str (lp_externs L) iri \<in> iris")
    case True
    then show ?thesis using st1 st' by (intro that [OF p]) simp_all
  next
    case False
    then obtain symbols where sy: "claim_exports (lp_hash L) (es_projects st) p (p_exports p) (es_symbols st)
        = (Ok symbols :: (_, ('pe, 'iri, 'req, 'tree, 're) LockError) result)"
      and "st1 = st\<lparr>es_symbols := symbols, es_projects := es_projects st @ [p]\<rparr>"
      using st1 by (simp only: if_False map_ok_eq_Ok) blast
    then have st'': "es_projects st' = es_projects st @ [p]" "es_symbols st' = symbols"
      "es_dependencies st' = es_dependencies st @ [(iri, project)]"
      using st' by simp_all
    have "symbols_ok (lp_hash L) (es_projects st @ [p]) symbols"
      if "symbols_ok (lp_hash L) (es_projects st) (es_symbols st)"
      using claim_exports_Ok [OF sy] by (intro symbols_ok_extend [OF that]) simp_all
    then have "symbols_ok (lp_hash L) (es_projects st) (es_symbols st)
        \<longrightarrow> symbols_ok (lp_hash L) (es_projects st @ [p]) symbols" by blast
    then show ?thesis using False by (intro that [OF p]) (simp_all only: st'' if_False simp_thms)
  qed
qed

lemma extend_fold_Ok:
  assumes "fold_res (extend_step L provided iris) st xs = Ok st'"
    and "symbols_ok (lp_hash L) (es_projects st) (es_symbols st)"
  shows "symbols_ok (lp_hash L) (es_projects st') (es_symbols st')
    \<and> es_dependencies st' = es_dependencies st @ xs
    \<and> (\<exists>added. es_projects st' = es_projects st @ added
        \<and> list_all2 (\<lambda>(iri, project) p. lock_dependency L provided iri project = Ok p)
            (filter (\<lambda>(iri, project). iri_str (lp_externs L) iri \<notin> iris) xs) added)"
  using assms
proof (induction xs arbitrary: st)
  case Nil
  then show ?case by simp
next
  case (Cons x xs)
  obtain iri project where x: "x = (iri, project)" by force
  obtain st1 where st1: "extend_step L provided iris st (iri, project) = Ok st1"
    and rest: "fold_res (extend_step L provided iris) st1 xs = Ok st'"
    using Cons.prems(1) x by auto
  from st1 obtain p where p: "lock_dependency L provided iri project = Ok p"
    "es_dependencies st1 = es_dependencies st @ [(iri, project)]"
    "symbols_ok (lp_hash L) (es_projects st) (es_symbols st) \<longrightarrow> symbols_ok (lp_hash L) (es_projects st1) (es_symbols st1)"
    "es_projects st1 = (if iri_str (lp_externs L) iri \<in> iris then es_projects st else es_projects st @ [p])"
    by (rule extend_step_Ok)
  from p(3) Cons.prems(2) have "symbols_ok (lp_hash L) (es_projects st1) (es_symbols st1)" by blast
  from Cons.IH [OF rest this] obtain added where
    a: "symbols_ok (lp_hash L) (es_projects st') (es_symbols st')" "es_dependencies st' = es_dependencies st1 @ xs"
      "es_projects st' = es_projects st1 @ added"
      "list_all2 (\<lambda>(iri, project) p. lock_dependency L provided iri project = Ok p)
            (filter (\<lambda>(iri, project). iri_str (lp_externs L) iri \<notin> iris) xs) added" by blast
  show ?case
  proof (cases "iri_str (lp_externs L) iri \<in> iris")
    case True
    then show ?thesis using a p(2,4) x by simp
  next
    case False
    then show ?thesis using a p(1,2,4) x by (auto intro!: exI [of _ "p # added"])
  qed
qed

lemma do_lock_extend_Ok:
  fixes L :: "('iri, 'ver, 'req, 'time, 'p, 'pe, 'tree, 're) lock_params"
  assumes "do_lock_extend L lock usages resolver provided = Ok out"
  obtains solution added where
    "solve (lp_externs L) (lp_solver L) (lp_read L) (lp_pubgrub L) (lp_collapse L) usages resolver = Solved solution"
    and "lo_dependencies out = lp_order L solution"
    and "lock_projects (lo_lock out) = lock_projects lock @ added"
    and "distinct (concat (map p_exports (lock_projects (lo_lock out))))"
    and "list_all2 (\<lambda>(iri, project) p. lock_dependency L provided iri project = Ok p)
      (filter (\<lambda>(iri, project). iri_str (lp_externs L) iri
          \<notin> {i. \<exists>p \<in> set (lock_projects lock). first_of (p_identifiers p) = Some i}) (lp_order L solution)) added"
proof -
  obtain solution where sol: "solve (lp_externs L) (lp_solver L) (lp_read L) (lp_pubgrub L) (lp_collapse L) usages resolver = Solved solution"
    using assms by (auto simp: do_lock_extend_def split: solve_outcome.splits)
  from assms obtain iris symbols st where
    ix: "fold_res (index_project (lp_hash L) (lock_projects lock)) ({}, Map.empty) (List.enumerate 0 (lock_projects lock))
        = (Ok (iris, symbols) :: (_, ('pe, 'iri, 'req, 'tree, 're) LockError) result)"
    and ex: "fold_res (extend_step L provided iris)
        \<lparr>es_projects = lock_projects lock, es_symbols = symbols, es_dependencies = []\<rparr> (lp_order L solution) = Ok st"
    and out: "out = \<lparr>lo_lock = lock\<lparr>lock_projects := es_projects st\<rparr>, lo_dependencies = es_dependencies st\<rparr>"
    unfolding do_lock_extend_def sol by (simp split: prod.splits) blast
  have "symbols_ok (lp_hash L) [] Map.empty" by (simp add: symbols_ok_def)
  from index_projects_Ok [OF ix this]
  have sy: "symbols_ok (lp_hash L) (lock_projects lock) symbols"
    and iris: "iris = {i. \<exists>p \<in> set (lock_projects lock). first_of (p_identifiers p) = Some i}"
    by simp_all
  note fin = extend_fold_Ok [OF ex, simplified, OF sy]
  then obtain added where added: "es_projects st = lock_projects lock @ added"
    "list_all2 (\<lambda>(iri, project) p. lock_dependency L provided iri project = Ok p)
      (filter (\<lambda>(iri, project). iri_str (lp_externs L) iri \<notin> iris) (lp_order L solution)) added" by blast
  show ?thesis
  proof (rule that [OF sol])
    show "lo_dependencies out = lp_order L solution" using fin out by simp
    show "lock_projects (lo_lock out) = lock_projects lock @ added" using added(1) out by simp
    show "distinct (concat (map p_exports (lock_projects (lo_lock out))))"
      using fin out by (simp add: symbols_ok_def)
  qed (use added(2) iris in simp)
qed

lemma validate_usage_resource:
  "validate_usage E raw = Ok u \<Longrightarrow> iri_text_law E \<Longrightarrow> resource raw = iri_str E (resource u)"
  by (cases raw) (auto simp: iri_text_law_def)

lemma validate_usages_resource:
  assumes "collect_res (validate_usage E) raws = Ok us" and "iri_text_law E"
  shows "map resource raws = map (iri_str E \<circ> resource) us"
  using assms(1) [unfolded collect_res_Ok] assms(2)
  by (induction rule: list_all2_induct) (auto dest: validate_usage_resource)

lemma validate_info_usage:
  "validate_info E info = Ok vinfo \<Longrightarrow> collect_res (validate_usage E) (i_usage info) = Ok (i_usage vinfo)"
  by (auto simp: validate_info_def)

lemma lock_input_Ok:
  assumes "lock_input E PI srcs x = Ok (p, us)" and "iri_text_law E"
  shows "p_usages p = map (iri_str E \<circ> resource) us"
proof -
  obtain info vinfo where "validate_info E info = Ok vinfo" "p_usages p = map resource (i_usage info)" "us = i_usage vinfo"
    using assms(1) by (cases x) (auto simp: lock_input_def lock_project_def ok_or_eq_Ok)
  then show ?thesis using validate_usages_resource [OF validate_info_usage assms(2)] by simp
qed

lemma lock_dependency_Ok:
  assumes "lock_dependency L provided iri project = Ok p"
  shows "p_identifiers p = [iri_str (lp_externs L) iri]
    \<and> (\<exists>raw. project_usage (lp_read L) project = Ok (Some raw) \<and> p_usages p = map resource raw)"
  using assms
  by (auto simp: lock_dependency_def lock_project_def project_usage_def Let_def ok_or_eq_Ok)

lemma extract_solution_distinct:
  "extract_solution sol cache result = Solved r \<Longrightarrow> distinct (map fst result) \<Longrightarrow> distinct (map fst r)"
  by (induction sol cache result rule: extract_solution.induct)
    (auto simp: distinct_update split: option.split_asm if_split_asm)

lemma solve_distinct: "solve E X PR pubgrub collapse requested resolver = Solved r \<Longrightarrow> distinct (map fst r)"
  by (auto simp: solve_def dest: extract_solution_distinct split: prod.splits result.splits)

text \<open>Iterating over a hash map visits each entry once; an IRI is its text.\<close>

definition order_law :: "('iri, 'ver, 'req, 'time, 'p, 'pe, 'tree, 're) lock_params \<Rightarrow> bool" where
  "order_law L \<longleftrightarrow> (\<forall>xs. mset (lp_order L xs) = mset xs)"

definition iri_eq_law :: "('iri, 'ver, 'req, 'time) externs \<Rightarrow> bool" where
  "iri_eq_law E \<longleftrightarrow> (\<forall>i j. iri_str E i = iri_str E j \<longrightarrow> i = j)"

definition run_contract ::
  "('iri, 'ver, 'req, 'time, 'p, 'pe, 'tree, 're) lock_params \<Rightarrow> ('iri, 'p, 're) resolver
   \<Rightarrow> ('iri, 'req) InterchangeProjectUsageG list \<Rightarrow> bool" where
  "run_contract L resolver requested \<longleftrightarrow>
    (let pick = choose_version (lp_externs L) (lp_solver L) (lp_read L) resolver;
         getd = get_dependencies (lp_externs L) (lp_solver L) (lp_read L) resolver
     in pubgrub_contract pick getd (Requested requested) 0 []
          (lp_pubgrub L prioritize pick getd (Requested requested) 0 []))"

lemma list_all2_right: "list_all2 R xs ys \<Longrightarrow> y \<in> set ys \<Longrightarrow> \<exists>x \<in> set xs. R x y"
  by (induction rule: list_all2_induct) auto

lemma list_all2_left: "list_all2 R xs ys \<Longrightarrow> x \<in> set xs \<Longrightarrow> \<exists>y \<in> set ys. R x y"
  by (induction rule: list_all2_induct) auto

text \<open>Whatever the solution has a project for is named by an identifier of the extended lock.\<close>

lemma solution_identified:
  assumes ord: "order_law L" and "map_of solution iri \<noteq> None"
    and added: "list_all2 (\<lambda>(iri, project) p. lock_dependency L provided iri project = Ok p)
      (filter (\<lambda>(iri, project). iri_str (lp_externs L) iri
          \<notin> {i. \<exists>p \<in> set old. first_of (p_identifiers p) = Some i}) (lp_order L solution)) added"
  shows "iri_str (lp_externs L) iri \<in> (\<Union>p \<in> set (old @ added). set (p_identifiers p))"
proof (cases "\<exists>p \<in> set old. first_of (p_identifiers p) = Some (iri_str (lp_externs L) iri)")
  case True
  then obtain p where p: "p \<in> set old" "first_of (p_identifiers p) = Some (iri_str (lp_externs L) iri)" by blast
  then have "iri_str (lp_externs L) iri \<in> set (p_identifiers p)" by (cases "p_identifiers p") auto
  then show ?thesis using p(1) by auto
next
  case False
  obtain project where "(iri, project) \<in> set solution" using assms(2) by (auto dest: map_of_SomeD)
  moreover have "set (lp_order L solution) = set solution"
    using ord mset_eq_setD by (auto simp: order_law_def)
  ultimately have "(iri, project) \<in> set (filter (\<lambda>(iri, project). iri_str (lp_externs L) iri
          \<notin> {i. \<exists>p \<in> set old. first_of (p_identifiers p) = Some i}) (lp_order L solution))"
    using False by simp
  from list_all2_left [OF added this] obtain p where "p \<in> set added" "lock_dependency L provided iri project = Ok p"
    by auto
  then have "p \<in> set (old @ added)" "iri_str (lp_externs L) iri \<in> set (p_identifiers p)"
    using lock_dependency_Ok [of L provided iri project p] by auto
  then show ?thesis by blast
qed

text \<open>The usages of the extended lock have an entry, given that those of the old one are requested.\<close>

lemma extended_usages:
  assumes laws: "iri_text_law (lp_externs L)" "constraints_law (lp_solver L)" "order_law L"
    and contract: "run_contract L resolver requested"
    and sol: "solve (lp_externs L) (lp_solver L) (lp_read L) (lp_pubgrub L) (lp_collapse L) requested resolver = Solved solution"
    and added: "list_all2 (\<lambda>(iri, project) p. lock_dependency L provided iri project = Ok p)
      (filter (\<lambda>(iri, project). iri_str (lp_externs L) iri
          \<notin> {i. \<exists>p \<in> set old. first_of (p_identifiers p) = Some i}) (lp_order L solution)) added"
    and old: "\<And>p us. p \<in> set old \<Longrightarrow> set (p_usages p) \<subseteq> (iri_str (lp_externs L) \<circ> resource) ` set requested"
  shows "(\<Union>p \<in> set (old @ added). set (p_usages p)) \<subseteq> (\<Union>p \<in> set (old @ added). set (p_identifiers p))"
proof -
  note closed = solve_closed [OF laws(2) contract [unfolded run_contract_def Let_def] sol]
  note ident = solution_identified [OF laws(3) _ added]
  have "u \<in> (\<Union>p \<in> set (old @ added). set (p_identifiers p))" if p: "p \<in> set old" "u \<in> set (p_usages p)" for p u
  proof -
    obtain w where "w \<in> set requested" "u = iri_str (lp_externs L) (resource w)" using old [OF p(1)] p(2) by auto
    then show ?thesis using closed(1) ident by blast
  qed
  moreover have "u \<in> (\<Union>p \<in> set (old @ added). set (p_identifiers p))" if p: "p \<in> set added" "u \<in> set (p_usages p)" for p u
  proof -
    obtain iri project where ip: "(iri, project) \<in> set (lp_order L solution)"
      "lock_dependency L provided iri project = Ok p" using list_all2_right [OF added p(1)] by auto
    have "(iri, project) \<in> set solution" using ip(1) laws(3) mset_eq_setD by (fastforce simp: order_law_def)
    then have "map_of solution iri = Some project" using solve_distinct [OF sol] by simp
    from closed(2) [OF this] obtain cs c where c: "find_candidates (lp_externs L) (lp_read L) resolver iri = Ok cs"
      "c \<in> set cs" "c_project c = project"
      "\<forall>u \<in> set (cs_usage (c_summary c)). map_of solution (resource u) \<noteq> None" by blast
    obtain raw where raw: "project_usage (lp_read L) project = Ok (Some raw)"
      "collect_res (validate_usage (lp_externs L)) raw = Ok (cs_usage (c_summary c))"
      using candidate_facts [OF c(1,2)] c(3) by blast
    have "p_usages p = map resource raw" using lock_dependency_Ok [OF ip(2)] raw(1) by auto
    then obtain w where "w \<in> set (cs_usage (c_summary c))" "u = iri_str (lp_externs L) (resource w)"
      using p(2) validate_usages_resource [OF raw(2) laws(1)] by auto
    then show ?thesis using c(4) ident by blast
  qed
  ultimately show ?thesis unfolding set_append by blast
qed

lemma lock_extend_version:
  "do_lock_extend L lock usages resolver provided = Ok out \<Longrightarrow> lock_version (lo_lock out) = lock_version lock"
  by (auto simp: do_lock_extend_def split: solve_outcome.splits prod.splits)

lemma lock_input_first:
  assumes "lock_input E PI srcs (ids, project) = Ok (p, us)"
  shows "first_of (p_identifiers p) = (case ids of Some (i # _) \<Rightarrow> Some (iri_str E i) | _ \<Rightarrow> None)"
proof -
  have "p_identifiers p = (case ids of Some is \<Rightarrow> map (iri_str E) is | None \<Rightarrow> [])"
    using assms by (auto simp: lock_input_def lock_project_def ok_or_eq_Ok)
  then show ?thesis by (auto split: option.splits list.splits)
qed

section \<open>Properties\<close>

text \<open>C5: Extending a lock never lets a symbol be exported twice: when \<open>do_lock_extend\<close> succeeds, the exports
  of all projects of the lock together are distinct, whatever hash function is used to compare
  them; the projects of the old lock are kept in place, and the dependencies to install are the
  solution of the solver.\<close>

theorem lock_extend_no_collision:
  assumes "do_lock_extend L lock usages resolver provided = Ok out"
  shows "distinct (concat (map p_exports (lock_projects (lo_lock out))))
    \<and> take (length (lock_projects lock)) (lock_projects (lo_lock out)) = lock_projects lock
    \<and> lock_version (lo_lock out) = lock_version lock
    \<and> (\<exists>solution. solve (lp_externs L) (lp_solver L) (lp_read L) (lp_pubgrub L) (lp_collapse L) usages resolver = Solved solution
        \<and> lo_dependencies out = lp_order L solution)"
proof -
  obtain solution added where
    "solve (lp_externs L) (lp_solver L) (lp_read L) (lp_pubgrub L) (lp_collapse L) usages resolver = Solved solution"
    "lo_dependencies out = lp_order L solution" "lock_projects (lo_lock out) = lock_projects lock @ added"
    "distinct (concat (map p_exports (lock_projects (lo_lock out))))"
    using assms by (rule do_lock_extend_Ok)
  then show ?thesis using lock_extend_version [OF assms] by simp
qed

lemma first_identifiers_distinct:
  assumes laws: "order_law L" "iri_eq_law (lp_externs L)" and "distinct (map fst solution)"
    and added: "list_all2 (\<lambda>(iri, project) p. lock_dependency L provided iri project = Ok p)
      (filter (\<lambda>(iri, project). iri_str (lp_externs L) iri
          \<notin> {i. \<exists>p \<in> set old. first_of (p_identifiers p) = Some i}) (lp_order L solution)) added"
    and old: "distinct (map (first_of \<circ> p_identifiers) old)"
  shows "distinct (map (first_of \<circ> p_identifiers) (old @ added))"
proof -
  let ?new = "filter (\<lambda>(iri, project). iri_str (lp_externs L) iri
          \<notin> {i. \<exists>p \<in> set old. first_of (p_identifiers p) = Some i}) (lp_order L solution)"
  have ids: "map (first_of \<circ> p_identifiers) added = map (Some \<circ> iri_str (lp_externs L) \<circ> fst) ?new"
    using added by (induction rule: list_all2_induct) (auto dest: lock_dependency_Ok)
  have "mset (map fst (lp_order L solution)) = mset (map fst solution)"
    using laws(1) by (simp add: order_law_def)
  then have "distinct (map fst (lp_order L solution))"
    using assms(3) mset_eq_imp_distinct_iff by blast
  then have "distinct (map fst ?new)" by (rule distinct_map_filter)
  then have "distinct (map (Some \<circ> iri_str (lp_externs L)) (map fst ?new))"
    using laws(2) by (subst distinct_map) (auto simp: iri_eq_law_def inj_on_def)
  then have d: "distinct (map (first_of \<circ> p_identifiers) added)" unfolding ids by (simp add: comp_assoc)
  have "set (map (first_of \<circ> p_identifiers) added) \<inter> set (map (first_of \<circ> p_identifiers) old) = {}"
    unfolding ids by force
  then show ?thesis using d old by auto
qed

lemma inputs_first:
  assumes "list_all2 (\<lambda>x y. lock_input E PI srcs x
      = (Ok y :: (_, ('ie, 'pe, 'iri, 'req, 'tree, 're) LockProjectError) result)) projects inputs"
  shows "map (first_of \<circ> p_identifiers) (map fst inputs)
      = map (\<lambda>(ids, project). case ids of Some (i # _) \<Rightarrow> Some (iri_str E i) | _ \<Rightarrow> None) projects"
  using assms
proof (induction rule: list_all2_induct)
  case (Cons x xs y ys)
  then show ?case using lock_input_first [of E PI srcs "fst x" "snd x" "fst y" "snd y"] by (simp add: case_prod_beta)
qed simp

text \<open>The sources a project reports, if it reports any, are ones that validation accepts.\<close>

definition reports_valid ::
  "('iri, 'ver, 'req, 'time) externs \<Rightarrow> ('p \<Rightarrow> (Source list, 'pe) result) \<Rightarrow> 'p \<Rightarrow> bool" where
  "reports_valid E srcs project \<longleftrightarrow>
    (case srcs project of Ok sources \<Rightarrow> list_all (source_ok E) sources | Err e \<Rightarrow> True)"

lemma lock_input_sources:
  "lock_input E PI srcs (ids, project) = Ok (p, us) \<Longrightarrow> reports_valid E srcs project \<Longrightarrow> list_all (source_ok E) (p_sources p)"
  by (auto simp: lock_input_def lock_project_def reports_valid_def ok_or_eq_Ok)

lemma lock_dependency_sources:
  "lock_dependency L provided iri project = Ok p \<Longrightarrow> reports_valid (lp_externs L) (lp_sources L) project
    \<Longrightarrow> list_all (source_ok (lp_externs L)) (p_sources p)"
  by (auto simp: lock_dependency_def lock_project_def reports_valid_def Let_def ok_or_eq_Ok split: if_splits)

lemma extended_sources:
  assumes inputs: "list_all2 (\<lambda>x y. lock_input (lp_externs L) PI srcs x
      = (Ok y :: (_, ('ie, 'pe, 'iri, 'req, 'tree, 're) LockProjectError) result)) projects inputs"
    and added: "list_all2 (\<lambda>(iri, project) p. lock_dependency L provided iri project = Ok p) xs added"
    and "list_all (\<lambda>(ids, project). reports_valid (lp_externs L) srcs project) projects"
    and "\<forall>project. reports_valid (lp_externs L) (lp_sources L) project"
    and p: "p \<in> set (map fst inputs @ added)"
  shows "list_all (source_ok (lp_externs L)) (p_sources p)"
proof (cases "p \<in> set added")
  case True
  then show ?thesis using list_all2_right [OF added True] lock_dependency_sources assms(4) by fastforce
next
  case False
  then obtain us where "(p, us) \<in> set inputs" using p by auto
  from list_all2_right [OF inputs this] obtain ids project where
    "(ids, project) \<in> set projects"
    and r: "lock_input (lp_externs L) PI srcs (ids, project)
      = (Ok (p, us) :: (_, ('ie, 'pe, 'iri, 'req, 'tree, 're) LockProjectError) result)" by auto
  then have "reports_valid (lp_externs L) srcs project" using assms(3) by (auto simp: list_all_iff)
  then show ?thesis by (rule lock_input_sources [OF r])
qed


text \<open>Evidence that the hypotheses hold: a project that uses a library, which uses another.\<close>

definition sample_lock_read :: "(nat, unit) ProjectRead" where
  "sample_lock_read = \<lparr>
     get_project = (\<lambda>n. Ok (map_option (\<lambda>i. i\<lparr>i_usage := if n = 0 then [Resource ''a:x'' (Some ''2'')] else i_usage i\<rparr>)
         (case get_project sample_solver_read n of Ok (i, m) \<Rightarrow> i),
       Some ((meta_minimal ''2026-01-01T00:00:00Z'')\<lparr>m_index := [(replicate (Suc n) CHR ''A'', ''a.sysml'')]\<rparr>))),
     read_source = (\<lambda>n path. Err ())\<rparr>"

definition sample_lock_params ::
  "(string, string, string, string, nat, unit, unit, unit) lock_params" where
  "sample_lock_params = \<lparr>
     lp_externs = sample_externs,
     lp_solver = sample_solver_externs,
     lp_read = sample_lock_read,
     lp_sources = (\<lambda>n. Ok [RemoteGit ''https://example.com'']),
     lp_pubgrub = chain_pubgrub,
     lp_collapse = (\<lambda>t. t),
     lp_hash = (\<lambda>s. of_nat (length s)),
     lp_order = rev\<rparr>"

definition sample_lock_outcome where
  "sample_lock_outcome = do_lock_projects sample_lock_params sample_lock_read
     (\<lambda>n. Ok [Editable ''.'']) [(Some [''urn:root''], 0 :: nat)] sample_solver_resolve ([] :: (string \<times> unit) list)"

lemma sample_lock_laws:
  "iri_text_law (lp_externs sample_lock_params)" "iri_eq_law (lp_externs sample_lock_params)"
  "constraints_law (lp_solver sample_lock_params)" "order_law sample_lock_params"
  "run_contract sample_lock_params resolver requested"
  by (simp_all add: sample_lock_params_def iri_eq_law_def order_law_def run_contract_def Let_def
      sample_constraints_law chain_pubgrub_contract) (simp add: sample_externs_def)

lemma sample_lock_outcome_ok: "is_ok sample_lock_outcome"
  by code_simp


definition sample_extend_outcome where
  "sample_extend_outcome = do_lock_extend sample_lock_params lock_default [Resource ''a:x'' None]
     sample_solver_resolve ([] :: (string \<times> unit) list)"

lemma sample_extend_outcome_ok: "is_ok sample_extend_outcome"
  by code_simp

theorem lock_extend_no_collision_witness:
  "\<exists>out. sample_extend_outcome = Ok out \<and> distinct (concat (map p_exports (lock_projects (lo_lock out))))"
proof -
  obtain out where out: "sample_extend_outcome = Ok out" using sample_extend_outcome_ok by (auto simp: is_ok_iff)
  then show ?thesis using lock_extend_no_collision [OF out [unfolded sample_extend_outcome_def]] by blast
qed

end
