(* ===== verification/Lex.thy ===== *)
theory Lex
  imports Prelude "HOL-Library.Sublist"
begin

text \<open>
  The tokens of SysML and KerML sources, \<^verbatim>\<open>core/src/symbols/lex.rs\<close>: the token type and the
  callbacks that find the end of a block comment, a string, a quoted name and a block of
  symbols. The lexer generated from the regular expressions is not modelled here. Sources are
  UTF-8 byte strings; the Unicode classes the callbacks test are arguments, given as tests of
  the first character of the text from some offset on.
\<close>

datatype LexingError = Unterminated string | Unexpected string | Unknown

datatype Token =
    Space | UserKeywordStart | BraceOpen | BraceClose | Semicolon | Comma | OtherIdentifier
  | BlockComment | LineComment | StringToken | Quoted | OpenParen | CloseParen | OpenSquare
  | CloseSquare | DoubleColon | LT | GT | Equals | Period | OtherSymbol

abbreviation (input) BACKSLASH :: char where "BACKSLASH \<equiv> CHR 0x5C"
abbreviation (input) QUOTE :: char where "QUOTE \<equiv> CHR 0x27"
abbreviation (input) DQUOTE :: char where "DQUOTE \<equiv> CHR 0x22"

text \<open>\<open>str::find\<close> for a string pattern: the offset of its first occurrence.\<close>

fun find_sub :: "string \<Rightarrow> string \<Rightarrow> nat option" where
  "find_sub pat s = (if prefix pat s then Some 0 else (case s of [] \<Rightarrow> None | c # cs \<Rightarrow> map_option Suc (find_sub pat cs)))"

declare find_sub.simps [simp del]

lemma find_sub_Some:
  assumes "find_sub pat s = Some n"
  shows "n + length pat \<le> length s" and "prefix pat (drop n s)" and "\<And>m. m < n \<Longrightarrow> \<not> prefix pat (drop m s)"
proof -
  have "n + length pat \<le> length s \<and> prefix pat (drop n s) \<and> (\<forall>m < n. \<not> prefix pat (drop m s))"
    using assms
  proof (induction s arbitrary: n)
    case Nil
    then show ?case by (subst (asm) find_sub.simps) (auto split: if_splits)
  next
    case (Cons c cs)
    show ?case
    proof (cases "prefix pat (c # cs)")
      case True
      then have "n = 0" using Cons.prems by (subst (asm) find_sub.simps) simp
      then show ?thesis using True prefix_length_le [OF True] by simp
    next
      case False
      then obtain k where k: "find_sub pat cs = Some k" "n = Suc k"
        using Cons.prems by (subst (asm) find_sub.simps) auto
      have "\<not> prefix pat (drop m (c # cs))" if "m < n" for m
        using Cons.IH [OF k(1)] k(2) that False by (cases m) auto
      then show ?thesis using Cons.IH [OF k(1)] k(2) by simp
    qed
  qed
  then show "n + length pat \<le> length s" "prefix pat (drop n s)" "\<And>m. m < n \<Longrightarrow> \<not> prefix pat (drop m s)"
    by blast+
qed

lemma find_sub_None: "find_sub pat s = None \<Longrightarrow> \<not> prefix pat (drop m s)"
proof (induction s arbitrary: m)
  case Nil
  then show ?case by (subst (asm) find_sub.simps) (auto split: if_splits)
next
  case (Cons c cs)
  then have "\<not> prefix pat (c # cs)" "find_sub pat cs = None"
    by (subst (asm) (2) find_sub.simps, simp split: if_splits)+
  then show ?case using Cons.IH by (cases m) auto
qed

text \<open>The loop shared by the callbacks: from the closing delimiter found, go on to the next one as
  long as the text up to it ends with the escaped delimiter.\<close>

function skip_escaped :: "string \<Rightarrow> string \<Rightarrow> string \<Rightarrow> nat \<Rightarrow> (nat, LexingError) result" where
  "skip_escaped what close rem close_pos =
    (if ends_with (BACKSLASH # close) (take (close_pos + length close) rem) \<and> close \<noteq> [] then
       (case find_sub close (drop (close_pos + length close) rem) of
          None \<Rightarrow> Err (Unterminated what)
        | Some k \<Rightarrow> skip_escaped what close rem (close_pos + k + length close))
     else Ok (close_pos + length close))"
  by auto

termination
proof (relation "measure (\<lambda>(what, close, rem, close_pos). length rem - close_pos)")
  fix what close rem close_pos k
  assume a: "ends_with (BACKSLASH # close) (take (close_pos + length close) rem) \<and> close \<noteq> []"
    and b: "find_sub close (drop (close_pos + length close) rem) = Some k"
  have "k + length close \<le> length rem - (close_pos + length close)" using find_sub_Some(1) [OF b] by simp
  moreover have "0 < length close" using a by simp
  ultimately have "length rem - (close_pos + k + length close) < length rem - close_pos" by linarith
  then show "((what, close, rem, close_pos + k + length close), what, close, rem, close_pos)
      \<in> measure (\<lambda>(what, close, rem, close_pos). length rem - close_pos)" by simp
qed simp

declare skip_escaped.simps [simp del]

definition lex_delimited :: "string \<Rightarrow> string \<Rightarrow> string \<Rightarrow> (nat, LexingError) result" where
  "lex_delimited what close rem =
    and_then (ok_or (find_sub close rem) (Unterminated what)) (skip_escaped what close rem)"

text \<open>Each callback returns the number of bytes of the remainder that belong to the token.\<close>

definition lex_block_comment :: "string \<Rightarrow> (nat, LexingError) result" where
  "lex_block_comment rem = lex_delimited ''/*'' ''*/'' rem"

definition lex_string :: "string \<Rightarrow> (nat, LexingError) result" where
  "lex_string rem = lex_delimited [DQUOTE] [DQUOTE] rem"

definition lex_quoted :: "string \<Rightarrow> (nat, LexingError) result" where
  "lex_quoted rem = lex_delimited [QUOTE] [QUOTE] rem"

text \<open>The offset of the first character that ends a block of symbols.\<close>

definition ends_symbols :: "(string \<Rightarrow> bool) \<Rightarrow> (string \<Rightarrow> bool) \<Rightarrow> string \<Rightarrow> bool" where
  "ends_symbols alphanumeric whitespace s \<longleftrightarrow>
    alphanumeric s \<or> whitespace s \<or> (s \<noteq> [] \<and> hd s \<in> set (QUOTE # DQUOTE # ''{};,[]''))"

fun find_end :: "(string \<Rightarrow> bool) \<Rightarrow> string \<Rightarrow> nat option" where
  "find_end P [] = None"
| "find_end P (c # cs) = (if P (c # cs) then Some 0 else map_option Suc (find_end P cs))"

text \<open>The token a symbol starts and the bytes of the remainder it takes.\<close>

definition lex_symbol ::
  "(string \<Rightarrow> bool) \<Rightarrow> (string \<Rightarrow> bool) \<Rightarrow> string \<Rightarrow> string \<Rightarrow> (Token \<times> nat, LexingError) result" where
  "lex_symbol alphanumeric whitespace this_char rem =
    and_then (ok_or (find_end (ends_symbols alphanumeric whitespace) rem)
        (Unexpected ''expected a block of symbols, found none'')) (\<lambda>close0.
      let close1 = (case find_sub ''//'' (take close0 rem) of Some p \<Rightarrow> p | None \<Rightarrow> close0);
          close2 = (case find_sub ''/*'' (take close1 rem) of Some p \<Rightarrow> p | None \<Rightarrow> close1)
      in if starts_with ''<'' this_char then Ok (LT, 0)
         else if starts_with ''>'' this_char then Ok (GT, 0)
         else if starts_with '':'' this_char \<and> starts_with '':'' rem then Ok (DoubleColon, 1)
         else if starts_with ''='' this_char then Ok (Equals, 0)
         else if starts_with ''.'' this_char then Ok (Period, 0)
         else Ok (OtherSymbol, close2))"

section \<open>Where delimited tokens end\<close>

definition escaped :: "string \<Rightarrow> nat \<Rightarrow> bool" where
  "escaped rem i \<longleftrightarrow> 0 < i \<and> rem ! (i - 1) = BACKSLASH"

definition first_unescaped :: "char \<Rightarrow> string \<Rightarrow> nat \<Rightarrow> bool" where
  "first_unescaped d rem i \<longleftrightarrow> i < length rem \<and> rem ! i = d \<and> \<not> escaped rem i
    \<and> (\<forall>j < i. rem ! j = d \<longrightarrow> escaped rem j)"

lemma prefix_single: "prefix [d] (drop i s) \<longleftrightarrow> i < length s \<and> s ! i = d"
proof (cases "i < length s")
  case True
  then show ?thesis by (auto simp: Cons_nth_drop_Suc [symmetric])
qed simp

lemma ends_with_escape:
  assumes "i < length rem" "rem ! i = d"
  shows "ends_with [BACKSLASH, d] (take (i + 1) rem) \<longleftrightarrow> escaped rem i"
proof (cases i)
  case 0
  then show ?thesis using assms by (simp add: ends_with_def escaped_def)
next
  case (Suc k)
  have "take (i + 1) rem = take k rem @ [rem ! k, d]"
    using assms Suc by (simp add: take_Suc_conv_app_nth)
  then have "ends_with [BACKSLASH, d] (take (i + 1) rem) \<longleftrightarrow> rem ! k = BACKSLASH"
    by (auto simp: ends_with_iff)
  then show ?thesis using Suc by (simp add: escaped_def)
qed

lemma find_next_single:
  assumes "find_sub [d] (drop n rem) = Some k"
  shows "n + k < length rem" "rem ! (n + k) = d" "\<And>j. n \<le> j \<Longrightarrow> j < n + k \<Longrightarrow> rem ! j \<noteq> d"
proof -
  show "n + k < length rem" "rem ! (n + k) = d"
    using find_sub_Some(2) [OF assms] by (simp_all add: prefix_single add.commute)
  show "rem ! j \<noteq> d" if "n \<le> j" "j < n + k" for j
  proof -
    have "\<not> prefix [d] (drop (j - n) (drop n rem))" using find_sub_Some(3) [OF assms, of "j - n"] that by simp
    then show ?thesis using that \<open>n + k < length rem\<close> prefix_single [of d j rem] by simp
  qed
qed

lemma skip_escaped_single:
  assumes "i < length rem" "rem ! i = d" and "\<forall>j < i. rem ! j = d \<longrightarrow> escaped rem j"
  shows "case skip_escaped w [d] rem i of
      Ok n \<Rightarrow> \<exists>k. n = k + 1 \<and> first_unescaped d rem k
    | Err e \<Rightarrow> e = Unterminated w \<and> (\<forall>k. \<not> first_unescaped d rem k)"
  using assms
proof (induction "length rem - i" arbitrary: i rule: less_induct)
  case less
  show ?case
  proof (cases "escaped rem i")
    case False
    then have "skip_escaped w [d] rem i = Ok (i + 1)"
      by (subst skip_escaped.simps) (use ends_with_escape [OF less.prems(1,2)] in simp)
    then show ?thesis using less.prems False by (simp add: first_unescaped_def)
  next
    case True
    note e = ends_with_escape [OF less.prems(1,2)] True
    show ?thesis
    proof (cases "find_sub [d] (drop (i + 1) rem)")
      case None
      then have "skip_escaped w [d] rem i = Err (Unterminated w)"
        by (subst skip_escaped.simps) (use e in simp)
      moreover have "\<not> first_unescaped d rem k" for k
      proof (cases "k \<le> i")
        case True
        then show ?thesis using less.prems(3) e(2) by (cases "k = i") (auto simp: first_unescaped_def)
      next
        case False
        then show ?thesis using find_sub_None [OF None, of "k - (i + 1)"] prefix_single [of d k rem]
          by (auto simp: first_unescaped_def)
      qed
      ultimately show ?thesis by simp
    next
      case (Some k)
      note n = find_next_single [OF Some]
      have "skip_escaped w [d] rem i = skip_escaped w [d] rem (i + k + 1)"
        by (subst skip_escaped.simps) (use e Some in simp)
      moreover have "\<forall>j < i + k + 1. rem ! j = d \<longrightarrow> escaped rem j"
      proof (intro allI impI)
        fix j assume j: "j < i + k + 1" "rem ! j = d"
        consider "j < i" | "j = i" | "i + 1 \<le> j" by linarith
        then show "escaped rem j" using less.prems(3) e(2) n(3) [of j] j by cases auto
      qed
      ultimately show ?thesis using less.hyps [of "i + k + 1"] n(1,2) by (simp add: add.commute add.left_commute)
    qed
  qed
qed

text \<open>C28: A quoted name (and likewise a string) ends at the first closing quote that is not preceded by a
  backslash: the callback takes exactly the bytes up to and including that quote, and reports the
  token unterminated exactly if there is none.\<close>

theorem lex_quoted_first_unescaped:
  "(lex_quoted rem = Ok n \<longleftrightarrow> (\<exists>i. n = i + 1 \<and> first_unescaped QUOTE rem i))
   \<and> (lex_string rem = Ok n \<longleftrightarrow> (\<exists>i. n = i + 1 \<and> first_unescaped DQUOTE rem i))
   \<and> (is_ok (lex_quoted rem) \<or> lex_quoted rem = Err (Unterminated [QUOTE]))"
proof -
  have d: "case lex_delimited w [d] rem of
      Ok n \<Rightarrow> \<exists>k. n = k + 1 \<and> first_unescaped d rem k
    | Err e \<Rightarrow> e = Unterminated w \<and> (\<forall>k. \<not> first_unescaped d rem k)" for w d
  proof (cases "find_sub [d] rem")
    case None
    have "\<not> first_unescaped d rem k" for k
      using find_sub_None [OF None, of k] by (auto simp: prefix_single first_unescaped_def)
    then show ?thesis using None by (simp add: lex_delimited_def)
  next
    case (Some k)
    then have "find_sub [d] (drop 0 rem) = Some k" by simp
    note n = find_next_single [OF this]
    show ?thesis
      using skip_escaped_single [of k rem d w] n Some by (auto simp: lex_delimited_def)
  qed
  have uniq: "first_unescaped d rem i \<Longrightarrow> first_unescaped d rem j \<Longrightarrow> i = j" for d i j
    unfolding first_unescaped_def by (metis linorder_neqE_nat)
  have iff: "lex_delimited w [d] rem = Ok m \<longleftrightarrow> (\<exists>i. m = i + 1 \<and> first_unescaped d rem i)" for w d m
    using d [where w = w and d = d] uniq by (cases "lex_delimited w [d] rem") auto
  show ?thesis
    using iff d [where w = "[QUOTE]" and d = QUOTE]
    by (cases "lex_delimited [QUOTE] [QUOTE] rem") (auto simp: lex_quoted_def lex_string_def is_ok_iff)
qed

end
