(* ===== verification/Symbols.thy ===== *)
theory Symbols
  imports Lex "HOL-Library.Word"
begin

text \<open>
  Extraction of top-level symbols, \<^verbatim>\<open>core/src/symbols/mod.rs\<close>: a source is cut into the
  token lists of its top-level declarations and each list is parsed for the short and the long
  name it declares. The lexer generated from \<^verbatim>\<open>lex.rs\<close> is an argument: it gives the
  sequence of tokens and errors with their spans. Iterators are lists of the tokens that remain.
  \<open>Unreachable\<close> stands for reaching \<^verbatim>\<open>unreachable!()\<close> and \<open>ExtractPanic\<close> for that or an
  index out of range. Nesting depths are \<^typ>\<open>int\<close>: no source has \<open>2\<^sup>3\<^sup>1\<close> braces. The debug
  format of a list of names and the extension of a path are arguments.
\<close>

section \<open>Tokens and errors\<close>

datatype Language = SysML | KerML

definition from_suffix :: "string \<Rightarrow> Language option" where
  "from_suffix sfx =
    (if eq_ignore_ascii_case sfx ''sysml'' then Some SysML
     else if eq_ignore_ascii_case sfx ''kerml'' then Some KerML
     else None)"

definition guess_from_path :: "('p \<Rightarrow> string option) \<Rightarrow> 'p \<Rightarrow> Language option" where
  "guess_from_path extension path = Option.bind (extension path) from_suffix"

type_synonym span = "nat \<times> nat"
type_synonym TokenInfo = "Token \<times> string \<times> span"

datatype ParseError = ParseError "span option" string | Unreachable

datatype ExtractError =
    Syntax "32 word" "32 word" LexingError
  | MissingBodyDelimiter int
  | TokenRange
  | Parse "32 word" "32 word" string string
  | ExtractPanic

datatype KeywordType = Simple | MultiReferences | MultiReferencesWithMultiplicity | SkipRest

fun token_debug :: "Token \<Rightarrow> string" where
  "token_debug Space = ''Space''"
| "token_debug UserKeywordStart = ''UserKeywordStart''"
| "token_debug BraceOpen = ''BraceOpen''"
| "token_debug BraceClose = ''BraceClose''"
| "token_debug Semicolon = ''Semicolon''"
| "token_debug Comma = ''Comma''"
| "token_debug OtherIdentifier = ''OtherIdentifier''"
| "token_debug BlockComment = ''BlockComment''"
| "token_debug LineComment = ''LineComment''"
| "token_debug StringToken = ''String''"
| "token_debug Quoted = ''Quoted''"
| "token_debug OpenParen = ''OpenParen''"
| "token_debug CloseParen = ''CloseParen''"
| "token_debug OpenSquare = ''OpenSquare''"
| "token_debug CloseSquare = ''CloseSquare''"
| "token_debug DoubleColon = ''DoubleColon''"
| "token_debug LT = ''LT''"
| "token_debug GT = ''GT''"
| "token_debug Equals = ''Equals''"
| "token_debug Period = ''Period''"
| "token_debug OtherSymbol = ''OtherSymbol''"

section \<open>Names and references\<close>

definition trim_matches :: "char \<Rightarrow> string \<Rightarrow> string" where
  "trim_matches c s = rev (dropWhile (\<lambda>x. x = c) (rev (dropWhile (\<lambda>x. x = c) s)))"

definition name_of :: "TokenInfo \<Rightarrow> (string, ParseError) result" where
  "name_of = (\<lambda>(token, original, sp).
    case token of
      Quoted \<Rightarrow> Ok (trim_matches QUOTE original)
    | OtherIdentifier \<Rightarrow> Ok original
    | invalid_token \<Rightarrow> Err (ParseError (Some sp) (''invalid token of type '' @ token_debug invalid_token
        @ '', expected a name component: `'' @ original @ ''`'')))"

fun parse_name :: "TokenInfo list \<Rightarrow> (string \<times> TokenInfo list, ParseError) result" where
  "parse_name [] = Err (ParseError None ''empty name'')"
| "parse_name (t # ts) = map_ok (\<lambda>n. (n, ts)) (name_of t)"

fun parse_reference_or_chain :: "TokenInfo list \<Rightarrow> (string list \<times> TokenInfo list, ParseError) result" where
  "parse_reference_or_chain [] = Err (ParseError None ''empty name'')"
| "parse_reference_or_chain (t # ts) =
    (case name_of t of
       Err e \<Rightarrow> Err e
     | Ok name_component \<Rightarrow>
         (case ts of
            (DoubleColon, _) # ts' \<Rightarrow> map_ok (\<lambda>(ns, rest). (name_component # ns, rest)) (parse_reference_or_chain ts')
          | (Period, _) # ts' \<Rightarrow> map_ok (\<lambda>(ns, rest). (name_component # ns, rest)) (parse_reference_or_chain ts')
          | _ \<Rightarrow> Ok ([name_component], ts)))"

fun skip_nested :: "Token \<Rightarrow> Token \<Rightarrow> int \<Rightarrow> TokenInfo list \<Rightarrow> (TokenInfo list, ParseError) result" where
  "skip_nested open close nesting [] = Err (ParseError None (''unmatched '' @ token_debug open))"
| "skip_nested open close nesting ((token, _) # ts) =
    (if token = open then skip_nested open close (nesting + 1) ts
     else if token = close then
       (if nesting - 1 = 0 then Ok ts else skip_nested open close (nesting - 1) ts)
     else skip_nested open close nesting ts)"

fun skip_whitespace :: "TokenInfo list \<Rightarrow> TokenInfo list" where
  "skip_whitespace ((Space, _) # ts) = skip_whitespace ts"
| "skip_whitespace ts = ts"

definition maybe_skip_multiplicity :: "TokenInfo list \<Rightarrow> (TokenInfo list, ParseError) result" where
  "maybe_skip_multiplicity ts =
    (case ts of
       (OpenSquare, _) # _ \<Rightarrow> skip_nested OpenSquare CloseSquare 0 ts
     | _ \<Rightarrow> Ok ts)"

lemma parse_reference_length:
  "parse_reference_or_chain ts = Ok (ns, rest) \<Longrightarrow> length rest < length ts"
  by (induction ts arbitrary: ns rest rule: parse_reference_or_chain.induct)
    (fastforce simp: map_ok_eq_Ok split: result.split_asm list.split_asm prod.split_asm Token.split_asm)+

lemma skip_whitespace_length: "length (skip_whitespace ts) \<le> length ts"
  by (induction ts rule: skip_whitespace.induct) auto

lemma skip_whitespace_after_comma:
  assumes "parse_reference_or_chain ts = Ok (ns, rest)" and "skip_whitespace rest = t # ts'"
  shows "length (skip_whitespace ts') < length ts"
  using parse_reference_length [OF assms(1)] skip_whitespace_length [of rest] skip_whitespace_length [of ts']
    assms(2) by simp

function skip_list_of_refs :: "TokenInfo list \<Rightarrow> (TokenInfo list, ParseError) result" where
  "skip_list_of_refs ts =
    (case parse_reference_or_chain ts of
       Err e \<Rightarrow> Err e
     | Ok (_, rest) \<Rightarrow>
         (case skip_whitespace rest of
            (Comma, _) # ts' \<Rightarrow> skip_list_of_refs (skip_whitespace ts')
          | ts' \<Rightarrow> Ok ts'))"
  by auto

termination
  by (relation "measure length") (auto dest: skip_whitespace_after_comma)

declare skip_list_of_refs.simps [simp del]

lemma skip_list_of_refs_length: "skip_list_of_refs ts = Ok rest \<Longrightarrow> length rest < length ts"
proof (induction ts arbitrary: rest rule: skip_list_of_refs.induct)
  case (1 ts)
  then obtain ns r where r: "parse_reference_or_chain ts = Ok (ns, r)"
    by (subst (asm) (2) skip_list_of_refs.simps) (auto split: result.split_asm)
  have l: "length (skip_whitespace r) < length ts"
    using parse_reference_length [OF r] skip_whitespace_length [of r] by simp
  show ?case
  proof (cases "\<exists>x ts'. skip_whitespace r = (Comma, x) # ts'")
    case True
    then obtain x ts' where t: "skip_whitespace r = (Comma, x) # ts'" by blast
    then have "skip_list_of_refs (skip_whitespace ts') = Ok rest"
      using 1(2) r by (subst (asm) skip_list_of_refs.simps) simp
    then have "length rest < length (skip_whitespace ts')" using 1(1) [OF r refl t refl refl] by blast
    then show ?thesis using skip_whitespace_after_comma [OF r t] by simp
  next
    case False
    then have "rest = skip_whitespace r"
      using 1(2) r by (subst (asm) skip_list_of_refs.simps)
        (auto split: list.split_asm prod.split_asm Token.split_asm)
    then show ?thesis using l by simp
  qed
qed

lemma skip_nested_length: "skip_nested p q n ts = Ok rest \<Longrightarrow> length rest < length ts"
  by (induction p q n ts rule: skip_nested.induct) (auto split: if_split_asm)

section \<open>One declaration\<close>

text \<open>What follows a keyword is skipped according to its kind; \<open>None\<close> ends the declaration.\<close>

fun after_keyword :: "KeywordType \<Rightarrow> TokenInfo list \<Rightarrow> (TokenInfo list option, ParseError) result" where
  "after_keyword Simple rest = Ok (Some rest)"
| "after_keyword MultiReferences rest = map_ok Some (skip_list_of_refs (skip_whitespace rest))"
| "after_keyword MultiReferencesWithMultiplicity rest =
    and_then (maybe_skip_multiplicity (skip_whitespace rest)) (\<lambda>r.
    map_ok Some (skip_list_of_refs (skip_whitespace r)))"
| "after_keyword SkipRest rest = Ok None"

text \<open>A name is taken once; the second one is unknown.\<close>

definition take_long_name ::
  "(string list \<Rightarrow> string) \<Rightarrow> string option \<Rightarrow> span \<Rightarrow> TokenInfo list \<Rightarrow> (string \<times> TokenInfo list, ParseError) result" where
  "take_long_name debug_names long_name sp ts =
    and_then (parse_reference_or_chain ts) (\<lambda>(this_ref, r).
    case this_ref of
      [this_name] \<Rightarrow>
        (case long_name of
           None \<Rightarrow> Ok (this_name, r)
         | Some _ \<Rightarrow> Err (ParseError (Some sp) (''unknown name `'' @ this_name @ ''`'')))
    | names \<Rightarrow> Err (ParseError None (''warn: got an unexpected reference: '' @ debug_names names)))"

text \<open>The short name stands between \<open>LT\<close> and \<open>GT\<close>.\<close>

definition take_short_name ::
  "string option \<Rightarrow> span \<Rightarrow> TokenInfo list \<Rightarrow> (string \<times> TokenInfo list, ParseError) result" where
  "take_short_name short_name sp rest =
    and_then (parse_name rest) (\<lambda>(this_name, r).
    if short_name \<noteq> None then Err (ParseError (Some sp) (''unknown name `'' @ this_name @ ''`''))
    else (case r of
        [] \<Rightarrow> Err (ParseError (Some sp) ''unclosed short-name `<`'')
      | (GT, _) # r' \<Rightarrow> Ok (this_name, r')
      | (invalid_token, orig, span) # _ \<Rightarrow> Err (ParseError (Some (fst sp, snd span))
          (''expected `<`, found `'' @ orig @ ''` (token '' @ token_debug invalid_token @ '')''))))"

type_synonym entity_state = "string option \<times> string option \<times> TokenInfo list"

text \<open>One round of the loop: the names found so far and the tokens that remain, \<open>None\<close> where
  the loop is left.\<close>

definition entity_step ::
  "(string list \<Rightarrow> string) \<Rightarrow> (string \<Rightarrow> KeywordType option) \<Rightarrow> entity_state \<Rightarrow>
   TokenInfo \<Rightarrow> (entity_state option, ParseError) result" where
  "entity_step debug_names keywords = (\<lambda>(long_name, short_name, rest) (token, original, sp).
    let skip = (\<lambda>r. Ok (Some (long_name, short_name, r)));
        skip_keyword = (\<lambda>kt. map_ok (map_option (\<lambda>r. (long_name, short_name, r))) (after_keyword kt rest));
        fail = (\<lambda>msg. Err (ParseError (Some sp) msg));
        ts = (token, original, sp) # rest
    in case token of
      Space \<Rightarrow> skip rest
    | UserKeywordStart \<Rightarrow> and_then (parse_reference_or_chain rest) (\<lambda>(_, r). skip r)
    | BraceOpen \<Rightarrow> Err Unreachable
    | BraceClose \<Rightarrow> Err Unreachable
    | Semicolon \<Rightarrow> Err Unreachable
    | Comma \<Rightarrow> fail ''unexpected comma (`,`)''
    | BlockComment \<Rightarrow> skip rest
    | LineComment \<Rightarrow> skip rest
    | StringToken \<Rightarrow> fail ''unexpected string''
    | OpenParen \<Rightarrow> and_then (skip_nested OpenParen CloseParen 0 ts) skip
    | CloseParen \<Rightarrow> fail ''unexpected `)`''
    | OpenSquare \<Rightarrow> and_then (skip_nested OpenSquare CloseSquare 0 ts) skip
    | CloseSquare \<Rightarrow> fail ''unexpected `]`''
    | DoubleColon \<Rightarrow> fail ''unexpected `::`''
    | LT \<Rightarrow> map_ok (\<lambda>(n, r). Some (long_name, Some n, r)) (take_short_name short_name sp rest)
    | GT \<Rightarrow> fail ''unexpected `<`''
    | Equals \<Rightarrow> Ok None
    | Period \<Rightarrow> fail ''unexpected period (`.`)''
    | OtherSymbol \<Rightarrow>
        (case keywords original of
           Some kt \<Rightarrow> skip_keyword kt
         | None \<Rightarrow> fail (''unexpected unknown symbol `'' @ original @ ''`''))
    | name_token \<Rightarrow>
        (case keywords original of
           Some kt \<Rightarrow> skip_keyword kt
         | None \<Rightarrow>
             map_ok (\<lambda>(n, r). Some (Some n, short_name, r)) (take_long_name debug_names long_name sp ts)))"

lemma maybe_skip_length: "maybe_skip_multiplicity ts = Ok r \<Longrightarrow> length r \<le> length ts"
  using skip_nested_length [of OpenSquare CloseSquare 0 ts r] unfolding maybe_skip_multiplicity_def
  by (cases ts; cases "fst (hd ts)") auto

lemma after_keyword_length: "after_keyword kt ts = Ok (Some rest) \<Longrightarrow> length rest \<le> length ts"
proof (cases kt)
  case MultiReferences
  assume "after_keyword kt ts = Ok (Some rest)"
  then show ?thesis
    using MultiReferences skip_list_of_refs_length [of "skip_whitespace ts" rest] skip_whitespace_length [of ts]
    by simp
next
  case MultiReferencesWithMultiplicity
  assume "after_keyword kt ts = Ok (Some rest)"
  then obtain r where r: "maybe_skip_multiplicity (skip_whitespace ts) = Ok r"
      "skip_list_of_refs (skip_whitespace r) = Ok rest"
    using MultiReferencesWithMultiplicity by auto
  have "length r \<le> length (skip_whitespace ts)" using r(1) by (rule maybe_skip_length)
  then show ?thesis
    using skip_list_of_refs_length [OF r(2)] skip_whitespace_length [of ts] skip_whitespace_length [of r] by simp
qed simp_all

lemma parse_name_length: "parse_name ts = Ok (n, rest) \<Longrightarrow> length rest < length ts"
  by (cases ts) auto

lemma skip_nested_rest:
  "skip_nested p q n (t # ts) = Ok rest \<Longrightarrow> length rest \<le> length ts"
  using skip_nested_length [of p q n "t # ts" rest] by simp

lemma parse_reference_rest:
  "parse_reference_or_chain (t # ts) = Ok (ns, rest) \<Longrightarrow> length rest \<le> length ts"
  using parse_reference_length [of "t # ts" ns rest] by simp

lemma take_long_name_Ok:
  "take_long_name D l sp ts = Ok (n, r) \<longleftrightarrow> l = None \<and> parse_reference_or_chain ts = Ok ([n], r)"
  unfolding take_long_name_def
  by (cases "parse_reference_or_chain ts") (auto split: list.splits option.splits)

lemma take_short_name_Ok:
  "take_short_name s sp ts = Ok (n, r) \<longleftrightarrow> s = None \<and> (\<exists>x. parse_name ts = Ok (n, (GT, x) # r))"
  unfolding take_short_name_def
  by (cases "parse_name ts") (auto split: list.splits prod.splits Token.splits)

lemma entity_step_length:
  assumes "entity_step D K (l, s, rest) t = Ok (Some (l', s', rest'))"
  shows "length rest' \<le> length rest"
proof -
  obtain tok orig sp where t: "t = (tok, orig, sp)" by (cases t)
  have kw: "length rest' \<le> length rest" if "after_keyword kt rest = Ok a"
    "Some (l', s', rest') = map_option (\<lambda>r. (l, s, r)) a" for kt a
    using that by (cases a) (auto dest: after_keyword_length)
  show ?thesis
    using assms t kw unfolding entity_step_def
    by (cases tok) (auto simp: Let_def take_long_name_Ok take_short_name_Ok simp del: parse_reference_or_chain.simps parse_name.simps skip_nested.simps
        dest: skip_nested_rest parse_reference_length parse_reference_rest parse_name_length split: option.split_asm)
qed

function entity_loop ::
  "(string list \<Rightarrow> string) \<Rightarrow> (string \<Rightarrow> KeywordType option) \<Rightarrow> string option \<Rightarrow> string option \<Rightarrow>
   TokenInfo list \<Rightarrow> (string option \<times> string option, ParseError) result" where
  "entity_loop debug_names keywords long_name short_name [] = Ok (long_name, short_name)"
| "entity_loop debug_names keywords long_name short_name (t # rest) =
    (case entity_step debug_names keywords (long_name, short_name, rest) t of
       Err e \<Rightarrow> Err e
     | Ok None \<Rightarrow> Ok (long_name, short_name)
     | Ok (Some (long_name', short_name', rest')) \<Rightarrow>
         entity_loop debug_names keywords long_name' short_name' rest')"
  by pat_completeness auto

termination
  by (relation "measure (\<lambda>(_, _, _, _, ts). length ts)") (auto dest: entity_step_length simp: less_Suc_eq_le)

definition parse_entity ::
  "(string list \<Rightarrow> string) \<Rightarrow> (string \<Rightarrow> KeywordType option) \<Rightarrow> TokenInfo list \<Rightarrow>
   (string option \<times> string option, ParseError) result" where
  "parse_entity debug_names keywords ts = entity_loop debug_names keywords None None ts"

section \<open>Positions in a source\<close>

abbreviation (input) NEWLINE :: char where "NEWLINE \<equiv> CHR 0x0A"

definition line_byte :: "string \<Rightarrow> span \<Rightarrow> (32 word \<times> 32 word) option" where
  "line_byte source sp =
    (if fst sp > length source then None
     else let rng = take (fst sp) source;
              line = of_nat (length (filter (\<lambda>x. x = NEWLINE) rng)) + 1;
              col = of_nat (length (takeWhile (\<lambda>x. x \<noteq> NEWLINE) (rev rng))) + 1
          in Some (line, col))"

text \<open>The characters with the property \<open>White_Space\<close>, as UTF-8.\<close>

definition white_space :: "string list" where
  "white_space =
    map (\<lambda>c. [c]) [CHR 0x09, CHR 0x0A, CHR 0x0B, CHR 0x0C, CHR 0x0D, CHR 0x20]
    @ [[CHR 0xC2, CHR 0x85], [CHR 0xC2, CHR 0xA0], [CHR 0xE1, CHR 0x9A, CHR 0x80]]
    @ map (\<lambda>c. [CHR 0xE2, CHR 0x80, c])
        [CHR 0x80, CHR 0x81, CHR 0x82, CHR 0x83, CHR 0x84, CHR 0x85, CHR 0x86, CHR 0x87, CHR 0x88,
         CHR 0x89, CHR 0x8A, CHR 0xA8, CHR 0xA9, CHR 0xAF]
    @ [[CHR 0xE2, CHR 0x81, CHR 0x9F], [CHR 0xE3, CHR 0x80, CHR 0x80]]"

text \<open>Strip prefixes among \<open>ps\<close> from the start of a string as long as there is one.\<close>

function strip_start :: "string list \<Rightarrow> string \<Rightarrow> string" where
  "strip_start ps s =
    (case find (\<lambda>p. prefix p s \<and> p \<noteq> []) ps of
       Some p \<Rightarrow> strip_start ps (drop (length p) s)
     | None \<Rightarrow> s)"
  by auto
termination
proof (relation "measure (\<lambda>(_, s). length s)")
  fix ps and s p :: string
  assume "find (\<lambda>p. prefix p s \<and> p \<noteq> []) ps = Some p"
  then have "prefix p s" "p \<noteq> []" by (auto simp: find_Some_iff)
  then have "0 < length p" "length p \<le> length s" by (auto dest: prefix_length_le)
  then have "length s - length p < length s" by linarith
  then show "((ps, drop (length p) s), ps, s) \<in> measure (\<lambda>(_, s). length s)" by simp
qed simp

declare strip_start.simps [simp del]

definition trim_start :: "string \<Rightarrow> string" where
  "trim_start s = strip_start white_space s"

definition trim_end :: "string \<Rightarrow> string" where
  "trim_end s = rev (strip_start (map rev white_space) (rev s))"

definition format_token_list :: "TokenInfo list \<Rightarrow> string \<Rightarrow> (string \<times> 32 word \<times> 32 word) option" where
  "format_token_list tokens source =
    (case tokens of
       [] \<Rightarrow> Some ([], 1, 1)
     | (_, txt, sp) # iter \<Rightarrow>
         let trimmed = trim_start txt;
             offset = length trimmed - length txt;
             span_start_with_offset = fst sp + offset;
             buf = trimmed @ concat (map (\<lambda>(_, t, _). t) iter)
         in map_option (\<lambda>(line, col). (trim_end buf, line, col))
              (line_byte source (span_start_with_offset, snd sp)))"

section \<open>A whole source\<close>

text \<open>A slice exists if its ends are in range and on character boundaries.\<close>

definition is_char_boundary :: "string \<Rightarrow> nat \<Rightarrow> bool" where
  "is_char_boundary s i \<longleftrightarrow>
    i = 0 \<or> i = length s \<or> (i < length s \<and> \<not> (of_char (s ! i) \<ge> (0x80 :: nat) \<and> of_char (s ! i) < (0xC0 :: nat)))"

definition slice :: "string \<Rightarrow> span \<Rightarrow> string option" where
  "slice s sp =
    (if fst sp \<le> snd sp \<and> is_char_boundary s (fst sp) \<and> is_char_boundary s (snd sp)
     then Some (take (snd sp - fst sp) (drop (fst sp) s)) else None)"

type_synonym lexeme = "(Token, LexingError) result \<times> span"

text \<open>The lists of tokens of the top-level declarations: the loop, with the tokens since the last
  delimiter, the lists complete so far and the nesting depth.\<close>

fun lex_loop ::
  "string \<Rightarrow> TokenInfo list \<Rightarrow> TokenInfo list list \<Rightarrow> int \<Rightarrow> lexeme list \<Rightarrow>
   (TokenInfo list list, ExtractError) result" where
  "lex_loop source current all depth [] =
    (if depth \<noteq> 0 then Err (MissingBodyDelimiter depth) else Ok (all @ [current]))"
| "lex_loop source current all depth ((token, span) # rest) =
    (case slice source span of
       None \<Rightarrow> Err TokenRange
     | Some token_range \<Rightarrow>
         (let push = (\<lambda>c. if depth = 0 then all @ [c] else all) in
          case token of
            Ok BraceOpen \<Rightarrow> lex_loop source [] (push current) (depth + 1) rest
          | Ok Semicolon \<Rightarrow> lex_loop source [] (push current) depth rest
          | Ok BlockComment \<Rightarrow>
              lex_loop source [] (push (current @ [(BlockComment, token_range, span)])) depth rest
          | Ok LineComment \<Rightarrow>
              lex_loop source [] (push (current @ [(LineComment, token_range, span)])) depth rest
          | Ok BraceClose \<Rightarrow>
              lex_loop source [] (if current \<noteq> [] then push current else all) (depth - 1) rest
          | Ok t \<Rightarrow> lex_loop source (current @ [(t, token_range, span)]) all depth rest
          | Err e \<Rightarrow>
              (case line_byte source span of
                 None \<Rightarrow> Err ExtractPanic
               | Some (line, col) \<Rightarrow> Err (Syntax line col e))))"

definition lex_source :: "(string \<Rightarrow> lexeme list) \<Rightarrow> string \<Rightarrow> (TokenInfo list list, ExtractError) result" where
  "lex_source lexer source = lex_loop source [] [] 0 (lexer source)"

text \<open>The position a failed declaration is reported at: that of the token at fault, otherwise that of
  the declaration.\<close>

definition parse_failure :: "string \<Rightarrow> TokenInfo list \<Rightarrow> ParseError \<Rightarrow> ExtractError" where
  "parse_failure source tokens e =
    (case e of
       Unreachable \<Rightarrow> ExtractPanic
     | ParseError sp msg \<Rightarrow>
         (case format_token_list tokens source of
            None \<Rightarrow> ExtractPanic
          | Some (src, snippet_start_line, snippet_start_byte) \<Rightarrow>
              (case (case sp of Some sp' \<Rightarrow> line_byte source sp' | None \<Rightarrow> Some (snippet_start_line, snippet_start_byte)) of
                 None \<Rightarrow> ExtractPanic
               | Some (line, col) \<Rightarrow> Parse line col src msg)))"

definition names_pushed :: "string option \<times> string option \<Rightarrow> string list" where
  "names_pushed = (\<lambda>(long_name, short_name).
    (case short_name of Some s \<Rightarrow> [s] | None \<Rightarrow> []) @ (case long_name of Some l \<Rightarrow> [l] | None \<Rightarrow> []))"

definition chunk_symbols ::
  "(string list \<Rightarrow> string) \<Rightarrow> string \<Rightarrow> (string \<Rightarrow> KeywordType option) \<Rightarrow> TokenInfo list \<Rightarrow>
   (string list, ExtractError) result" where
  "chunk_symbols debug_names source keywords tokens =
    (let ts = skip_whitespace tokens in
     if ts = [] then Ok []
     else map_ok names_pushed (map_err (parse_failure source tokens) (parse_entity debug_names keywords ts)))"

definition collect_symbols ::
  "(string list \<Rightarrow> string) \<Rightarrow> string \<Rightarrow> TokenInfo list list \<Rightarrow> (string \<Rightarrow> KeywordType option) \<Rightarrow>
   (string list, ExtractError) result" where
  "collect_symbols debug_names source all keywords =
    map_ok concat (collect_res (chunk_symbols debug_names source keywords) all)"

definition hash_map_from :: "(string \<times> 'v) list \<Rightarrow> string \<Rightarrow> 'v option" where
  "hash_map_from kvs = map_of (rev kvs)"

definition sysml_keywords :: "(string \<times> KeywordType) list" where
  "sysml_keywords =
    map (\<lambda>k. (k, Simple))
      [''abstract'', ''public'', ''protected'', ''private'', ''in'', ''out'', ''inout'', ''ref'',
       ''readonly'', ''do'', ''entry'', ''exit'', ''enum'', ''standard'', ''nonunique'', ''ordered'',
       ''library'', ''package'', ''doc'', ''attribute'', ''alias'', ''def'', ''metadata'', ''item'',
       ''part'', ''port'', ''calc'', ''occurrence'', ''event'', ''requirement'', ''action'', ''return'',
       ''enum'', ''constraint'', ''assert'', ''flow'', ''subject'', ''derived'', ''view'', ''viewpoint'',
       ''concern'', ''verification'', ''objective'', ''analysis'', ''allocation'', ''use'', ''case'',
       ''connection'', ''state'', ''rendering'', ''interface'', ''succession'', ''transition'',
       ''message'', ''binding'', ''result'', ''require'', ''defined'']
    @ map (\<lambda>k. (k, MultiReferences))
      ['':'', ''by'', '':>'', ''subsets'', ''specializes'', '':>>'', ''redefines'', ''end'', ''accept'', ''via'']
    @ map (\<lambda>k. (k, MultiReferencesWithMultiplicity)) [''connect'', ''to'', ''first'', ''then'', ''satisfy'']
    @ map (\<lambda>k. (k, SkipRest)) [''import'', ''for'', ''default'', '':='', ''bind'', ''assign'', ''then'']"

definition kerml_keywords :: "(string \<times> KeywordType) list" where
  "kerml_keywords =
    map (\<lambda>k. (k, Simple)) [''public'', ''protected'', ''private'', ''standard'', ''library'', ''package'']"

definition top_level_sysml ::
  "(string list \<Rightarrow> string) \<Rightarrow> (string \<Rightarrow> lexeme list) \<Rightarrow> string \<Rightarrow> (string list, ExtractError) result" where
  "top_level_sysml debug_names lexer source =
    and_then (lex_source lexer source) (\<lambda>all.
    collect_symbols debug_names source all (hash_map_from sysml_keywords))"

definition top_level_kerml ::
  "(string list \<Rightarrow> string) \<Rightarrow> (string \<Rightarrow> lexeme list) \<Rightarrow> string \<Rightarrow> (string list, ExtractError) result" where
  "top_level_kerml debug_names lexer source =
    and_then (lex_source lexer source) (\<lambda>all.
    collect_symbols debug_names source all (hash_map_from kerml_keywords))"

section \<open>Cutting into declarations\<close>

text \<open>The reference: the tokens at depth 0 other than braces and semicolons, and the depth after
  the last token.\<close>

fun top_tokens :: "string \<Rightarrow> int \<Rightarrow> lexeme list \<Rightarrow> TokenInfo list" where
  "top_tokens source depth [] = []"
| "top_tokens source depth ((token, span) # rest) =
    (case token of
       Ok BraceOpen \<Rightarrow> top_tokens source (depth + 1) rest
     | Ok BraceClose \<Rightarrow> top_tokens source (depth - 1) rest
     | Ok Semicolon \<Rightarrow> top_tokens source depth rest
     | Ok t \<Rightarrow> (if depth = 0 then [(t, the (slice source span), span)] else []) @ top_tokens source depth rest
     | Err _ \<Rightarrow> [])"

definition brace :: "lexeme \<Rightarrow> int" where
  "brace x = (if fst x = Ok BraceOpen then 1 else if fst x = Ok BraceClose then - 1 else 0)"

lemma brace_Ok: "brace (Ok t, sp) = (if t = BraceOpen then 1 else if t = BraceClose then - 1 else 0)"
  by (simp add: brace_def)

lemma lex_loop_concat:
  "lex_loop source current all depth xs = Ok res \<Longrightarrow>
   concat res = concat all @ (if depth = 0 then current else []) @ top_tokens source depth xs"
proof (induction xs arbitrary: current all depth)
  case (Cons x rest)
  obtain token span where x: "x = (token, span)" by (cases x)
  obtain tr where tr: "slice source span = Some tr" using Cons.prems x by (auto split: option.split_asm)
  show ?case
  proof (cases token)
    case (Ok t)
    show ?thesis
      using Cons.prems tr Ok x by (cases t) (auto simp: Let_def dest!: Cons.IH split: if_split_asm)
  next
    case (Err e)
    then show ?thesis using Cons.prems tr x by (auto split: option.split_asm)
  qed
qed (auto split: if_split_asm)

lemma lex_loop_is_ok:
  "is_ok (lex_loop source current all depth xs) \<longleftrightarrow>
   list_all (\<lambda>(token, span). is_ok token \<and> slice source span \<noteq> None) xs \<and> depth + sum_list (map brace xs) = 0"
proof (induction xs arbitrary: current all depth)
  case (Cons x rest)
  obtain token span where x: "x = (token, span)" by (cases x)
  show ?case
  proof (cases "slice source span")
    case (Some tr)
    show ?thesis
    proof (cases token)
      case (Ok t)
      show ?thesis
        using Some Ok x by (cases t) (simp_all add: Let_def brace_Ok Cons.IH add_diff_eq diff_add_eq add.assoc)
    next
      case (Err e)
      then show ?thesis using Some x by (simp add: Let_def split: option.split)
    qed
  qed (simp add: x)
qed simp

lemma top_tokens_sane:
  assumes "list_all (\<lambda>(token, span). is_ok token \<and> slice source span \<noteq> None) xs"
    and "(t, txt, sp) \<in> set (top_tokens source depth xs)"
  shows "t \<notin> {BraceOpen, BraceClose, Semicolon} \<and> slice source sp = Some txt"
  using assms
proof (induction source depth xs rule: top_tokens.induct)
  case (2 source depth token span rest)
  then obtain t' where t': "token = Ok t'" by (cases token) auto
  show ?case
    using 2 t' by (cases t') (auto split: if_split_asm)
qed simp

text \<open>C13: Cutting a source into declarations keeps exactly the tokens at brace depth 0: it succeeds
  exactly if the lexer reports no error, all spans are slices of the source and the braces add up
  to depth 0; then the lists of tokens, one after the other, are the tokens at depth 0 without the
  braces and semicolons, in the order of the source, each with the text of its span.\<close>

theorem lex_source_top_level:
  "(is_ok (lex_source lexer source) \<longleftrightarrow>
     list_all (\<lambda>(token, span). is_ok token \<and> slice source span \<noteq> None) (lexer source)
     \<and> sum_list (map brace (lexer source)) = 0)
   \<and> (lex_source lexer source = Ok all \<longrightarrow>
     concat all = top_tokens source 0 (lexer source)
     \<and> (\<forall>(t, txt, sp) \<in> set (concat all). t \<notin> {BraceOpen, BraceClose, Semicolon} \<and> slice source sp = Some txt))"
proof (intro conjI impI)
  show "is_ok (lex_source lexer source) \<longleftrightarrow>
     list_all (\<lambda>(token, span). is_ok token \<and> slice source span \<noteq> None) (lexer source)
     \<and> sum_list (map brace (lexer source)) = 0"
    by (simp add: lex_source_def lex_loop_is_ok)
next
  assume a: "lex_source lexer source = Ok all"
  then show c: "concat all = top_tokens source 0 (lexer source)"
    by (simp add: lex_source_def lex_loop_concat)
  have "is_ok (lex_loop source [] [] 0 (lexer source))" using a by (simp add: lex_source_def)
  then show "\<forall>(t, txt, sp) \<in> set (concat all). t \<notin> {BraceOpen, BraceClose, Semicolon} \<and> slice source sp = Some txt"
    unfolding c lex_loop_is_ok using top_tokens_sane by blast
qed

text \<open>The source \<open>package A { x; }\<close>.\<close>

definition sample_source :: string where
  "sample_source = ''package A { x; }''"

definition sample_lexer :: "string \<Rightarrow> lexeme list" where
  "sample_lexer _ =
    [(Ok OtherIdentifier, 0, 7), (Ok Space, 7, 8), (Ok OtherIdentifier, 8, 9), (Ok Space, 9, 10),
     (Ok BraceOpen, 10, 11), (Ok Space, 11, 12), (Ok OtherIdentifier, 12, 13), (Ok Semicolon, 13, 14),
     (Ok Space, 14, 15), (Ok BraceClose, 15, 16)]"

definition sample_chunk :: "TokenInfo list" where
  "sample_chunk =
    [(OtherIdentifier, ''package'', 0, 7), (Space, '' '', 7, 8), (OtherIdentifier, ''A'', 8, 9), (Space, '' '', 9, 10)]"

lemma sample_lexed: "lex_source sample_lexer sample_source = Ok [sample_chunk, []]"
  by code_simp

theorem lex_source_top_level_witness:
  "lex_source sample_lexer sample_source = Ok [sample_chunk, []]
   \<and> concat [sample_chunk, []] = top_tokens sample_source 0 (sample_lexer sample_source)"
  using lex_source_top_level [of sample_lexer sample_source "[sample_chunk, []]"] sample_lexed by simp

section \<open>No panic\<close>

text \<open>What the tokens of a declaration satisfy, and what then holds of a parse error: no brace or
  semicolon, and positions in the source.\<close>

definition sane :: "nat \<Rightarrow> TokenInfo list \<Rightarrow> bool" where
  "sane n ts \<longleftrightarrow> list_all (\<lambda>(t, _, sp). t \<notin> {BraceOpen, BraceClose, Semicolon} \<and> fst sp \<le> n) ts"

fun good_error :: "nat \<Rightarrow> ParseError \<Rightarrow> bool" where
  "good_error n Unreachable = False"
| "good_error n (ParseError None msg) = True"
| "good_error n (ParseError (Some sp) msg) = (fst sp \<le> n)"

abbreviation good_rest :: "nat \<Rightarrow> ('a, ParseError) result \<Rightarrow> ('a \<Rightarrow> TokenInfo list) \<Rightarrow> bool" where
  "good_rest n r f \<equiv> (case r of Ok a \<Rightarrow> sane n (f a) | Err e \<Rightarrow> good_error n e)"

lemma sane_simps [simp]:
  "sane n []"
  "sane n ((t, txt, sp) # ts) \<longleftrightarrow> t \<notin> {BraceOpen, BraceClose, Semicolon} \<and> fst sp \<le> n \<and> sane n ts"
  by (auto simp: sane_def)

lemma sane_skip_whitespace: "sane n ts \<Longrightarrow> sane n (skip_whitespace ts)"
  by (induction ts rule: skip_whitespace.induct) auto

lemma name_of_good: "name_of (t, txt, sp) = Err e \<Longrightarrow> fst sp \<le> n \<Longrightarrow> good_error n e"
  by (cases t) (auto simp: name_of_def)

lemma parse_name_good: "sane n ts \<Longrightarrow> good_rest n (parse_name ts) snd"
  by (cases ts) (fastforce split: result.split dest: name_of_good)+

lemma parse_reference_good: "sane n ts \<Longrightarrow> good_rest n (parse_reference_or_chain ts) snd"
proof (induction ts rule: parse_reference_or_chain.induct)
  case (2 t ts)
  show ?case
  proof (cases "name_of t")
    case (Ok nc)
    show ?thesis
    proof (cases ts)
      case Nil
      then show ?thesis using Ok by simp
    next
      case (Cons u us)
      obtain k x p q where u: "u = (k, x, p, q)" by (cases u)
      have s: "sane n us" "sane n ts" using 2(3) Cons by (cases t; simp add: u)+
      show ?thesis
      proof (cases "k = DoubleColon \<or> k = Period")
        case True
        then have "good_rest n (parse_reference_or_chain us) snd" using 2(1,2) Ok Cons u s by auto
        then show ?thesis using True Ok Cons u by (auto split: result.splits)
      next
        case False
        then have "parse_reference_or_chain (t # ts) = Ok ([nc], ts)" using Ok Cons u by (cases k) simp_all
        then show ?thesis using s by simp
      qed
    qed
  next
    case (Err e)
    then show ?thesis using 2(3) name_of_good [of "fst t" "fst (snd t)" "snd (snd t)" e n] by (cases t) simp
  qed
qed simp

lemma skip_nested_good: "sane n ts \<Longrightarrow> good_rest n (skip_nested p q k ts) id"
proof (induction p q k ts rule: skip_nested.induct)
  case (2 p q k token x ts)
  then have s: "sane n ts" by (cases x) simp
  consider "token = p" | "token \<noteq> p" "token = q" "k - 1 = 0" | "token \<noteq> p" "token = q" "k - 1 \<noteq> 0"
    | "token \<noteq> p" "token \<noteq> q" by blast
  then show ?case
  proof cases
    case 1
    then show ?thesis using 2(1) s by simp
  next
    case 2
    then show ?thesis using s by simp
  next
    case 3
    show ?thesis using 2(2) [OF 3(1,2,3) s] 3 by simp
  next
    case 4
    show ?thesis using 2(3) [OF 4 s] 4 by simp
  qed
qed simp

lemma maybe_skip_good: "sane n ts \<Longrightarrow> good_rest n (maybe_skip_multiplicity ts) id"
proof -
  assume s: "sane n ts"
  consider "maybe_skip_multiplicity ts = skip_nested OpenSquare CloseSquare 0 ts" | "maybe_skip_multiplicity ts = Ok ts"
    unfolding maybe_skip_multiplicity_def by (cases ts; cases "fst (hd ts)") (auto simp del: skip_nested.simps)
  then show ?thesis using s skip_nested_good [OF s, of OpenSquare CloseSquare 0] by cases simp_all
qed

lemma skip_list_of_refs_good: "sane n ts \<Longrightarrow> good_rest n (skip_list_of_refs ts) id"
proof (induction ts rule: skip_list_of_refs.induct)
  case (1 ts)
  note p = parse_reference_good [OF 1(2)]
  show ?case
  proof (cases "parse_reference_or_chain ts")
    case (Ok a)
    obtain ns r where a: "a = (ns, r)" by (cases a)
    have s: "sane n (skip_whitespace r)" using p Ok a by (simp add: sane_skip_whitespace)
    show ?thesis
    proof (cases "\<exists>x ts'. skip_whitespace r = (Comma, x) # ts'")
      case True
      then obtain x ts' where t: "skip_whitespace r = (Comma, x) # ts'" by blast
      have "sane n ts'" using s t by (cases x) simp
      then have "good_rest n (skip_list_of_refs (skip_whitespace ts')) id"
        using 1(1) [OF Ok a [symmetric] t refl refl] by (simp add: sane_skip_whitespace)
      then show ?thesis using Ok a t by (subst skip_list_of_refs.simps) simp
    next
      case False
      then have "skip_list_of_refs ts = Ok (skip_whitespace r)"
        using Ok a by (subst skip_list_of_refs.simps) (auto split: list.split prod.split Token.split)
      then show ?thesis using s by simp
    qed
  next
    case (Err e)
    then show ?thesis using p by (subst skip_list_of_refs.simps) simp
  qed
qed

lemma after_keyword_good:
  "sane n ts \<Longrightarrow> good_rest n (after_keyword kt ts) (\<lambda>r. case r of None \<Rightarrow> [] | Some r' \<Rightarrow> r')"
proof (cases kt)
  case MultiReferences
  assume "sane n ts"
  from skip_list_of_refs_good [OF sane_skip_whitespace [OF this]] show ?thesis
    using MultiReferences by (auto split: result.splits)
next
  case MultiReferencesWithMultiplicity
  assume s: "sane n ts"
  note m = maybe_skip_good [OF sane_skip_whitespace [OF s]]
  show ?thesis
  proof (cases "maybe_skip_multiplicity (skip_whitespace ts)")
    case (Ok r)
    then have "sane n r" using m by simp
    from skip_list_of_refs_good [OF sane_skip_whitespace [OF this]] show ?thesis
      using MultiReferencesWithMultiplicity Ok by (auto split: result.splits)
  next
    case (Err e)
    then show ?thesis using m MultiReferencesWithMultiplicity by simp
  qed
qed auto

lemma take_long_name_good:
  assumes "sane n ts" and "fst sp \<le> n" shows "good_rest n (take_long_name D l sp ts) snd"
  using parse_reference_good [OF assms(1)] assms(2) unfolding take_long_name_def
  by (cases "parse_reference_or_chain ts") (auto split: list.split option.split)

lemma take_short_name_good:
  assumes "sane n ts" and "fst sp \<le> n" shows "good_rest n (take_short_name l sp ts) snd"
  using parse_name_good [OF assms(1)] assms(2) unfolding take_short_name_def
  by (cases "parse_name ts") (auto split: list.split prod.split Token.split)

abbreviation step_rest :: "entity_state option \<Rightarrow> TokenInfo list" where
  "step_rest st \<equiv> (case st of None \<Rightarrow> [] | Some (_, _, r) \<Rightarrow> r)"

lemma entity_step_good:
  assumes "sane n (t # rest)"
  shows "good_rest n (entity_step D K (l, s, rest) t) step_rest"
proof -
  obtain tok orig sp where t: "t = (tok, orig, sp)" by (cases t)
  have r: "sane n rest" "fst sp \<le> n" using assms t by auto
  have kw: "good_rest n (map_ok (map_option (\<lambda>r. (l, s, r))) (after_keyword kt rest)) step_rest" for kt
    using after_keyword_good [OF r(1), of kt] by (cases "after_keyword kt rest") (auto split: option.splits)
  have nest: "good_rest n (and_then (skip_nested p q 0 (t # rest)) (\<lambda>r. Ok (Some (l, s, r)))) step_rest" for p q
    using skip_nested_good [OF assms, of p q 0] by (cases "skip_nested p q 0 (t # rest)") (auto simp del: skip_nested.simps)
  have long: "good_rest n (map_ok (\<lambda>(n, r). Some (Some n, s, r)) (take_long_name D l sp (t # rest))) step_rest"
    using take_long_name_good [OF assms r(2), of D l] by (cases "take_long_name D l sp (t # rest)") auto
  have short: "good_rest n (map_ok (\<lambda>(n, r). Some (l, Some n, r)) (take_short_name s sp rest)) step_rest"
    using take_short_name_good [OF r, of s] by (cases "take_short_name s sp rest") auto
  have user: "good_rest n (and_then (parse_reference_or_chain rest) (\<lambda>(_, r). Ok (Some (l, s, r)))) step_rest"
    using parse_reference_good [OF r(1)] by (cases "parse_reference_or_chain rest") auto
  show ?thesis
    using assms kw nest long short user r t unfolding entity_step_def
    by (cases tok; cases "K orig")
      (simp_all add: Let_def del: skip_nested.simps parse_reference_or_chain.simps good_error.simps(1))
qed

lemma entity_loop_good: "sane n ts \<Longrightarrow> entity_loop D K l s ts = Err e \<Longrightarrow> good_error n e"
proof (induction D K l s ts rule: entity_loop.induct)
  case (2 D K l s t rest)
  note g = entity_step_good [OF 2(2), of D K l s]
  show ?case
  proof (cases "entity_step D K (l, s, rest) t")
    case (Ok a)
    show ?thesis
    proof (cases a)
      case None
      then show ?thesis using 2(3) Ok by simp
    next
      case (Some b)
      obtain l' s' r where b: "b = (l', s', r)" by (cases b)
      have "sane n r" using g Ok Some b by simp
      moreover have "entity_loop D K l' s' r = Err e" using 2(3) Ok Some b by simp
      ultimately show ?thesis using 2(1) [OF Ok Some b [symmetric] refl] by blast
    qed
  next
    case (Err e')
    then show ?thesis using 2(3) g by simp
  qed
qed simp

lemma collect_res_Err: "collect_res f xs = Err e \<Longrightarrow> \<exists>x \<in> set xs. f x = Err e"
  by (induction xs) (auto simp: and_then_eq_Err)

lemma slice_in_range: "slice s sp = Some x \<Longrightarrow> fst sp \<le> length s"
  by (auto simp: slice_def is_char_boundary_def split: if_split_asm)

lemma line_byte_in_range: "fst sp \<le> length source \<Longrightarrow> \<exists>p. line_byte source sp = Some p"
  by (simp add: line_byte_def Let_def)

lemma trim_start_length: "length (strip_start ps s) \<le> length s"
proof (induction ps s rule: strip_start.induct)
  case (1 ps s)
  show ?case
  proof (cases "find (\<lambda>p. prefix p s \<and> p \<noteq> []) ps")
    case None
    then show ?thesis by (subst strip_start.simps) simp
  next
    case (Some p)
    then show ?thesis using 1 [OF Some] by (subst strip_start.simps) simp
  qed
qed

text \<open>The text is never longer after trimming: the offset is 0 and the position is that of the
  first token, leading white space included.\<close>

lemma format_token_list_position:
  "format_token_list ((t, tx, sp) # ts) source = Some (buf, pos) \<Longrightarrow> line_byte source sp = Some pos"
  using trim_start_length [of white_space tx]
  by (auto simp: format_token_list_def trim_start_def Let_def)

lemma format_token_list_Some:
  assumes "sane (length source) ts" shows "\<exists>r. format_token_list ts source = Some r"
proof (cases ts)
  case Nil
  then show ?thesis by (simp add: format_token_list_def)
next
  case (Cons x xs)
  obtain t tx sp where x: "x = (t, tx, sp)" by (cases x)
  have "fst sp + (length (trim_start tx) - length tx) \<le> length source"
    using assms Cons x trim_start_length [of white_space tx] by (simp add: trim_start_def)
  then show ?thesis
    using line_byte_in_range [of "(fst sp + (length (trim_start tx) - length tx), snd sp)" source] Cons x
    by (auto simp: format_token_list_def Let_def)
qed

lemma parse_failure_no_panic:
  assumes "sane (length source) ts" and "good_error (length source) e"
  shows "parse_failure source ts e \<noteq> ExtractPanic"
proof -
  obtain b l c where f: "format_token_list ts source = Some (b, l, c)"
    using format_token_list_Some [OF assms(1)] by (metis prod_cases3)
  show ?thesis
  proof (cases e)
    case (ParseError spo msg)
    show ?thesis
    proof (cases spo)
      case None
      then show ?thesis using ParseError f by (simp add: parse_failure_def)
    next
      case (Some sp)
      then obtain p where "line_byte source sp = Some p"
        using assms(2) ParseError line_byte_in_range [of sp source] by auto
      then show ?thesis using ParseError Some f by (simp add: parse_failure_def split: prod.split)
    qed
  qed (use assms(2) in simp)
qed

lemma chunk_symbols_no_panic:
  assumes "sane (length source) ts" shows "chunk_symbols D source K ts \<noteq> Err ExtractPanic"
proof -
  note s = sane_skip_whitespace [OF assms]
  have "parse_failure source ts e \<noteq> ExtractPanic" if "parse_entity D K (skip_whitespace ts) = Err e" for e
    using parse_failure_no_panic [OF assms entity_loop_good [OF s]] that by (simp add: parse_entity_def)
  then show ?thesis
    by (cases "parse_entity D K (skip_whitespace ts)") (auto simp: chunk_symbols_def Let_def)
qed

lemma lex_loop_no_panic: "lex_loop source current all depth xs \<noteq> Err ExtractPanic"
proof (induction xs arbitrary: current all depth)
  case (Cons x rest)
  obtain token span where x: "x = (token, span)" by (cases x)
  show ?case
  proof (cases "slice source span")
    case (Some tr)
    obtain p where p: "line_byte source span = Some p"
      using line_byte_in_range [OF slice_in_range [OF Some]] by blast
    show ?thesis
    proof (cases token)
      case (Ok t)
      then show ?thesis using Cons.IH Some x by (cases t) (simp_all add: Let_def)
    next
      case (Err e)
      then show ?thesis using Some p x by (simp split: prod.split)
    qed
  qed (simp add: x)
qed simp

lemma lex_source_sane:
  assumes "lex_source lexer source = Ok all" and "ts \<in> set all"
  shows "sane (length source) ts"
proof -
  have o: "lex_loop source [] [] 0 (lexer source) = Ok all" using assms(1) by (simp add: lex_source_def)
  have a: "list_all (\<lambda>(token, span). is_ok token \<and> slice source span \<noteq> None) (lexer source)"
    using lex_loop_is_ok [of source "[]" "[]" 0 "lexer source"] o by simp
  have c: "concat all = top_tokens source 0 (lexer source)" using lex_loop_concat [OF o] by simp
  have "set ts \<subseteq> set (top_tokens source 0 (lexer source))" using assms(2) unfolding c [symmetric] by auto
  then have "t \<notin> {BraceOpen, BraceClose, Semicolon} \<and> fst sp \<le> length source" if "(t, tx, sp) \<in> set ts" for t tx sp
    using top_tokens_sane [OF a] that slice_in_range by blast
  then show ?thesis unfolding sane_def list_all_iff by blast
qed

text \<open>C12: Symbol extraction never panics, on any source and whatever the lexer gives: the braces and
  semicolons the parser treats as unreachable never reach it, and all positions reported are
  computed from offsets in the source.\<close>

theorem top_level_no_panic:
  "top_level_sysml D lexer source \<noteq> Err ExtractPanic \<and> top_level_kerml D lexer source \<noteq> Err ExtractPanic"
proof -
  have "and_then (lex_source lexer source) (\<lambda>all. collect_symbols D source all K) \<noteq> Err ExtractPanic" for K
  proof (cases "lex_source lexer source")
    case (Ok all)
    have "collect_res (chunk_symbols D source K) all \<noteq> Err ExtractPanic"
      using chunk_symbols_no_panic [OF lex_source_sane [OF Ok]]
      by (auto dest: collect_res_Err)
    then show ?thesis using Ok by (simp add: collect_symbols_def)
  next
    case (Err e)
    then show ?thesis using lex_loop_no_panic [of source "[]" "[]" 0 "lexer source"] by (simp add: lex_source_def)
  qed
  then show ?thesis by (simp add: top_level_sysml_def top_level_kerml_def)
qed

section \<open>The names of a declaration\<close>

text \<open>Tokens after which the rest of the declaration is of no interest.\<close>

fun ends_names :: "(string \<Rightarrow> KeywordType option) \<Rightarrow> TokenInfo list \<Rightarrow> bool" where
  "ends_names K [] = True"
| "ends_names K ((t, orig, sp) # ts) \<longleftrightarrow>
    t = Equals \<or> (t \<in> {OtherIdentifier, Quoted, OtherSymbol} \<and> K orig = Some SkipRest)"

lemma entity_loop_end: "ends_names K ts \<Longrightarrow> entity_loop D K l s ts = Ok (l, s)"
proof (cases ts)
  case (Cons t rest)
  obtain tok orig sp where t: "t = (tok, orig, sp)" by (cases t)
  assume "ends_names K ts"
  then have "entity_step D K (l, s, rest) t = Ok None"
    using Cons t by (auto simp: entity_step_def Let_def)
  then show ?thesis using Cons by simp
qed simp

text \<open>A name followed by a token that does not continue a reference.\<close>

lemma parse_single_name:
  assumes "name_of t = Ok n" and "ts = [] \<or> fst (hd ts) \<notin> {DoubleColon, Period}"
  shows "parse_reference_or_chain (t # ts) = Ok ([n], ts)"
  using assms by (cases ts; cases "fst (hd ts)") auto

lemma entity_loop_long:
  assumes "name_of (tok, orig, sp) = Ok n" and "K orig = None"
    and "ts = [] \<or> fst (hd ts) \<notin> {DoubleColon, Period}"
  shows "entity_loop D K None s ((tok, orig, sp) # ts) = entity_loop D K (Some n) s ts"
proof -
  have k: "tok = OtherIdentifier \<or> tok = Quoted" using assms(1) by (cases tok) (auto simp: name_of_def)
  have "take_long_name D None sp ((tok, orig, sp) # ts) = Ok (n, ts)"
    by (simp add: take_long_name_Ok parse_single_name [OF assms(1,3)] del: parse_reference_or_chain.simps)
  then have "entity_step D K (None, s, ts) (tok, orig, sp) = Ok (Some (Some n, s, ts))"
    using k assms(2) by (auto simp: entity_step_def Let_def)
  then show ?thesis by simp
qed

lemma entity_loop_short:
  assumes "name_of t = Ok n"
  shows "entity_loop D K l None ((LT, x) # t # (GT, y) # ts) = entity_loop D K l (Some n) ts"
proof -
  obtain orig sp where x: "x = (orig, sp)" by (cases x)
  have "take_short_name None sp (t # (GT, y) # ts) = Ok (n, ts)"
    using assms by (cases y) (simp add: take_short_name_Ok)
  then have "entity_step D K (l, None, t # (GT, y) # ts) (LT, x) = Ok (Some (l, Some n, ts))"
    using x by (simp add: entity_step_def Let_def)
  then show ?thesis by simp
qed

text \<open>The grammar of the parts of a declaration around its names.\<close>

abbreviation blanks :: "TokenInfo list \<Rightarrow> bool" where
  "blanks \<equiv> list_all (\<lambda>t. fst t = Space)"

text \<open>A name or a chain of names joined by \<open>::\<close> or a period.\<close>

inductive reference :: "TokenInfo list \<Rightarrow> bool" where
  reference_name: "name_of t = Ok n \<Longrightarrow> reference [t]"
| reference_chain: "name_of t = Ok n \<Longrightarrow> fst c \<in> {DoubleColon, Period} \<Longrightarrow> reference ts \<Longrightarrow> reference (t # c # ts)"

text \<open>References separated by commas, with white space around the commas.\<close>

inductive ref_list :: "TokenInfo list \<Rightarrow> bool" where
  ref_list_last: "reference ts \<Longrightarrow> ref_list ts"
| ref_list_more: "reference ts \<Longrightarrow> blanks b \<Longrightarrow> fst c = Comma \<Longrightarrow> blanks b' \<Longrightarrow> ref_list us \<Longrightarrow> ref_list (ts @ b @ c # b' @ us)"

text \<open>Tokens in which \<open>p\<close> and \<open>q\<close> are balanced, and such tokens between the two.\<close>

inductive balanced :: "Token \<Rightarrow> Token \<Rightarrow> TokenInfo list \<Rightarrow> bool" for p q where
  balanced_Nil: "balanced p q []"
| balanced_other: "fst t \<noteq> p \<Longrightarrow> fst t \<noteq> q \<Longrightarrow> balanced p q ts \<Longrightarrow> balanced p q (t # ts)"
| balanced_group: "balanced p q as \<Longrightarrow> balanced p q bs \<Longrightarrow> balanced p q ((p, x) # as @ (q, y) # bs)"

definition group :: "Token \<Rightarrow> Token \<Rightarrow> TokenInfo list \<Rightarrow> bool" where
  "group p q ts \<longleftrightarrow> (\<exists>x as y. ts = (p, x) # as @ [(q, y)] \<and> balanced p q as)"

text \<open>The parts of a declaration that hold no name of it: white space and comments, keywords, together
  with the multiplicity and the references that follow a keyword of that kind, user-defined
  keywords, and groups in parentheses or brackets.\<close>

inductive skipped :: "(string \<Rightarrow> KeywordType option) \<Rightarrow> TokenInfo list \<Rightarrow> bool" for K where
  skipped_Nil: "skipped K []"
| skipped_blank: "fst t \<in> {Space, BlockComment, LineComment} \<Longrightarrow> skipped K ts \<Longrightarrow> skipped K (t # ts)"
| skipped_keyword: "tok \<in> {OtherIdentifier, Quoted, OtherSymbol} \<Longrightarrow> K orig = Some Simple \<Longrightarrow> skipped K ts
    \<Longrightarrow> skipped K ((tok, orig, sp) # ts)"
| skipped_references: "tok \<in> {OtherIdentifier, Quoted, OtherSymbol} \<Longrightarrow> K orig = Some MultiReferences
    \<Longrightarrow> blanks b \<Longrightarrow> ref_list r \<Longrightarrow> skipped K ts \<Longrightarrow> skipped K ((tok, orig, sp) # b @ r @ ts)"
| skipped_multiplicity: "tok \<in> {OtherIdentifier, Quoted, OtherSymbol} \<Longrightarrow> K orig = Some MultiReferencesWithMultiplicity
    \<Longrightarrow> blanks b \<Longrightarrow> m = [] \<or> group OpenSquare CloseSquare m \<Longrightarrow> blanks b' \<Longrightarrow> ref_list r \<Longrightarrow> skipped K ts
    \<Longrightarrow> skipped K ((tok, orig, sp) # b @ m @ b' @ r @ ts)"
| skipped_user_keyword: "reference r \<Longrightarrow> skipped K ts \<Longrightarrow> skipped K ((UserKeywordStart, x) # r @ ts)"
| skipped_group: "group OpenParen CloseParen g \<or> group OpenSquare CloseSquare g \<Longrightarrow> skipped K ts \<Longrightarrow> skipped K (g @ ts)"

text \<open>The next token would continue a reference, or the next but white space a list of references.\<close>

definition continues :: "TokenInfo list \<Rightarrow> bool" where
  "continues ts \<longleftrightarrow> (\<exists>x us. ts = (DoubleColon, x) # us \<or> ts = (Period, x) # us \<or> skip_whitespace ts = (Comma, x) # us)"

lemma skip_whitespace_blanks: "blanks b \<Longrightarrow> skip_whitespace (b @ ts) = skip_whitespace ts"
proof (induction b)
  case (Cons t b)
  then show ?case by (cases t) auto
qed simp

lemma skip_whitespace_other: "fst t \<noteq> Space \<Longrightarrow> skip_whitespace (t # ts) = t # ts"
  by (cases t; cases "fst t") auto

lemma name_token: "name_of t = Ok n \<Longrightarrow> fst t = OtherIdentifier \<or> fst t = Quoted"
  by (cases t; cases "fst t") (auto simp: name_of_def)

lemma reference_start: "reference ts \<Longrightarrow> \<exists>t us n. ts = t # us \<and> name_of t = Ok n"
  by (induction rule: reference.induct) auto

lemma reference_not_blank: "reference ts \<Longrightarrow> skip_whitespace (ts @ rest) = ts @ rest"
proof -
  assume "reference ts"
  from reference_start [OF this] obtain t us n where t: "ts = t # us" "name_of t = Ok n" by blast
  then have "fst t \<noteq> Space" using name_token [OF t(2)] by auto
  then show ?thesis using t(1) by (simp add: skip_whitespace_other)
qed

lemma ref_list_start: "ref_list ts \<Longrightarrow> skip_whitespace (ts @ rest) = ts @ rest"
  by (induction arbitrary: rest rule: ref_list.induct) (simp_all add: reference_not_blank)

lemma parse_reference_chain:
  assumes "name_of t = Ok n" and "fst c \<in> {DoubleColon, Period}" and "parse_reference_or_chain ts = Ok (ns, rest)"
  shows "parse_reference_or_chain (t # c # ts) = Ok (n # ns, rest)"
  using assms by (cases c) auto

lemma reference_parsed:
  "reference ts \<Longrightarrow> \<not> continues rest \<Longrightarrow> \<exists>ns. parse_reference_or_chain (ts @ rest) = Ok (ns, rest)"
proof (induction rule: reference.induct)
  case (reference_name t n)
  have "rest = [] \<or> fst (hd rest) \<notin> {DoubleColon, Period}"
    using reference_name(2) by (cases rest; cases "hd rest") (auto simp: continues_def)
  then show ?case using parse_single_name [OF reference_name(1)] by simp
next
  case (reference_chain t n c ts)
  then obtain ns where "parse_reference_or_chain (ts @ rest) = Ok (ns, rest)" by blast
  then show ?case using parse_reference_chain [OF reference_chain(1,2)] by (simp del: parse_reference_or_chain.simps)
qed

lemma blanks_not_continued: "blanks b \<Longrightarrow> fst c = Comma \<Longrightarrow> \<exists>x. b @ c # ts = (Comma, x) # ts \<or> b \<noteq> [] \<and> fst (hd b) = Space"
  by (cases b; cases c) auto

lemma reference_before_comma:
  assumes "reference ts" and "blanks b" and "fst c = Comma"
  shows "\<exists>ns. parse_reference_or_chain (ts @ b @ c # us) = Ok (ns, b @ c # us)"
  using assms(1)
proof (induction rule: reference.induct)
  case (reference_name t n)
  have "fst (hd (b @ c # us)) \<notin> {DoubleColon, Period}" using assms(2,3) by (cases b) auto
  then show ?case using parse_single_name [OF reference_name(1)] by simp
next
  case (reference_chain t n c' ts)
  then show ?case using parse_reference_chain [OF reference_chain(1,2)] by (fastforce simp del: parse_reference_or_chain.simps)
qed

lemma ref_list_skipped:
  "ref_list ts \<Longrightarrow> \<not> continues rest \<Longrightarrow> skip_list_of_refs (ts @ rest) = Ok (skip_whitespace rest)"
proof (induction rule: ref_list.induct)
  case (ref_list_last ts)
  obtain ns where "parse_reference_or_chain (ts @ rest) = Ok (ns, rest)"
    using reference_parsed [OF ref_list_last] by blast
  moreover have "\<nexists>x us. skip_whitespace rest = (Comma, x) # us" using ref_list_last(2) by (auto simp: continues_def)
  ultimately show ?case
    by (subst skip_list_of_refs.simps) (auto split: list.split Token.split)
next
  case (ref_list_more ts b c b' us)
  obtain x where c: "c = (Comma, x)" using ref_list_more(3) by (cases c) auto
  obtain ns where "parse_reference_or_chain (ts @ b @ c # b' @ us @ rest) = Ok (ns, b @ c # b' @ us @ rest)"
    using reference_before_comma [OF ref_list_more(1-3)] by blast
  moreover have "skip_whitespace (b @ c # b' @ us @ rest) = (Comma, x) # b' @ us @ rest"
    using ref_list_more(2) c by (simp add: skip_whitespace_blanks)
  moreover have "skip_whitespace (b' @ us @ rest) = us @ rest"
    using ref_list_more(4,5) by (simp add: skip_whitespace_blanks ref_list_start)
  ultimately show ?case using ref_list_more.IH ref_list_more(7) by (subst skip_list_of_refs.simps) simp
qed

lemma balanced_skip:
  "balanced p q ts \<Longrightarrow> p \<noteq> q \<Longrightarrow> 0 < n \<Longrightarrow> skip_nested p q n (ts @ rest) = skip_nested p q n rest"
proof (induction arbitrary: n rest rule: balanced.induct)
  case (balanced_other t ts)
  then show ?case by (cases t) auto
next
  case (balanced_group as bs x y)
  show ?case
    using balanced_group.IH(1) [OF balanced_group.prems(1), of "n + 1"]
      balanced_group.IH(2) [OF balanced_group.prems, of rest] balanced_group.prems by simp
qed simp

lemma group_skip:
  assumes "group p q ts" and "p \<noteq> q"
  shows "skip_nested p q 0 (ts @ rest) = Ok rest"
proof -
  obtain x as y where "ts = (p, x) # as @ [(q, y)]" "balanced p q as" using assms(1) by (auto simp: group_def)
  then show ?thesis using balanced_skip [of p q as 1 "(q, y) # rest"] assms(2) by simp
qed

lemma group_start: "group p q g \<Longrightarrow> \<exists>x us. g = (p, x) # us"
  by (auto simp: group_def)

lemma skipped_not_continued: "skipped K ts \<Longrightarrow> \<not> continues rest \<Longrightarrow> \<not> continues (ts @ rest)"
proof (induction rule: skipped.induct)
  case (skipped_blank t ts)
  then show ?case by (cases t) (auto simp: continues_def)
next
  case (skipped_group g ts)
  then show ?case by (auto simp: continues_def dest!: group_start)
qed (auto simp: continues_def)

lemma entity_loop_whitespace: "entity_loop D K l s (skip_whitespace ts) = entity_loop D K l s ts"
  by (induction ts rule: skip_whitespace.induct) (simp_all add: entity_step_def Let_def)

lemma multiplicity_skipped:
  assumes "blanks b" "m = [] \<or> group OpenSquare CloseSquare m" "blanks b'" "ref_list r"
  shows "\<exists>u. maybe_skip_multiplicity (skip_whitespace (b @ m @ b' @ r @ rest)) = Ok u \<and> skip_whitespace u = r @ rest"
proof (cases "m = []")
  case True
  have s: "skip_whitespace (b @ m @ b' @ r @ rest) = r @ rest"
    using assms True by (simp add: skip_whitespace_blanks ref_list_start)
  have "\<exists>t us n. r = t # us \<and> name_of t = Ok n"
    using assms(4) by (cases rule: ref_list.cases) (use reference_start in \<open>auto, fastforce+\<close>)
  then have "maybe_skip_multiplicity (r @ rest) = Ok (r @ rest)"
    using name_token by (fastforce simp: maybe_skip_multiplicity_def)
  then show ?thesis using s ref_list_start [OF assms(4)] by simp
next
  case False
  then have g: "group OpenSquare CloseSquare m" using assms(2) by simp
  obtain x us where m: "m = (OpenSquare, x) # us" using group_start [OF g] by blast
  have "skip_whitespace (b @ m @ b' @ r @ rest) = m @ b' @ r @ rest"
    using assms(1) m by (simp add: skip_whitespace_blanks)
  moreover have "maybe_skip_multiplicity (m @ b' @ r @ rest) = Ok (b' @ r @ rest)"
    using group_skip [OF g, of "b' @ r @ rest"] m by (simp add: maybe_skip_multiplicity_def)
  ultimately show ?thesis using assms(3,4) by (simp add: skip_whitespace_blanks ref_list_start)
qed

lemma keyword_step:
  assumes "tok \<in> {OtherIdentifier, Quoted, OtherSymbol}" and "K orig = Some kt" and "after_keyword kt rest = Ok (Some r)"
  shows "entity_loop D K l s ((tok, orig, sp) # rest) = entity_loop D K l s r"
  using assms by (auto simp: entity_step_def Let_def)

lemma group_step:
  assumes "group OpenParen CloseParen g \<or> group OpenSquare CloseSquare g"
  shows "entity_loop D K l s (g @ rest) = entity_loop D K l s rest"
proof -
  obtain p q x us where p: "group p q g" "p = OpenParen \<and> q = CloseParen \<or> p = OpenSquare \<and> q = CloseSquare"
    "g = (p, x) # us" using assms group_start by blast
  obtain orig sp where x: "x = (orig, sp)" by (cases x)
  have "skip_nested p q 0 ((p, orig, sp) # us @ rest) = Ok rest"
    using group_skip [OF p(1), of rest] p(2,3) x by auto
  then have "entity_step D K (l, s, us @ rest) (p, orig, sp) = Ok (Some (l, s, rest))"
    using p(2) by (auto simp: entity_step_def Let_def simp del: skip_nested.simps)
  then show ?thesis using p(3) x by simp
qed

lemma entity_loop_skipped:
  "skipped K ts \<Longrightarrow> \<not> continues rest \<Longrightarrow> entity_loop D K l s (ts @ rest) = entity_loop D K l s rest"
proof (induction rule: skipped.induct)
  case (skipped_blank t ts)
  then show ?case by (cases t) (auto simp: entity_step_def Let_def)
next
  case (skipped_keyword tok orig ts sp)
  then show ?case using keyword_step [where K = K, OF skipped_keyword(1,2)] by simp
next
  case (skipped_references tok orig b r ts sp)
  note nc = skipped_not_continued [OF skipped_references(5,7)]
  have "after_keyword MultiReferences (b @ r @ ts @ rest) = Ok (Some (skip_whitespace (ts @ rest)))"
    using skipped_references(3,4) ref_list_skipped [OF skipped_references(4) nc]
    by (simp add: skip_whitespace_blanks ref_list_start)
  from keyword_step [where K = K, OF skipped_references(1,2) this]
  show ?case using skipped_references by (simp add: entity_loop_whitespace del: entity_loop.simps)
next
  case (skipped_multiplicity tok orig b m b' r ts sp)
  note nc = skipped_not_continued [OF skipped_multiplicity(7,9)]
  obtain u where "maybe_skip_multiplicity (skip_whitespace (b @ m @ b' @ r @ ts @ rest)) = Ok u" "skip_whitespace u = r @ ts @ rest"
    using multiplicity_skipped [OF skipped_multiplicity(3-6)] by blast
  then have "after_keyword MultiReferencesWithMultiplicity (b @ m @ b' @ r @ ts @ rest) = Ok (Some (skip_whitespace (ts @ rest)))"
    using ref_list_skipped [OF skipped_multiplicity(6) nc] by simp
  from keyword_step [where K = K, OF skipped_multiplicity(1,2) this]
  show ?case using skipped_multiplicity by (simp add: entity_loop_whitespace del: entity_loop.simps)
next
  case (skipped_user_keyword r ts x)
  obtain orig sp where x: "x = (orig, sp)" by (cases x)
  obtain ns where "parse_reference_or_chain (r @ ts @ rest) = Ok (ns, ts @ rest)"
    using reference_parsed [OF skipped_user_keyword(1) skipped_not_continued [OF skipped_user_keyword(2,4)]] by blast
  then show ?case using skipped_user_keyword x by (simp add: entity_step_def Let_def)
next
  case (skipped_group g ts)
  then show ?case using group_step by simp
qed simp

lemma starts_not_continued:
  "fst t \<in> {LT, OtherIdentifier, Quoted, Equals, OtherSymbol} \<Longrightarrow> \<not> continues (t # ts)"
  by (cases t) (auto simp: continues_def skip_whitespace_other)

lemma tail_not_continued: "ends_names K tail \<Longrightarrow> \<not> continues tail"
proof (cases tail)
  case (Cons t ts)
  assume "ends_names K tail"
  then show ?thesis using Cons by (cases t) (auto intro!: starts_not_continued)
qed (simp add: continues_def)

lemma continues_head: "\<not> continues ts \<Longrightarrow> ts = [] \<or> fst (hd ts) \<notin> {DoubleColon, Period}"
  by (cases ts; cases "hd ts") (auto simp: continues_def)

text \<open>C14: The names of a declaration, against a grammar of what surrounds them. Before, between and after
  the names there may be white space, comments, keywords together with the multiplicity and the list
  of references that belongs to a keyword of that kind, user-defined keywords and groups in
  parentheses or brackets. The short name between angle brackets and the long name that is no
  keyword are both found, a declaration with only one of them gives that one, one with neither gives
  none, and nothing after an \<open>=\<close> or a keyword that ends the declaration matters. A name
  that directly follows a keyword with references, like the one after \<open>end\<close>, counts as one of
  its references and is not reported.\<close>

theorem parse_entity_declaration:
  assumes "skipped K pre" and "skipped K mid" and "skipped K post" and "ends_names K tail"
    and "name_of short = Ok s" and "name_of (tok, orig, sp) = Ok l" and "K orig = None"
  shows "parse_entity D K (pre @ (LT, x) # short # (GT, y) # mid @ (tok, orig, sp) # post @ tail) = Ok (Some l, Some s)
    \<and> parse_entity D K (pre @ (tok, orig, sp) # post @ tail) = Ok (Some l, None)
    \<and> parse_entity D K (pre @ (LT, x) # short # (GT, y) # post @ tail) = Ok (None, Some s)
    \<and> parse_entity D K (pre @ tail) = Ok (None, None)"
proof -
  have n: "\<not> continues tail" by (rule tail_not_continued [OF assms(4)])
  have c: "post @ tail = [] \<or> fst (hd (post @ tail)) \<notin> {DoubleColon, Period}"
    by (rule continues_head [OF skipped_not_continued [OF assms(3) n]])
  have t: "\<not> continues ((tok, orig, sp) # ts)" for ts
    using name_token [OF assms(6)] by (intro starts_not_continued) auto
  have lt: "\<not> continues ((LT, x) # ts)" for x ts by (rule starts_not_continued) simp
  have tl: "entity_loop D K l s (post @ tail) = Ok (l, s)" for l s
    by (simp add: entity_loop_skipped [OF assms(3) n] entity_loop_end [OF assms(4)] del: entity_loop.simps)
  show ?thesis
    by (simp add: parse_entity_def entity_loop_skipped [OF assms(1)] entity_loop_skipped [OF assms(2)] n t lt tl
        entity_loop_short [OF assms(5)] entity_loop_long [where K = K, OF assms(6,7) c] entity_loop_end [OF assms(4)]
        del: entity_loop.simps)
qed

text \<open>The declaration \<open>part x : T\<close>.\<close>

theorem parse_entity_declaration_witness:
  "parse_entity concat (hash_map_from sysml_keywords)
     ([(OtherIdentifier, ''part'', 0, 4), (Space, '' '', 4, 5)]
      @ (OtherIdentifier, ''x'', 5, 6)
      # [(Space, '' '', 6, 7), (OtherSymbol, '':'', 7, 8), (Space, '' '', 8, 9), (OtherIdentifier, ''T'', 9, 10)] @ [])
   = Ok (Some ''x'', None)"
proof -
  let ?K = "hash_map_from sysml_keywords"
  have k: "?K ''part'' = Some Simple" "?K '':'' = Some MultiReferences" "?K ''x'' = None"
    by code_simp+
  have pre: "skipped ?K [(OtherIdentifier, ''part'', 0, 4), (Space, '' '', 4, 5)]"
    using k(1) by (intro skipped_keyword skipped_blank skipped_Nil) simp_all
  have r: "ref_list [(OtherIdentifier, ''T'', 9, 10)]"
    by (intro ref_list_last reference_name [of _ "''T''"]) (simp add: name_of_def)
  have "skipped ?K ((OtherSymbol, '':'', 7, 8) # [(Space, '' '', 8, 9)] @ [(OtherIdentifier, ''T'', 9, 10)] @ [])"
    using k(2) r by (intro skipped_references skipped_Nil) simp_all
  then have post: "skipped ?K [(Space, '' '', 6, 7), (OtherSymbol, '':'', 7, 8), (Space, '' '', 8, 9), (OtherIdentifier, ''T'', 9, 10)]"
    using skipped_blank [of "(Space, '' '', 6, 7)"] by simp
  from parse_entity_declaration [OF pre skipped_Nil post, of "[]" "(OtherIdentifier, ''S'', 17, 18)" "''S''"
      OtherIdentifier "''x''" "(5, 6)" "''x''"]
  show ?thesis using k(3) by (simp add: name_of_def)
qed

text \<open>The name of \<open>end x\<close> is taken for a reference of the keyword and lost.\<close>

lemma end_name_lost:
  "parse_entity concat (hash_map_from sysml_keywords)
     [(OtherIdentifier, ''end'', 0, 3), (Space, '' '', 3, 4), (OtherIdentifier, ''x'', 4, 5)] = Ok (None, None)"
  by code_simp

text \<open>A closing brace without an opening one makes the nesting negative, and the declaration that
  follows is lost: \<open>} package A {\<close> is accepted and declares nothing.\<close>

lemma unbalanced_braces_accepted:
  "top_level_sysml concat (\<lambda>_. [(Ok BraceClose, 0, 1), (Ok Space, 1, 2), (Ok OtherIdentifier, 2, 9),
     (Ok Space, 9, 10), (Ok OtherIdentifier, 10, 11), (Ok Space, 11, 12), (Ok BraceOpen, 12, 13)])
     ''} package A {'' = Ok []"
  by code_simp

text \<open>A quoted name that ends with an escaped quote loses it, together with the closing quote.\<close>

lemma escaped_quote_trimmed:
  "parse_name [(Quoted, [QUOTE, CHR ''a'', BACKSLASH, QUOTE, QUOTE], 0, 5)] = Ok ([CHR ''a'', BACKSLASH], [])"
  by code_simp

end
