(* ===== verification/ProjectCommands.thy ===== *)
theory ProjectCommands
  imports Project Symbols
begin

text \<open>
  Commands that edit a project: \<^verbatim>\<open>add.rs\<close>, \<^verbatim>\<open>remove.rs\<close>, \<^verbatim>\<open>include.rs\<close>,
  \<^verbatim>\<open>exclude.rs\<close> and \<^verbatim>\<open>init.rs\<close> of \<^verbatim>\<open>core/src/commands\<close>. Each takes the traits of the
  project storage, as records of functions, and returns its result with the new state of the
  storage. What a command does is proved once for every storage that obeys the laws
  \<open>project_store\<close> and stated for projects in memory. The current time, the lexer, and the
  SPDX parser are arguments. Progress messages are left out.
\<close>

section \<open>Adding a usage\<close>

datatype 'e AddError =
    AddProject 'e
  | AddValidation InterchangeProjectValidationError
  | AddMissingInfo string
  | AddPanic

text \<open>\<open>None\<close> is the panic of \<^verbatim>\<open>unreachable!()\<close>.\<close>

definition expand_sysand_purl_shorthand :: "string \<Rightarrow> (string option, SysandPurlError) result option" where
  "expand_sysand_purl_shorthand res =
    (let parts = split_on CHR ''/'' res;
         has_exactly_two_segments = (length parts = 2) in
     if CHR '':'' \<notin> set res \<and> has_exactly_two_segments then
       (let purl = PKG_SYSAND_PREFIX @ res in
        case parse_sysand_purl purl of
          Ok (Some _) \<Rightarrow> Some (Ok (Some purl))
        | Err (WrongShape _ _) \<Rightarrow> None
        | Ok None \<Rightarrow> None
        | Err source \<Rightarrow> Some (Err source))
     else Some (Ok None))"

datatype usage_merge = Ignored | Merged "InterchangeProjectUsageRaw list" | Absent

text \<open>The loop over the usages of the project, up to the first one for the same resource.\<close>

fun merge_usage :: "string \<Rightarrow> string option \<Rightarrow> InterchangeProjectUsageRaw list \<Rightarrow> usage_merge" where
  "merge_usage new_resource new_vc [] = Absent"
| "merge_usage new_resource new_vc (Resource res vc # us) =
    (if res = new_resource then
       (case (new_vc, vc) of
          (None, None) \<Rightarrow> Ignored
        | (None, Some _) \<Rightarrow> Ignored
        | (Some v, None) \<Rightarrow> Merged (Resource res (Some v) # us)
        | (Some vc_new, Some vc_current) \<Rightarrow>
            if vc_new = vc_current then Ignored
            else Merged (Resource res (Some (vc_current @ '', '' @ vc_new)) # us))
     else (case merge_usage new_resource new_vc us of
        Merged us' \<Rightarrow> Merged (Resource res vc # us')
      | m \<Rightarrow> m))"

definition do_add ::
  "('iri, 'ver, 'req, 'time) externs \<Rightarrow> ('q, 'e) ProjectRead \<Rightarrow> ('q, 'e) ProjectMut \<Rightarrow>
   InterchangeProjectUsageRaw \<Rightarrow> 'q \<Rightarrow> (bool \<times> 'q, 'e AddError) result" where
  "do_add E R W usage_raw project =
    and_then (map_err AddValidation (validate_usage E usage_raw)) (\<lambda>validated.
    let usage = usage_into_raw E validated in
    and_then (map_err AddProject (get_info R project)) (\<lambda>info_opt.
    case info_opt of
      None \<Rightarrow> Err (AddMissingInfo ''project is missing the interchange project information'')
    | Some info \<Rightarrow>
        let put = (\<lambda>us. map_ok (Pair True) (map_err AddProject (put_info W (info\<lparr>i_usage := us\<rparr>) True project)))
        in (case merge_usage (resource usage) (version_constraint usage) (i_usage info) of
              Ignored \<Rightarrow> Ok (False, project)
            | Merged us \<Rightarrow> put us
            | Absent \<Rightarrow> put (i_usage info @ [usage]))))"

definition do_add_guess ::
  "('iri, 'ver, 'req, 'time) externs \<Rightarrow> ('q, 'e) ProjectRead \<Rightarrow> ('q, 'e) ProjectMut \<Rightarrow>
   string \<Rightarrow> string option \<Rightarrow> 'q \<Rightarrow> (bool \<times> 'q, 'e AddError) result" where
  "do_add_guess E R W res vc project =
    (case expand_sysand_purl_shorthand res of
       None \<Rightarrow> Err AddPanic
     | Some (Ok (Some purl)) \<Rightarrow> do_add E R W (Resource purl vc) project
     | Some (Ok None) \<Rightarrow> do_add E R W (Resource res vc) project
     | Some (Err source) \<Rightarrow> Err (AddValidation (MalformedUsageSysandPurl res source)))"

section \<open>Removing a usage\<close>

datatype 'e RemoveError =
    RemoveProject 'e
  | RemoveValidation InterchangeProjectValidationError
  | UsageNotFound string
  | RemoveMissingInfo string
  | RemovePanic

definition do_remove ::
  "('q, 'e) ProjectRead \<Rightarrow> ('q, 'e) ProjectMut \<Rightarrow> string \<Rightarrow> 'q \<Rightarrow>
   (InterchangeProjectUsageRaw list \<times> 'q, 'e RemoveError) result" where
  "do_remove R W iri project =
    and_then (map_err RemoveProject (get_info R project)) (\<lambda>info_opt.
    case info_opt of
      Some info \<Rightarrow>
        (let (popped, info') = pop_usage iri info in
         if popped = [] then Err (UsageNotFound iri)
         else map_ok (Pair popped) (map_err RemoveProject (put_info W info' True project)))
    | None \<Rightarrow> Err (RemoveMissingInfo iri))"

definition do_remove_guess ::
  "('q, 'e) ProjectRead \<Rightarrow> ('q, 'e) ProjectMut \<Rightarrow> string \<Rightarrow> 'q \<Rightarrow>
   (InterchangeProjectUsageRaw list \<times> 'q, 'e RemoveError) result" where
  "do_remove_guess R W res project =
    (case expand_sysand_purl_shorthand res of
       None \<Rightarrow> Err RemovePanic
     | Some (Ok (Some purl)) \<Rightarrow> do_remove R W purl project
     | Some (Ok None) \<Rightarrow> do_remove R W res project
     | Some (Err source) \<Rightarrow> Err (RemoveValidation (MalformedUsageSysandPurl res source)))"

section \<open>Including and excluding source files\<close>

datatype 'e IncludeError =
    IncludeProject 'e
  | IncludeReadFile string string
  | Extract string ExtractError
  | UnknownFormat string

record include_externs =
  x_lexer :: "string \<Rightarrow> lexeme list"
  x_debug_names :: "string list \<Rightarrow> string"
  x_extension :: "string \<Rightarrow> string option"
  x_sha256 :: "string \<Rightarrow> string"
  x_now :: string

definition meta_default :: "string \<Rightarrow> InterchangeProjectMetadataRaw" where
  "meta_default now = \<lparr>m_index = [], m_created = now, m_metamodel = None, m_includes_derived = None,
     m_includes_implied = None, m_checksum = None\<rparr>"

definition extract_symbols ::
  "include_externs \<Rightarrow> string \<Rightarrow> string \<Rightarrow> Language option \<Rightarrow> (string list, 'e IncludeError) result" where
  "extract_symbols X path source force_format =
    (case (case force_format of Some l \<Rightarrow> Some l | None \<Rightarrow> guess_from_path (x_extension X) path) of
       Some SysML \<Rightarrow> map_err (Extract path) (top_level_sysml (x_debug_names X) (x_lexer X) source)
     | Some KerML \<Rightarrow> map_err (Extract path) (top_level_kerml (x_debug_names X) (x_lexer X) source)
     | None \<Rightarrow> Err (UnknownFormat path))"

definition read_project_file_to_string ::
  "('q, 'e) ProjectRead \<Rightarrow> 'q \<Rightarrow> string \<Rightarrow> (string, 'e IncludeError) result" where
  "read_project_file_to_string R project path =
    and_then (map_err IncludeProject (read_source R project path)) (\<lambda>file.
    map_err (IncludeReadFile path) (read_to_string file))"

definition index_file :: "string \<Rightarrow> string list \<Rightarrow> InterchangeProjectMetadataRaw \<Rightarrow> InterchangeProjectMetadataRaw" where
  "index_file path symbols meta =
    meta\<lparr>m_index := fold (\<lambda>s index. AList.update s path index) symbols (filter (\<lambda>(s, v). v \<noteq> path) (m_index meta))\<rparr>"

text \<open>The body of the loop over the paths.\<close>

definition include_file ::
  "include_externs \<Rightarrow> ('q, 'e) ProjectRead \<Rightarrow> 'q \<Rightarrow> bool \<Rightarrow> bool \<Rightarrow> Language option \<Rightarrow>
   InterchangeProjectMetadataRaw \<Rightarrow> string \<Rightarrow> (InterchangeProjectMetadataRaw, 'e IncludeError) result" where
  "include_file X R project compute_checksum index_symbols force_format meta path =
    and_then (read_project_file_to_string R project path) (\<lambda>source.
    let meta' = snd (if compute_checksum then add_checksum path Sha256 (x_sha256 X source) True meta
                     else add_checksum path NoneAlg [] True meta)
    in if index_symbols then map_ok (\<lambda>symbols. index_file path symbols meta') (extract_symbols X path source force_format)
       else Ok meta')"

definition do_include ::
  "include_externs \<Rightarrow> ('q, 'e) ProjectRead \<Rightarrow> ('q, 'e) ProjectMut \<Rightarrow> string list \<Rightarrow> bool \<Rightarrow> bool \<Rightarrow>
   Language option \<Rightarrow> 'q \<Rightarrow> ('q, 'e IncludeError) result" where
  "do_include X R W paths compute_checksum index_symbols force_format project =
    and_then (map_err IncludeProject (get_meta R project)) (\<lambda>m.
    and_then (fold_res (include_file X R project compute_checksum index_symbols force_format)
        (case m of Some meta \<Rightarrow> meta | None \<Rightarrow> meta_default (x_now X)) paths) (\<lambda>meta.
    map_err IncludeProject (put_meta W meta True project)))"

datatype 'e ExcludeError =
    ExcludeProject 'e
  | SourceNotFound string
  | ExcludeMissingMeta

record SourceExclusionOutcome =
  removed_checksum :: "InterchangeProjectChecksumRaw option"
  removed_symbols :: "string list"

definition exclude_file ::
  "SourceExclusionOutcome list \<times> InterchangeProjectMetadataRaw \<Rightarrow> string \<Rightarrow>
   (SourceExclusionOutcome list \<times> InterchangeProjectMetadataRaw, 'e ExcludeError) result" where
  "exclude_file = (\<lambda>(outcomes, meta) path.
    let (cs, meta1) = remove_checksum path meta;
        (syms, meta2) = remove_index path meta1
    in if cs = None \<and> syms = [] then Err (SourceNotFound path)
       else Ok (outcomes @ [\<lparr>removed_checksum = cs, removed_symbols = syms\<rparr>], meta2))"

definition do_exclude ::
  "('q, 'e) ProjectRead \<Rightarrow> ('q, 'e) ProjectMut \<Rightarrow> string list \<Rightarrow> 'q \<Rightarrow>
   (SourceExclusionOutcome list \<times> 'q, 'e ExcludeError) result" where
  "do_exclude R W paths project =
    and_then (map_err ExcludeProject (get_meta R project)) (\<lambda>m.
    case m of
      None \<Rightarrow> Err ExcludeMissingMeta
    | Some meta \<Rightarrow>
        and_then (fold_res exclude_file ([], meta) paths) (\<lambda>(outcomes, meta').
        map_ok (Pair outcomes) (map_err ExcludeProject (put_meta W meta' True project))))"

section \<open>New projects\<close>

datatype 'e InitError = SemVerParse string string | InitProject 'e | SPDXLicenseParse string string

definition DEFAULT_PUBLISHER :: string where
  "DEFAULT_PUBLISHER = ''untitled''"

definition do_init_ext ::
  "('iri, 'ver, 'req, 'time) externs \<Rightarrow> (string \<Rightarrow> (unit, string) result) \<Rightarrow> 'time \<Rightarrow> ('q, 'e) ProjectMut \<Rightarrow>
   string \<Rightarrow> string option \<Rightarrow> string \<Rightarrow> bool \<Rightarrow> string option \<Rightarrow> bool \<Rightarrow> 'q \<Rightarrow> ('q, 'e InitError) result" where
  "do_init_ext E spdx_parse now W name publisher version no_semver license no_spdx storage =
    and_then (if \<not> no_semver then map_ok (\<lambda>_. ()) (map_err (SemVerParse version) (ver_parse E version)) else Ok ()) (\<lambda>_.
    and_then (case license of
        Some l \<Rightarrow> if \<not> no_spdx then map_ok (\<lambda>_. Some l) (map_err (SPDXLicenseParse l) (spdx_parse l)) else Ok (Some l)
      | None \<Rightarrow> Ok None) (\<lambda>license'.
    map_err InitProject (put_project W
      \<lparr>i_name = name, i_publisher = Some (case publisher of Some p \<Rightarrow> p | None \<Rightarrow> DEFAULT_PUBLISHER),
       i_description = None, i_version = version, i_license = license', i_maintainer = [], i_website = None,
       i_topic = [], i_usage = []\<rparr>
      (meta_into_raw E (meta_minimal now)) False storage)))"

definition do_init ::
  "('iri, 'ver, 'req, 'time) externs \<Rightarrow> (string \<Rightarrow> (unit, string) result) \<Rightarrow> 'time \<Rightarrow> ('q, 'e) ProjectMut \<Rightarrow>
   string \<Rightarrow> string option \<Rightarrow> string \<Rightarrow> string option \<Rightarrow> 'q \<Rightarrow> ('q, 'e InitError) result" where
  "do_init E spdx_parse now W name publisher version license storage =
    do_init_ext E spdx_parse now W name publisher version False license False storage"

definition do_init_memory ::
  "('iri, 'ver, 'req, 'time) externs \<Rightarrow> (string \<Rightarrow> (unit, string) result) \<Rightarrow> 'time \<Rightarrow>
   string \<Rightarrow> string option \<Rightarrow> string \<Rightarrow> string option \<Rightarrow> (InMemoryProject, InMemoryError InitError) result" where
  "do_init_memory E spdx_parse now name publisher version license =
    do_init E spdx_parse now mem_mut name publisher version license mem_new"

section \<open>Usages as a map\<close>

text \<open>The constraint recorded for a resource, and the constraint after another one is added.\<close>

definition usage_of :: "InterchangeProjectUsageRaw list \<Rightarrow> string \<Rightarrow> string option option" where
  "usage_of us res = map_option version_constraint (find (\<lambda>u. resource u = res) us)"

fun combine :: "string option option \<Rightarrow> string option \<Rightarrow> string option" where
  "combine None vc = vc"
| "combine (Some None) vc = vc"
| "combine (Some (Some c)) None = Some c"
| "combine (Some (Some c)) (Some v) = (if v = c then Some c else Some (c @ '', '' @ v))"

lemma usage_of_simps [simp]:
  "usage_of [] res = None"
  "usage_of (Resource r vc # us) res = (if r = res then Some vc else usage_of us res)"
  by (auto simp: usage_of_def)

lemma usage_of_append: "usage_of (us @ [Resource r vc]) res =
    (case usage_of us res of Some c \<Rightarrow> Some c | None \<Rightarrow> if r = res then Some vc else None)"
proof (induction us)
  case (Cons u us)
  then show ?case by (cases u) simp
qed simp

lemma usage_of_None: "usage_of us res = None \<longleftrightarrow> filter (\<lambda>u. resource u = res) us = []"
  by (auto simp: usage_of_def find_None_iff filter_empty_conv)

text \<open>Usages of other resources are not touched.\<close>

abbreviation others :: "string \<Rightarrow> InterchangeProjectUsageRaw list \<Rightarrow> InterchangeProjectUsageRaw list" where
  "others res us \<equiv> filter (\<lambda>u. resource u \<noteq> res) us"

lemma merge_usage_Absent: "merge_usage res vc us = Absent \<longleftrightarrow> usage_of us res = None"
  by (induction res vc us rule: merge_usage.induct)
    (auto split: option.splits if_splits usage_merge.splits)

lemma merge_usage_Ignored:
  "merge_usage res vc us = Ignored \<Longrightarrow> \<exists>c. usage_of us res = Some c \<and> combine (Some c) vc = c"
  by (induction res vc us rule: merge_usage.induct)
    (auto split: option.splits if_splits usage_merge.splits)

lemma merge_usage_Merged:
  "merge_usage res vc us = Merged us' \<Longrightarrow>
   usage_of us' res = Some (combine (usage_of us res) vc) \<and> usage_of us' res \<noteq> usage_of us res
   \<and> others res us' = others res us"
  by (induction res vc us arbitrary: us' rule: merge_usage.induct)
    (auto split: option.splits if_splits usage_merge.splits)

context project_store
begin

lemma do_add_law:
  assumes "do_add E R W u q = Ok (added, q')"
  shows "\<exists>v info m us. validate_usage E u = Ok v \<and> get_project R q = Ok (Some info, m)
    \<and> get_project R q' = Ok (Some (info\<lparr>i_usage := us\<rparr>), m)
    \<and> (\<forall>p. read_source R q' p = read_source R q p)
    \<and> usage_of us (resource (usage_into_raw E v)) =
        Some (combine (usage_of (i_usage info) (resource (usage_into_raw E v))) (version_constraint (usage_into_raw E v)))
    \<and> others (resource (usage_into_raw E v)) us = others (resource (usage_into_raw E v)) (i_usage info)
    \<and> (added \<longleftrightarrow> usage_of us (resource (usage_into_raw E v)) \<noteq> usage_of (i_usage info) (resource (usage_into_raw E v)))
    \<and> (\<not> added \<longrightarrow> q' = q)"
proof -
  obtain v where v: "validate_usage E u = Ok v" using assms by (auto simp: do_add_def)
  obtain r vc where u: "usage_into_raw E v = Resource r vc" by (cases "usage_into_raw E v")
  obtain a m where a: "get_project R q = Ok (a, m)" using get_total by blast
  obtain info where info: "a = Some info"
    using assms v a by (cases a) (auto simp: do_add_def get_info_def Let_def)
  note g = a [unfolded info]
  have d: "(case merge_usage r vc (i_usage info) of
      Ignored \<Rightarrow> Ok (False, q)
    | Merged us \<Rightarrow> map_ok (Pair True) (map_err AddProject (put_info W (info\<lparr>i_usage := us\<rparr>) True q))
    | Absent \<Rightarrow> map_ok (Pair True) (map_err AddProject (put_info W (info\<lparr>i_usage := i_usage info @ [Resource r vc]\<rparr>) True q)))
    = Ok (added, q')"
    using assms by (simp add: do_add_def v u get_info_def g Let_def cong: usage_merge.case_cong)
  have put: ?thesis if p: "put_info W (info\<lparr>i_usage := us\<rparr>) True q = Ok q'" and "added"
    "usage_of us r = Some (combine (usage_of (i_usage info) r) vc)"
    "usage_of us r \<noteq> usage_of (i_usage info) r" "others r us = others r (i_usage info)" for us
    using put_info_law [OF p g] that v u g by (intro exI [of _ v] exI [of _ info] exI [of _ m] exI [of _ us]) simp
  show ?thesis
  proof (cases "merge_usage r vc (i_usage info)")
    case Ignored
    then show ?thesis
      using merge_usage_Ignored [OF Ignored] d v u g
      by (intro exI [of _ v] exI [of _ info] exI [of _ m] exI [of _ "i_usage info"]) auto
  next
    case (Merged us)
    then show ?thesis using d merge_usage_Merged [OF Merged] by (intro put [of us]) auto
  next
    case Absent
    then have n: "usage_of (i_usage info) r = None" by (simp add: merge_usage_Absent)
    show ?thesis
      using d n Absent by (intro put [of "i_usage info @ [Resource r vc]"]) (auto simp: usage_of_append)
  qed
qed

lemma do_add_total:
  assumes "validate_usage E u = Ok v" and "get_project R q = Ok (Some info, m)"
  shows "\<exists>added q'. do_add E R W u q = Ok (added, q')"
proof -
  have "\<exists>q'. put_info W i True q = Ok q'" for i by (rule put_info_total)
  then show ?thesis
    using assms by (auto simp: do_add_def get_info_def Let_def split: usage_merge.split)
qed

lemma do_remove_law:
  assumes "get_project R q = Ok (Some info, m)"
  shows "if filter (\<lambda>u. resource u = iri) (i_usage info) = [] then do_remove R W iri q = Err (UsageNotFound iri)
    else \<exists>q'. do_remove R W iri q = Ok (filter (\<lambda>u. resource u = iri) (i_usage info), q')
      \<and> get_project R q' = Ok (Some (info\<lparr>i_usage := others iri (i_usage info)\<rparr>), m)
      \<and> (\<forall>p. read_source R q' p = read_source R q p)"
proof -
  obtain q' where "put_info W (info\<lparr>i_usage := others iri (i_usage info)\<rparr>) True q = Ok q'"
    using put_info_total by blast
  then show ?thesis
    using put_info_law [OF _ assms] assms by (auto simp: do_remove_def get_info_def pop_usage_def)
qed

end

section \<open>Index and checksums of source files\<close>

lemma has_sysand_prefix_PKG: "has_sysand_prefix (PKG_SYSAND_PREFIX @ res)"
  by (simp add: has_sysand_prefix_def PKG_SYSAND_PREFIX_def eq_ignore_ascii_case_def starts_with_def)

lemma expand_no_panic: "expand_sysand_purl_shorthand res \<noteq> None"
proof (cases "length (split_on CHR ''/'' res) = 2")
  case True
  then obtain p n where s: "split_on CHR ''/'' res = [p, n]"
    by (auto simp: length_Suc_conv numeral_2_eq_2)
  show ?thesis
    using s has_sysand_prefix_PKG [of res]
    by (simp add: expand_sysand_purl_shorthand_def parse_sysand_purl_def Let_def)
qed (simp add: expand_sysand_purl_shorthand_def Let_def)

lemma expand_Some_Ok:
  assumes "expand_sysand_purl_shorthand res = Some (Ok (Some purl))"
  shows "\<exists>p n. res = p @ ''/'' @ n \<and> purl = PKG_SYSAND_PREFIX @ p @ ''/'' @ n
    \<and> is_valid_purl_publisher p \<and> is_valid_purl_name n"
proof -
  have l: "length (split_on CHR ''/'' res) = 2"
    using assms by (auto simp: expand_sysand_purl_shorthand_def Let_def split: if_splits)
  then obtain p n where s: "split_on CHR ''/'' res = [p, n]"
    by (auto simp: length_Suc_conv numeral_2_eq_2)
  then have r: "res = p @ ''/'' @ n" by (simp add: split_on_two)
  show ?thesis
    using assms s r has_sysand_prefix_PKG [of res]
    by (auto simp: expand_sysand_purl_shorthand_def parse_sysand_purl_def Let_def split: if_splits)
qed

lemma map_of_fold_update:
  "map_of (fold (\<lambda>s index. AList.update s v index) ss m) k = (if k \<in> set ss then Some v else map_of m k)"
  by (induction ss arbitrary: m) (auto simp: update_conv')

lemma map_of_filter_value:
  "distinct (keys m) \<Longrightarrow> map_of (filter (\<lambda>(k, v). P v) m) k = (case map_of m k of Some v \<Rightarrow> if P v then Some v else None | None \<Rightarrow> None)"
  by (induction m) (auto simp: map_of_eq_None_iff split: option.split)

lemma distinct_fold_update:
  "distinct (keys m) \<Longrightarrow> distinct (keys (fold (\<lambda>s index. AList.update s v index) ss m))"
  by (induction ss arbitrary: m) (auto simp: distinct_update)

definition index_of :: "InterchangeProjectMetadataRaw \<Rightarrow> string \<Rightarrow> string option" where
  "index_of m s = map_of (m_index m) s"

lemma index_of_add [simp]: "index_of (snd (add_checksum path alg val ow m)) s = index_of m s"
  by (auto simp: index_of_def add_checksum_def Let_def split: option.split)

lemma index_of_index_file:
  assumes "wf_meta m"
  shows "index_of (index_file path symbols m) s =
    (if s \<in> set symbols then Some path
     else case index_of m s of Some v \<Rightarrow> if v \<noteq> path then Some v else None | None \<Rightarrow> None)"
  using assms map_of_filter_value [of "m_index m" "\<lambda>v. v \<noteq> path" s]
  by (simp add: index_of_def index_file_def map_of_fold_update wf_meta_def)

lemma index_file_wf: "wf_meta m \<Longrightarrow> wf_meta (index_file path symbols m)"
  by (auto simp: wf_meta_def index_file_def distinct_map_filter intro!: distinct_fold_update)

lemma checksum_of_index_file [simp]: "checksum_of (index_file path symbols m) p = checksum_of m p"
  by (simp add: checksum_of_def index_file_def)

lemma include_file_Ok:
  fixes R :: "('q, 'e) ProjectRead"
  assumes "include_file X R q cc idx ff m path = Ok m'" and "wf_meta m"
  shows "\<exists>source syms. read_project_file_to_string R q path = Ok source
    \<and> (idx \<longrightarrow> extract_symbols X path source ff = (Ok syms :: (_, 'e IncludeError) result))
    \<and> wf_meta m'
    \<and> (\<forall>p. checksum_of m' p = (if p = path then
          Some (if cc then \<lparr>c_value = x_sha256 X source, c_algorithm = alg_str Sha256\<rparr>
                else \<lparr>c_value = [], c_algorithm = alg_str NoneAlg\<rparr>) else checksum_of m p))
    \<and> (\<forall>s. index_of m' s = (if \<not> idx then index_of m s else if s \<in> set syms then Some path
          else case index_of m s of Some v \<Rightarrow> if v \<noteq> path then Some v else None | None \<Rightarrow> None))"
proof -
  obtain source where s: "read_project_file_to_string R q path = Ok source"
    using assms(1) by (auto simp: include_file_def)
  define m1 where "m1 = snd (if cc then add_checksum path Sha256 (x_sha256 X source) True m
    else add_checksum path NoneAlg [] True m)"
  have w: "wf_meta m1" using assms(2) by (simp add: m1_def add_checksum_wf)
  have c: "checksum_of m1 p = (if p = path then
      Some (if cc then \<lparr>c_value = x_sha256 X source, c_algorithm = alg_str Sha256\<rparr>
            else \<lparr>c_value = [], c_algorithm = alg_str NoneAlg\<rparr>) else checksum_of m p)" for p
    by (simp add: m1_def checksum_of_add)
  have i: "index_of m1 k = index_of m k" for k by (simp add: m1_def)
  show ?thesis
  proof (cases idx)
    case True
    then obtain syms where y: "extract_symbols X path source ff = (Ok syms :: (_, 'e IncludeError) result)" "m' = index_file path syms m1"
      using assms(1) s by (auto simp: include_file_def Let_def m1_def [symmetric])
    then show ?thesis
      using True s w c i by (intro exI [of _ source] exI [of _ syms]) (simp add: index_file_wf index_of_index_file)
  next
    case False
    then have "m' = m1" using assms(1) s by (simp add: include_file_def Let_def m1_def [symmetric])
    then show ?thesis using False s w c i by auto
  qed
qed

text \<open>The content of a source file and the symbols found in it.\<close>

definition content_of :: "('q, 'e) ProjectRead \<Rightarrow> 'q \<Rightarrow> string \<Rightarrow> string" where
  "content_of R q path = (case read_project_file_to_string R q path of Ok s \<Rightarrow> s | Err _ \<Rightarrow> [])"

definition symbols_of ::
  "include_externs \<Rightarrow> ('q, 'e) ProjectRead \<Rightarrow> 'q \<Rightarrow> Language option \<Rightarrow> string \<Rightarrow> string list" where
  "symbols_of X R q ff path =
    (case (extract_symbols X path (content_of R q path) ff :: (_, 'e IncludeError) result) of Ok ss \<Rightarrow> ss | Err _ \<Rightarrow> [])"

definition checksum_entry :: "include_externs \<Rightarrow> bool \<Rightarrow> string \<Rightarrow> InterchangeProjectChecksumRaw" where
  "checksum_entry X cc source =
    (if cc then \<lparr>c_value = x_sha256 X source, c_algorithm = alg_str Sha256\<rparr>
     else \<lparr>c_value = [], c_algorithm = alg_str NoneAlg\<rparr>)"

text \<open>What the index says of a symbol after files were indexed: the last file that declares it, or
  what it said before unless that was one of the files.\<close>

definition reindexed :: "string list \<Rightarrow> (string \<Rightarrow> string list) \<Rightarrow> string \<Rightarrow> string option \<Rightarrow> string option" where
  "reindexed paths syms s old =
    (case find (\<lambda>p. s \<in> set (syms p)) (rev paths) of
       Some p \<Rightarrow> Some p
     | None \<Rightarrow> (case old of Some v \<Rightarrow> if v \<in> set paths then None else Some v | None \<Rightarrow> None))"

lemma find_append: "find P (xs @ ys) = (case find P xs of Some x \<Rightarrow> Some x | None \<Rightarrow> find P ys)"
  by (induction xs) auto

lemma reindexed_Cons:
  "reindexed (path # paths) syms s old = reindexed paths syms s (reindexed [path] syms s old)"
proof (cases "find (\<lambda>p. s \<in> set (syms p)) (rev paths)")
  case None
  then have "path \<in> set paths \<Longrightarrow> s \<notin> set (syms path)" by (auto simp: find_None_iff)
  then show ?thesis using None by (auto simp: reindexed_def find_append split: option.split)
qed (simp add: reindexed_def find_append)

lemma include_file_effect:
  fixes R :: "('q, 'e) ProjectRead"
  assumes "include_file X R q cc True ff m path = Ok m'" and "wf_meta m"
  shows "wf_meta m'"
    and "checksum_of m' p = (if p = path then Some (checksum_entry X cc (content_of R q path)) else checksum_of m p)"
    and "index_of m' s = reindexed [path] (symbols_of X R q ff) s (index_of m s)"
proof -
  obtain source syms where o: "read_project_file_to_string R q path = Ok source"
      "extract_symbols X path source ff = (Ok syms :: (_, 'e IncludeError) result)" "wf_meta m'"
      "\<And>p. checksum_of m' p = (if p = path then Some (checksum_entry X cc source) else checksum_of m p)"
      "\<And>s. index_of m' s = (if s \<in> set syms then Some path
          else case index_of m s of Some v \<Rightarrow> if v \<noteq> path then Some v else None | None \<Rightarrow> None)"
    using include_file_Ok [OF assms] by (auto simp: checksum_entry_def)
  have c: "content_of R q path = source" "symbols_of X R q ff path = syms"
    using o(1,2) by (simp_all add: content_of_def symbols_of_def)
  show "wf_meta m'"
    "checksum_of m' p = (if p = path then Some (checksum_entry X cc (content_of R q path)) else checksum_of m p)"
    using o c by auto
  show "index_of m' s = reindexed [path] (symbols_of X R q ff) s (index_of m s)"
    using o(5) c(2) by (auto simp: reindexed_def split: option.split)
qed

lemma include_files_effect:
  fixes R :: "('q, 'e) ProjectRead"
  assumes "fold_res (include_file X R q cc True ff) m paths = Ok m'" and "wf_meta m"
  shows "wf_meta m'
    \<and> (\<forall>p. checksum_of m' p = (if p \<in> set paths then Some (checksum_entry X cc (content_of R q p)) else checksum_of m p))
    \<and> (\<forall>s. index_of m' s = reindexed paths (symbols_of X R q ff) s (index_of m s))"
  using assms
proof (induction paths arbitrary: m)
  case Nil
  then show ?case by (auto simp: reindexed_def split: option.split)
next
  case (Cons path paths)
  then obtain m1 where m1: "include_file X R q cc True ff m path = Ok m1"
      "fold_res (include_file X R q cc True ff) m1 paths = Ok m'" by auto
  note e = include_file_effect [OF m1(1) Cons.prems(2)]
  note ih = Cons.IH [OF m1(2) e(1)]
  have "index_of m' s = reindexed (path # paths) (symbols_of X R q ff) s (index_of m s)" for s
    using ih e(3) by (simp add: reindexed_Cons [of path paths])
  moreover have "checksum_of m' p = (if p \<in> set (path # paths)
      then Some (checksum_entry X cc (content_of R q p)) else checksum_of m p)" for p
    using ih e(2) by auto
  ultimately show ?case using ih by blast
qed

section \<open>Excluded files\<close>

definition recorded :: "InterchangeProjectMetadataRaw \<Rightarrow> string \<Rightarrow> bool" where
  "recorded m path \<longleftrightarrow> path \<in> source_paths True m"

lemma recorded_iff:
  "recorded m path \<longleftrightarrow> checksum_of m path \<noteq> None \<or> path \<in> snd ` set (m_index m)"
proof (cases "m_checksum m")
  case (Some cs)
  have "path \<in> fst ` set cs \<longleftrightarrow> map_of cs path \<noteq> None" by (simp add: map_of_eq_None_iff)
  then show ?thesis using Some by (simp add: recorded_def source_paths_def checksum_of_def)
qed (simp add: recorded_def source_paths_def checksum_of_def)

definition without :: "string set \<Rightarrow> InterchangeProjectMetadataRaw \<Rightarrow> InterchangeProjectMetadataRaw" where
  "without P m = m\<lparr>m_index := filter (\<lambda>e. snd e \<notin> P) (m_index m),
     m_checksum := map_option (filter (\<lambda>e. fst e \<notin> P)) (m_checksum m)\<rparr>"

lemma without_empty: "without {} m = m"
  by (cases m; cases "m_checksum m") (auto simp: without_def)

lemma without_without: "without Q (without P m) = without (P \<union> Q) m"
  by (auto simp: without_def case_prod_beta option.map_comp comp_def conj_commute)

lemma recorded_without: "recorded (without P m) path \<longleftrightarrow> path \<notin> P \<and> recorded m path"
  by (auto simp: recorded_def source_paths_def without_def split: option.splits)

lemma remove_both:
  "snd (remove_index path (snd (remove_checksum path m))) = without {path} m"
  by (cases m) (auto simp: remove_index_def remove_checksum_def without_def AList.delete_eq case_prod_beta
      intro!: filter_cong split: option.split)

definition exclusion :: "InterchangeProjectMetadataRaw \<Rightarrow> string \<Rightarrow> SourceExclusionOutcome" where
  "exclusion m path = \<lparr>removed_checksum = checksum_of m path,
     removed_symbols = map fst (filter (\<lambda>(k, v). v = path) (m_index m))\<rparr>"

lemma exclude_file_cases:
  "exclude_file (outs, m) path =
    (if recorded m path then Ok (outs @ [exclusion m path], without {path} m) else Err (SourceNotFound path))"
proof -
  have "fst (remove_checksum path m) = checksum_of m path"
    by (auto simp: remove_checksum_def checksum_of_def split: option.split)
  moreover have "m_index (snd (remove_checksum path m)) = m_index m"
    by (auto simp: remove_checksum_def split: option.split)
  moreover have "recorded m path \<longleftrightarrow> checksum_of m path \<noteq> None \<or> filter (\<lambda>(k, v). v = path) (m_index m) \<noteq> []"
    by (force simp: recorded_iff filter_empty_conv)
  ultimately show ?thesis
    using remove_both [of path m]
    by (auto simp: exclude_file_def exclusion_def remove_index_def case_prod_beta Let_def)
qed

lemma map_of_filter_keys: "k \<notin> P \<Longrightarrow> map_of (filter (\<lambda>e. fst e \<notin> P) xs) k = map_of xs k"
  by (induction xs) auto

lemma exclusion_without: "path \<notin> P \<Longrightarrow> exclusion (without P m) path = exclusion m path"
  by (auto simp: exclusion_def without_def checksum_of_def case_prod_beta map_of_filter_keys
      intro!: arg_cong [where f = "map fst"] filter_cong split: option.split)

lemma exclude_files:
  "fold_res exclude_file (outs, m) paths = (Ok (outs', m') :: (_, 'e ExcludeError) result) \<longleftrightarrow>
   distinct paths \<and> list_all (recorded m) paths \<and> outs' = outs @ map (exclusion m) paths \<and> m' = without (set paths) m"
proof (induction paths arbitrary: outs m)
  case Nil
  show ?case by (auto simp: without_empty)
next
  case (Cons path paths)
  have e: "map (exclusion (without {path} m)) paths = map (exclusion m) paths" if p: "path \<notin> set paths"
  proof (rule map_cong [OF refl])
    fix x assume "x \<in> set paths"
    then have "x \<notin> {path}" using p by blast
    then show "exclusion (without {path} m) x = exclusion m x" by (rule exclusion_without)
  qed
  have r: "list_all (recorded (without {path} m)) paths \<longleftrightarrow> path \<notin> set paths \<and> list_all (recorded m) paths"
    by (auto simp: list_all_iff recorded_without)
  show ?case
  proof (cases "recorded m path")
    case True
    then have "fold_res exclude_file (outs, m) (path # paths) = (Ok (outs', m') :: (_, 'e ExcludeError) result) \<longleftrightarrow>
        distinct paths \<and> path \<notin> set paths \<and> list_all (recorded m) paths
        \<and> outs' = (outs @ [exclusion m path]) @ map (exclusion (without {path} m)) paths
        \<and> m' = without ({path} \<union> set paths) m"
      by (simp add: exclude_file_cases Cons.IH r without_without)
    then show ?thesis using True e by (cases "path \<in> set paths") simp_all
  qed (simp add: exclude_file_cases)
qed

section \<open>The commands on any storage\<close>

context project_store
begin

lemma do_include_law:
  assumes "do_include X R W paths cc True ff q = Ok q'" and "get_project R q = Ok (a, b)"
    and "m = (case b of Some m0 \<Rightarrow> m0 | None \<Rightarrow> meta_default (x_now X))" and "wf_meta m"
  shows "\<exists>m'. get_project R q' = Ok (a, Some m') \<and> (\<forall>p. read_source R q' p = read_source R q p) \<and> wf_meta m'
    \<and> (\<forall>p. checksum_of m' p = (if p \<in> set paths then Some (checksum_entry X cc (content_of R q p)) else checksum_of m p))
    \<and> (\<forall>s. index_of m' s = reindexed paths (symbols_of X R q ff) s (index_of m s))"
proof -
  have "and_then (fold_res (include_file X R q cc True ff) m paths)
      (\<lambda>m'. map_err IncludeProject (put_meta W m' True q)) = Ok q'"
    using assms(1) unfolding do_include_def get_meta_def assms(2) map_ok.simps map_err.simps and_then.simps snd_conv
      assms(3) [symmetric] .
  then obtain m' where m': "fold_res (include_file X R q cc True ff) m paths = Ok m'" "put_meta W m' True q = Ok q'"
    by (cases "fold_res (include_file X R q cc True ff) m paths") simp_all
  show ?thesis
    using include_files_effect [OF m'(1) assms(4)] put_meta_law [OF m'(2) assms(2)]
    by (intro exI [of _ m']) simp
qed

lemma do_exclude_law:
  assumes "get_project R q = Ok (a, Some m)"
  shows "if distinct paths \<and> list_all (recorded m) paths
    then \<exists>q'. do_exclude R W paths q = Ok (map (exclusion m) paths, q')
      \<and> get_project R q' = Ok (a, Some (without (set paths) m)) \<and> (\<forall>p. read_source R q' p = read_source R q p)
    else \<not> is_ok (do_exclude R W paths q)"
proof (cases "distinct paths \<and> list_all (recorded m) paths")
  case True
  then have f: "fold_res exclude_file ([], m) paths =
      (Ok (map (exclusion m) paths, without (set paths) m) :: (_, 'e ExcludeError) result)"
    by (simp add: exclude_files)
  obtain q' where q': "put_meta W (without (set paths) m) True q = Ok q'" using put_meta_total by blast
  have "do_exclude R W paths q = Ok (map (exclusion m) paths, q')"
    unfolding do_exclude_def get_meta_def assms by (simp add: f q')
  then show ?thesis using True put_meta_law [OF q' assms] by simp
next
  case False
  have n: "fold_res exclude_file ([], m) paths \<noteq> (Ok y :: (_, 'e ExcludeError) result)" for y
    using False by (cases y) (auto simp: exclude_files)
  obtain e where "fold_res exclude_file ([], m) paths = (Err e :: (_, 'e ExcludeError) result)"
    using n by (cases "fold_res exclude_file ([], m) paths :: (_, 'e ExcludeError) result") auto
  then have "\<not> is_ok (do_exclude R W paths q)"
    unfolding do_exclude_def get_meta_def assms by simp
  then show ?thesis using False by auto
qed

end

section \<open>Properties\<close>

lemmas mem_traits = mem_read_def mem_mut_def mem_get_project_def mem_read_source_def mem_put_info_def mem_put_meta_def

lemma mem_get [simp]: "get_project mem_read p = Ok (im_info p, im_meta p)"
  by (simp add: mem_traits)

text \<open>Expanding the shorthand \<open>publisher/name\<close> never reaches the branches marked unreachable, and
  the package URL it yields is accepted by the package URL parser.\<close>

theorem expand_shorthand_sound:
  "expand_sysand_purl_shorthand res \<noteq> None
   \<and> (expand_sysand_purl_shorthand res = Some (Ok (Some purl)) \<longrightarrow>
       (\<exists>p n. res = p @ ''/'' @ n \<and> parse_sysand_purl purl = Ok (Some (p, n))))"
proof (intro conjI impI)
  show "expand_sysand_purl_shorthand res \<noteq> None" by (rule expand_no_panic)
next
  assume "expand_sysand_purl_shorthand res = Some (Ok (Some purl))"
  then obtain p n where e: "res = p @ ''/'' @ n" "purl = PKG_SYSAND_PREFIX @ p @ ''/'' @ n"
      "is_valid_purl_publisher p" "is_valid_purl_name n" using expand_Some_Ok by blast
  have "parse_sysand_purl (''pkg:sysand/'' @ p @ ''/'' @ n) = Ok (Some (p, n))"
    using parse_sysand_purl_rest [of "''pkg''" p n] e(3,4) by (simp add: eq_ignore_ascii_case_def)
  then show "\<exists>p n. res = p @ ''/'' @ n \<and> parse_sysand_purl purl = Ok (Some (p, n))"
    using e(1,2) by (auto simp: PKG_SYSAND_PREFIX_def)
qed

theorem expand_shorthand_sound_witness:
  "expand_sysand_purl_shorthand ''acme/rocket'' = Some (Ok (Some ''pkg:sysand/acme/rocket''))
   \<and> (\<exists>p n. ''acme/rocket'' = p @ ''/'' @ n \<and> parse_sysand_purl ''pkg:sysand/acme/rocket'' = Ok (Some (p, n)))"
proof -
  have "expand_sysand_purl_shorthand ''acme/rocket'' = Some (Ok (Some ''pkg:sysand/acme/rocket''))"
    by code_simp
  then show ?thesis using expand_shorthand_sound [of "''acme/rocket''" "''pkg:sysand/acme/rocket''"] by simp
qed

text \<open>C17: Adding a usage to a project: it succeeds exactly for a valid usage and a project with
  information; then the usages, seen as a map from resources to constraints, have the new constraint joined to
  that of the resource, those of other resources are as before, nothing else of the project changes, and the
  flag returned says whether the map changed.\<close>

theorem do_add_effect:
  "(is_ok (do_add E mem_read mem_mut u p) \<longleftrightarrow> is_ok (validate_usage E u) \<and> im_info p \<noteq> None)
   \<and> (do_add E mem_read mem_mut u p = Ok (added, p') \<longrightarrow>
       (\<exists>v info us. validate_usage E u = Ok v \<and> im_info p = Some info
         \<and> im_info p' = Some (info\<lparr>i_usage := us\<rparr>) \<and> im_meta p' = im_meta p
         \<and> (\<forall>path. mem_read_source p' path = mem_read_source p path)
         \<and> (let r = resource (usage_into_raw E v) in
              usage_of us r = Some (combine (usage_of (i_usage info) r) (version_constraint (usage_into_raw E v)))
              \<and> others r us = others r (i_usage info)
              \<and> (added \<longleftrightarrow> usage_of us r \<noteq> usage_of (i_usage info) r))
         \<and> (\<not> added \<longrightarrow> p' = p)))"
proof (intro conjI impI)
  show "is_ok (do_add E mem_read mem_mut u p) \<longleftrightarrow> is_ok (validate_usage E u) \<and> im_info p \<noteq> None"
  proof
    assume "is_ok (do_add E mem_read mem_mut u p)"
    then obtain b q where "do_add E mem_read mem_mut u p = Ok (b, q)" by (auto simp: is_ok_iff)
    from mem.do_add_law [OF this] show "is_ok (validate_usage E u) \<and> im_info p \<noteq> None" by auto
  next
    assume "is_ok (validate_usage E u) \<and> im_info p \<noteq> None"
    then obtain v info where "validate_usage E u = Ok v" "get_project mem_read p = Ok (Some info, im_meta p)"
      by (auto simp: is_ok_iff)
    from mem.do_add_total [OF this] show "is_ok (do_add E mem_read mem_mut u p)" by (auto simp: is_ok_iff)
  qed
next
  assume "do_add E mem_read mem_mut u p = Ok (added, p')"
  from mem.do_add_law [OF this] show "\<exists>v info us. validate_usage E u = Ok v \<and> im_info p = Some info
         \<and> im_info p' = Some (info\<lparr>i_usage := us\<rparr>) \<and> im_meta p' = im_meta p
         \<and> (\<forall>path. mem_read_source p' path = mem_read_source p path)
         \<and> (let r = resource (usage_into_raw E v) in
              usage_of us r = Some (combine (usage_of (i_usage info) r) (version_constraint (usage_into_raw E v)))
              \<and> others r us = others r (i_usage info)
              \<and> (added \<longleftrightarrow> usage_of us r \<noteq> usage_of (i_usage info) r))
         \<and> (\<not> added \<longrightarrow> p' = p)"
    unfolding Let_def mem_get by (simp add: mem_read_def)
qed

definition sample_info :: InterchangeProjectInfoRaw where
  "sample_info = (info_minimal ''demo'' ''1.0.0'')\<lparr>i_usage := [Resource ''urn:a'' (Some ''^1'')]\<rparr>"

definition sample_editable :: InMemoryProject where
  "sample_editable = \<lparr>im_info = Some sample_info, im_meta = Some (meta_minimal ''now''),
     im_files = [(''a.kerml'', ''package A { x; }'')], im_nominal_sources = []\<rparr>"

lemma mem_add_merged:
  assumes "validate_usage E u = Ok v" and "usage_into_raw E v = Resource r vc" and "im_info p = Some info"
    and "merge_usage r vc (i_usage info) = Merged us"
  shows "do_add E mem_read mem_mut u p = Ok (True, p\<lparr>im_info := Some (info\<lparr>i_usage := us\<rparr>)\<rparr>)"
  using assms by (simp add: do_add_def Let_def get_info_def mem_mut_def mem_put_info_def)

lemma sample_usage:
  "validate_usage sample_externs (Resource ''urn:a'' (Some ''^2'')) = Ok (Resource ''urn:a'' (Some ''^2''))"
  "usage_into_raw sample_externs (Resource ''urn:a'' (Some ''^2'')) = Resource ''urn:a'' (Some ''^2'')"
  by code_simp+

abbreviation sample_using :: "string \<Rightarrow> InMemoryProject" where
  "sample_using c \<equiv> sample_editable\<lparr>im_info := Some (sample_info\<lparr>i_usage := [Resource ''urn:a'' (Some c)]\<rparr>)\<rparr>"

theorem do_add_effect_witness:
  "is_ok (do_add sample_externs mem_read mem_mut (Resource ''urn:a'' (Some ''^2'')) (sample_using ''^1''))
   \<and> do_add sample_externs mem_read mem_mut (Resource ''urn:a'' (Some ''^2'')) (sample_using ''^1'')
     = Ok (True, sample_using ''^1, ^2'')"
proof -
  have "do_add sample_externs mem_read mem_mut (Resource ''urn:a'' (Some ''^2'')) (sample_using ''^1'')
     = Ok (True, sample_using ''^1, ^2'')"
    using mem_add_merged [OF sample_usage, of "sample_using ''^1''"] by simp
  moreover have "is_ok (do_add sample_externs mem_read mem_mut (Resource ''urn:a'' (Some ''^2'')) (sample_using ''^1''))"
    using do_add_effect [of sample_externs "Resource ''urn:a'' (Some ''^2'')" "sample_using ''^1''"]
    unfolding sample_usage(1) by simp
  ultimately show ?thesis by blast
qed

text \<open>Adding the same constraint again to a usage that already joins it with another one extends it
  again: the usage present is not recognised.\<close>

lemma do_add_not_idempotent:
  "do_add sample_externs mem_read mem_mut (Resource ''urn:a'' (Some ''^2'')) (sample_using ''^1, ^2'')
   = Ok (True, sample_using ''^1, ^2, ^2'')"
  using mem_add_merged [OF sample_usage, of "sample_using ''^1, ^2''"] by simp



lemma mem_rs [simp]: "read_source mem_read p path = mem_read_source p path"
  by (simp add: mem_read_def)

text \<open>C15: Including files in a project: afterwards the metadata has a checksum entry for each of them,
  computed from its content, and each symbol is indexed under the last of the files that declares it; a symbol
  that only stood for one of the files and is not declared any more is gone; entries of other files and
  all else in the project are as before, and the two maps of the metadata stay well-formed.\<close>

theorem do_include_effect:
  assumes "do_include X mem_read mem_mut paths cc True ff p = Ok p'"
    and "m = (case im_meta p of Some m0 \<Rightarrow> m0 | None \<Rightarrow> meta_default (x_now X))" and "wf_meta m"
  shows "\<exists>m'. im_meta p' = Some m' \<and> im_info p' = im_info p \<and> wf_meta m'
    \<and> (\<forall>path. mem_read_source p' path = mem_read_source p path)
    \<and> (\<forall>path. checksum_of m' path =
         (if path \<in> set paths then Some (checksum_entry X cc (content_of mem_read p path)) else checksum_of m path))
    \<and> (\<forall>s. index_of m' s = reindexed paths (symbols_of X mem_read p ff) s (index_of m s))"
proof -
  from mem.do_include_law [OF assms(1) mem_get assms(2,3)] obtain m' where
    "get_project mem_read p' = Ok (im_info p, Some m')" "\<forall>path. read_source mem_read p' path = read_source mem_read p path"
    "wf_meta m'"
    "\<forall>path. checksum_of m' path =
       (if path \<in> set paths then Some (checksum_entry X cc (content_of mem_read p path)) else checksum_of m path)"
    "\<forall>s. index_of m' s = reindexed paths (symbols_of X mem_read p ff) s (index_of m s)"
    by blast
  then show ?thesis by (intro exI [of _ m']) simp
qed

definition sample_include :: include_externs where
  "sample_include = \<lparr>x_lexer = sample_lexer, x_debug_names = concat, x_extension = (\<lambda>_. Some ''kerml''),
     x_sha256 = (\<lambda>s. ''h'' @ s), x_now = ''now''\<rparr>"

definition sample_included :: InMemoryProject where
  "sample_included = sample_editable\<lparr>im_meta := Some ((meta_minimal ''now'')\<lparr>m_index := [(''A'', ''a.kerml'')],
     m_checksum := Some [(''a.kerml'', \<lparr>c_value = ''hpackage A { x; }'', c_algorithm = ''SHA256''\<rparr>)]\<rparr>)\<rparr>"

lemma sample_including:
  "do_include sample_include mem_read mem_mut [''a.kerml''] True True None sample_editable = Ok sample_included"
  by code_simp

theorem do_include_effect_witness:
  "do_include sample_include mem_read mem_mut [''a.kerml''] True True None sample_editable = Ok sample_included
   \<and> (\<exists>m'. im_meta sample_included = Some m' \<and> wf_meta m'
     \<and> index_of m' ''A'' = reindexed [''a.kerml''] (symbols_of sample_include mem_read sample_editable None) ''A'' None)"
proof -
  have "meta_minimal ''now'' = (case im_meta sample_editable of Some m0 \<Rightarrow> m0 | None \<Rightarrow> meta_default (x_now sample_include))"
    by (simp add: sample_editable_def)
  from do_include_effect [OF sample_including this meta_minimal_wf] sample_including show ?thesis
    by (auto simp: index_of_def meta_minimal_def)
qed

text \<open>C16: Excluding files succeeds exactly if no file is named twice and each has a checksum or a symbol in
  the metadata; then exactly their checksums and symbols are taken out and reported, file by file,
  and all else in the project is as before.\<close>

theorem do_exclude_effect:
  assumes "im_meta p = Some m"
  shows "if distinct paths \<and> list_all (recorded m) paths
    then \<exists>p'. do_exclude mem_read mem_mut paths p = Ok (map (exclusion m) paths, p')
      \<and> im_meta p' = Some (without (set paths) m) \<and> im_info p' = im_info p
      \<and> (\<forall>path. mem_read_source p' path = mem_read_source p path)
    else \<not> is_ok (do_exclude mem_read mem_mut paths p)"
proof -
  have "get_project mem_read p = Ok (im_info p, Some m)" using assms by simp
  from mem.do_exclude_law [OF this, of paths] show ?thesis
    by (cases "distinct paths \<and> list_all (recorded m) paths") auto
qed

theorem do_exclude_effect_witness:
  "\<exists>p'. do_exclude mem_read mem_mut [''a.kerml''] sample_included =
      Ok ([\<lparr>removed_checksum = Some \<lparr>c_value = ''hpackage A { x; }'', c_algorithm = ''SHA256''\<rparr>,
           removed_symbols = [''A'']\<rparr>], p')
    \<and> im_info p' = Some sample_info"
proof -
  define m where "m = (meta_minimal ''now'' :: InterchangeProjectMetadataRaw)\<lparr>m_index := [(''A'', ''a.kerml'')],
     m_checksum := Some [(''a.kerml'', \<lparr>c_value = ''hpackage A { x; }'', c_algorithm = ''SHA256''\<rparr>)]\<rparr>"
  have "im_meta sample_included = Some m" "im_info sample_included = Some sample_info"
    by (simp_all add: sample_included_def sample_editable_def m_def)
  with do_exclude_effect [of sample_included m "[''a.kerml'']"] show ?thesis
    by (auto simp: recorded_iff m_def exclusion_def checksum_of_def)
qed

text \<open>A new project in memory has valid information: its version was parsed, its licence too, and
  the metadata is empty.\<close>

lemma do_init_memory_Ok:
  "do_init_memory E spdx_parse now name publisher version license = Ok p \<longleftrightarrow>
   is_ok (ver_parse E version) \<and> (case license of Some l \<Rightarrow> is_ok (spdx_parse l) | None \<Rightarrow> True)
   \<and> p = mem_from_info_meta
      ((info_minimal name version)\<lparr>i_publisher := Some (case publisher of Some p \<Rightarrow> p | None \<Rightarrow> DEFAULT_PUBLISHER),
         i_license := license\<rparr>) (meta_into_raw E (meta_minimal now))"
  by (cases "ver_parse E version"; cases license)
    (auto simp: do_init_memory_def do_init_def do_init_ext_def put_project_def mem_mut_def mem_put_info_def mem_put_meta_def
      mem_new_def mem_from_info_meta_def info_minimal_def and_then_eq_Ok is_ok_iff split: option.splits)

end
