(* ===== verification/Workspace.thy ===== *)
theory Workspace
  imports Model
begin

text \<open>
  Workspaces, \<^verbatim>\<open>core/src/workspace.rs\<close>, and the search for a project or workspace in a
  directory and its ancestors, \<^verbatim>\<open>core/src/discover.rs\<close>.

  Paths of the file system and the calls on them are arguments: the parent of a path, whether a
  path is empty, canonicalization, joining and the test for a file. The search loop is a partial
  function: \<open>None\<close> means that it runs forever. JSON parsing is an argument.
\<close>

section \<open>Workspace information\<close>

record 'iri WorkspaceProjectInfoG =
  wp_path :: string
  wp_iris :: "'iri list"

record 'iri WorkspaceMetaG =
  wm_metamodel :: "'iri option"

record 'iri WorkspaceInfoG =
  wi_projects :: "'iri WorkspaceProjectInfoG list"
  wi_meta :: "'iri WorkspaceMetaG option"

datatype WorkspaceValidationError = InvalidIri string string

definition parse_iri :: "('iri, 'ver, 'req, 'time) externs \<Rightarrow> string \<Rightarrow> ('iri, WorkspaceValidationError) result" where
  "parse_iri E iri = map_err (InvalidIri iri) (iri_parse E iri)"

definition validate_workspace_project ::
  "('iri, 'ver, 'req, 'time) externs \<Rightarrow> string WorkspaceProjectInfoG
   \<Rightarrow> ('iri WorkspaceProjectInfoG, WorkspaceValidationError) result" where
  "validate_workspace_project E project =
    map_ok (\<lambda>iris. \<lparr>wp_path = wp_path project, wp_iris = iris\<rparr>) (collect_res (parse_iri E) (wp_iris project))"

definition transpose_option :: "('a, 'e) result option \<Rightarrow> ('a option, 'e) result" where
  "transpose_option r = (case r of None \<Rightarrow> Ok None | Some x \<Rightarrow> map_ok Some x)"

definition validate_workspace_meta ::
  "('iri, 'ver, 'req, 'time) externs \<Rightarrow> string WorkspaceMetaG
   \<Rightarrow> ('iri WorkspaceMetaG, WorkspaceValidationError) result" where
  "validate_workspace_meta E raw_meta =
    map_ok (\<lambda>metamodel. \<lparr>wm_metamodel = metamodel\<rparr>)
      (transpose_option (map_option (parse_iri E) (wm_metamodel raw_meta)))"

definition workspace_info_try_from ::
  "('iri, 'ver, 'req, 'time) externs \<Rightarrow> string WorkspaceInfoG
   \<Rightarrow> ('iri WorkspaceInfoG, WorkspaceValidationError) result" where
  "workspace_info_try_from E info =
    and_then (collect_res (validate_workspace_project E) (wi_projects info)) (\<lambda>projects.
    and_then (transpose_option (map_option (validate_workspace_meta E) (wi_meta info))) (\<lambda>meta.
    Ok \<lparr>wi_projects = projects, wi_meta = meta\<rparr>))"

section \<open>Paths\<close>

record ('p, 'io) path_ops =
  po_parent :: "'p \<Rightarrow> 'p option"
  po_is_empty :: "'p \<Rightarrow> bool"
  po_canonicalize :: "'p \<Rightarrow> ('p, 'io) result"
  po_join :: "'p \<Rightarrow> string \<Rightarrow> 'p"
  po_is_file :: "'p \<Rightarrow> (bool, 'io) result"

datatype ('p, 'io) WorkspaceReadError =
    WorkspaceIo 'io
  | Deserialize string string
  | WorkspaceValidation 'p WorkspaceValidationError

record ('p, 'iri) Workspace =
  ws_root_dir :: 'p
  ws_info :: "'iri WorkspaceInfoG"

definition workspace_new ::
  "('iri, 'ver, 'req, 'time) externs \<Rightarrow> ('p, 'io) path_ops \<Rightarrow> ('p \<Rightarrow> ((string WorkspaceInfoG, string) result, 'io) result)
   \<Rightarrow> 'p \<Rightarrow> (('p, 'iri) Workspace, ('p, 'io) WorkspaceReadError) result" where
  "workspace_new E F open_and_parse root_dir =
    (let info_path = po_join F root_dir ''.workspace.json'' in
     and_then (map_err WorkspaceIo (open_and_parse info_path)) (\<lambda>parsed.
     and_then (map_err (Deserialize ''failed to deserialize `.workspace.json`'') parsed) (\<lambda>raw_info.
     case workspace_info_try_from E raw_info of
       Ok info \<Rightarrow> Ok \<lparr>ws_root_dir = root_dir, ws_info = info\<rparr>
     | Err e \<Rightarrow> Err (WorkspaceValidation info_path e))))"

definition info_path :: "('p, 'io) path_ops \<Rightarrow> ('p, 'iri) Workspace \<Rightarrow> 'p" where
  "info_path F w = po_join F (ws_root_dir w) ''.workspace.json''"

definition metamodel :: "('p, 'iri) Workspace \<Rightarrow> 'iri option" where
  "metamodel w = Option.bind (wi_meta (ws_info w)) wm_metamodel"

definition absolute_project_paths :: "('p, 'io) path_ops \<Rightarrow> ('p, 'iri) Workspace \<Rightarrow> 'p list" where
  "absolute_project_paths F w = map (\<lambda>p. po_join F (ws_root_dir w) (wp_path p)) (wi_projects (ws_info w))"

section \<open>Discovery\<close>

partial_function (option) discover ::
  "('p, 'io) path_ops \<Rightarrow> ('p \<Rightarrow> (bool, 'io) result) \<Rightarrow> 'p \<Rightarrow> ('p option, 'io) result option" where
  "discover F pred current =
    (case pred current of
       Err e \<Rightarrow> Some (Err e)
     | Ok satisfied \<Rightarrow>
         if satisfied then Some (Ok (Some current))
         else (case po_parent F current of
            None \<Rightarrow> Some (Ok None)
          | Some par \<Rightarrow>
              if po_is_empty F par then
                (case po_canonicalize F current of
                   Ok current_canonical \<Rightarrow>
                     (case po_parent F current_canonical of
                        Some parent_canonical \<Rightarrow> discover F pred parent_canonical
                      | None \<Rightarrow> Some (Ok None))
                 | Err e \<Rightarrow> discover F pred current)
              else discover F pred par))"

definition is_project_file :: "('p, 'io) path_ops \<Rightarrow> 'p \<Rightarrow> (bool, 'io) result" where
  "is_project_file F path =
    and_then (po_is_file F (po_join F path ''.project.json'')) (\<lambda>b.
    if b then Ok True else po_is_file F (po_join F path ''.meta.json''))"

record 'p LocalSrcProject =
  ls_nominal_path :: "string option"
  ls_project_path :: 'p
  ls_expected_checksum :: "string option"

definition discover_project :: "('p, 'io) path_ops \<Rightarrow> 'p \<Rightarrow> ('p LocalSrcProject option, 'io) result option" where
  "discover_project F working_directory =
    map_option (map_ok (map_option (\<lambda>path. \<lparr>ls_nominal_path = Some ''.'', ls_project_path = path,
        ls_expected_checksum = None\<rparr>)))
      (discover F (is_project_file F) working_directory)"

definition discover_workspace ::
  "('iri, 'ver, 'req, 'time) externs \<Rightarrow> ('p, 'io) path_ops \<Rightarrow> ('p \<Rightarrow> ((string WorkspaceInfoG, string) result, 'io) result)
   \<Rightarrow> 'p \<Rightarrow> (('p, 'iri) Workspace option, ('p, 'io) WorkspaceReadError) result option" where
  "discover_workspace E F open_and_parse working_directory =
    map_option (\<lambda>r.
      and_then (map_err WorkspaceIo r) (\<lambda>found.
      case found of
        Some path \<Rightarrow> map_ok Some (workspace_new E F open_and_parse path)
      | None \<Rightarrow> Ok None))
      (discover F (\<lambda>path. po_is_file F (po_join F path ''.workspace.json'')) working_directory)"

section \<open>When the search returns\<close>

text \<open>The directory looked at next, and the directories that are looked at in turn.\<close>

definition next_dir :: "('p, 'io) path_ops \<Rightarrow> 'p \<Rightarrow> 'p option" where
  "next_dir F p =
    (case po_parent F p of
       None \<Rightarrow> None
     | Some par \<Rightarrow> if po_is_empty F par
         then (case po_canonicalize F p of Ok c \<Rightarrow> po_parent F c | Err _ \<Rightarrow> Some p) else Some par)"

inductive visits :: "('p, 'io) path_ops \<Rightarrow> ('p \<Rightarrow> (bool, 'io) result) \<Rightarrow> 'p \<Rightarrow> 'p \<Rightarrow> bool"
  for F pred p where
  start: "visits F pred p p"
| up: "visits F pred p q \<Longrightarrow> pred q = Ok False \<Longrightarrow> next_dir F q = Some r \<Longrightarrow> visits F pred p r"

text \<open>The behaviour of parents and canonicalization on a file system: a parent is a shorter
  path, and canonical paths, like their parents, are absolute and not empty.\<close>

definition path_law :: "('p, 'io) path_ops \<Rightarrow> ('p \<Rightarrow> bool) \<Rightarrow> ('p \<Rightarrow> nat) \<Rightarrow> bool" where
  "path_law F is_absolute len \<longleftrightarrow>
    (\<forall>p q. po_parent F p = Some q \<longrightarrow> len q < len p)
    \<and> (\<forall>p c. po_canonicalize F p = Ok c \<longrightarrow> is_absolute c)
    \<and> (\<forall>p q. is_absolute p \<longrightarrow> po_parent F p = Some q \<longrightarrow> is_absolute q \<and> \<not> po_is_empty F q)"

lemma discover_step:
  "discover F pred p =
    (case pred p of
       Err e \<Rightarrow> Some (Err e)
     | Ok b \<Rightarrow> if b then Some (Ok (Some p))
         else (case next_dir F p of None \<Rightarrow> Some (Ok None) | Some q \<Rightarrow> discover F pred q))"
  by (subst discover.simps) (auto simp: next_dir_def split: result.split bool.split option.split)

text \<open>If the working directory is relative and cannot be canonicalized, the loop does not move on.\<close>

definition stuck :: "('p, 'io) path_ops \<Rightarrow> ('p \<Rightarrow> (bool, 'io) result) \<Rightarrow> 'p \<Rightarrow> bool" where
  "stuck F pred p \<longleftrightarrow> pred p = Ok False \<and> next_dir F p = Some p"

lemma discover_stuck:
  assumes "stuck F pred p" shows "discover F pred p = None"
proof -
  have "discover F pred x = Some y \<Longrightarrow> \<not> stuck F pred x" for x y
  proof (rule discover.raw_induct [where P = "\<lambda>F pred x y. \<not> stuck F pred x"])
    fix f F pred x y
    assume ih: "\<And>F pred x y. f F pred x = Some y \<Longrightarrow> \<not> stuck F pred x"
      and b: "(case pred x of
         Err e \<Rightarrow> Some (Err e)
       | Ok satisfied \<Rightarrow>
           if satisfied then Some (Ok (Some x))
           else (case po_parent F x of
              None \<Rightarrow> Some (Ok None)
            | Some par \<Rightarrow>
                if po_is_empty F par then
                  (case po_canonicalize F x of
                     Ok c \<Rightarrow> (case po_parent F c of Some pc \<Rightarrow> f F pred pc | None \<Rightarrow> Some (Ok None))
                   | Err e \<Rightarrow> f F pred x)
                else f F pred par)) = Some y"
    show "\<not> stuck F pred x"
    proof
      assume s: "stuck F pred x"
      then have "f F pred x = Some y"
        using b by (auto simp: stuck_def next_dir_def split: option.splits if_splits result.splits)
      then show False using ih s by blast
    qed
  qed
  then show ?thesis using assms by (cases "discover F pred p") auto
qed

lemma visits_step:
  "visits F pred p d \<longleftrightarrow> d = p \<or> (pred p = Ok False \<and> (\<exists>q. next_dir F p = Some q \<and> visits F pred q d))"
proof
  show "visits F pred p d \<Longrightarrow> d = p \<or> (pred p = Ok False \<and> (\<exists>q. next_dir F p = Some q \<and> visits F pred q d))"
    by (induction rule: visits.induct) (auto intro: visits.intros)
  have "visits F pred q d \<Longrightarrow> pred p = Ok False \<Longrightarrow> next_dir F p = Some q \<Longrightarrow> visits F pred p d" for q
    by (induction rule: visits.induct) (auto intro: visits.intros)
  then show "d = p \<or> (pred p = Ok False \<and> (\<exists>q. next_dir F p = Some q \<and> visits F pred q d)) \<Longrightarrow> visits F pred p d"
    by (auto intro: visits.intros)
qed

text \<open>What a result of the search means.\<close>

definition found :: "('p, 'io) path_ops \<Rightarrow> ('p \<Rightarrow> (bool, 'io) result) \<Rightarrow> 'p \<Rightarrow> ('p option, 'io) result \<Rightarrow> bool" where
  "found F pred p r \<longleftrightarrow>
    (case r of
       Ok (Some d) \<Rightarrow> visits F pred p d \<and> pred d = Ok True
     | Ok None \<Rightarrow> (\<forall>d. visits F pred p d \<longrightarrow> pred d = Ok False)
     | Err e \<Rightarrow> \<exists>d. visits F pred p d \<and> pred d = Err e)"

lemma found_next:
  "found F pred q r \<Longrightarrow> pred p = Ok False \<Longrightarrow> next_dir F p = Some q \<Longrightarrow> found F pred p r"
  unfolding found_def by (auto simp: visits_step [of F pred p] split: result.splits option.splits)

lemma next_dir_decreases:
  assumes "path_law F is_absolute len" and "is_absolute p \<or> (\<forall>q e. po_canonicalize F q \<noteq> Err e)"
    and "next_dir F p = Some q"
  shows "((if is_absolute q then 0 else 1, len q), (if is_absolute p then 0 else 1, len p)) \<in> less_than <*lex*> less_than"
    and "is_absolute q \<or> (\<forall>q e. po_canonicalize F q \<noteq> Err e)"
proof -
  obtain par where par: "po_parent F p = Some par" using assms(3) by (auto simp: next_dir_def split: option.splits)
  have "((if is_absolute q then 0 else 1, len q), (if is_absolute p then 0 else 1, len p)) \<in> less_than <*lex*> less_than
    \<and> (is_absolute q \<or> (\<forall>q e. po_canonicalize F q \<noteq> Err e))"
  proof (cases "po_is_empty F par")
    case False
    then have "q = par" using assms(3) par by (simp add: next_dir_def)
    then show ?thesis using assms(1,2) par unfolding path_law_def by auto
  next
    case True
    then have "\<not> is_absolute p" using assms(1) par unfolding path_law_def by blast
    then obtain c where c: "po_canonicalize F p = Ok c" using assms(2) by (cases "po_canonicalize F p") auto
    then have "po_parent F c = Some q" using assms(3) par True by (simp add: next_dir_def)
    then have "is_absolute q" using assms(1) c unfolding path_law_def by blast
    then show ?thesis using \<open>\<not> is_absolute p\<close> by simp
  qed
  then show "((if is_absolute q then 0 else 1, len q), (if is_absolute p then 0 else 1, len p)) \<in> less_than <*lex*> less_than"
    "is_absolute q \<or> (\<forall>q e. po_canonicalize F q \<noteq> Err e)" by blast+
qed

lemma discover_returns_aux:
  assumes "path_law F is_absolute len" and "is_absolute p \<or> (\<forall>q e. po_canonicalize F q \<noteq> Err e)"
  shows "\<exists>r. discover F pred p = Some r \<and> found F pred p r"
proof -
  have "wf (inv_image (less_than <*lex*> less_than) (\<lambda>p. (if is_absolute p then 0 else 1 :: nat, len p)))"
    by (intro wf_inv_image wf_lex_prod wf_less_than)
  then show ?thesis using assms(2)
  proof (induction p rule: wf_induct_rule)
    case (less p)
    show ?case
    proof (cases "pred p")
      case (Ok b)
      show ?thesis
      proof (cases "b \<or> next_dir F p = None")
        case True
        then show ?thesis
          using Ok visits_step [of F pred p] by (subst discover_step) (auto simp: found_def)
      next
        case False
        then obtain q where q: "next_dir F p = Some q" by auto
        note d = next_dir_decreases [OF assms(1) less.prems q]
        obtain r where "discover F pred q = Some r" "found F pred q r"
          using less.IH [OF _ d(2)] d(1) by (auto simp: inv_image_def)
        then show ?thesis
          using found_next [of F pred q r p] Ok False q by (subst discover_step) auto
      qed
    next
      case (Err e)
      then show ?thesis
        using visits_step [of F pred p] by (subst discover_step) (auto simp: found_def)
    qed
  qed
qed

section \<open>Properties\<close>

text \<open>C29: The search for a project or workspace returns whenever it starts at an absolute path or
  canonicalization does not fail, and its result is right: the first directory, from the start
  upwards, that satisfies the predicate, nothing if none of them does, or the first error.\<close>

theorem discover_returns:
  assumes "path_law F is_absolute len" and "is_absolute p \<or> (\<forall>q e. po_canonicalize F q \<noteq> Err e)"
  shows "\<exists>r. discover F pred p = Some r \<and> found F pred p r"
  using assms by (rule discover_returns_aux)

text \<open>A path is its names, innermost first, with a flag for absolute paths; the current directory
  is \<open>/home/user\<close>.\<close>

definition sample_paths :: "(bool \<times> string list, unit) path_ops" where
  "sample_paths = \<lparr>
     po_parent = (\<lambda>(a, ns). case ns of [] \<Rightarrow> None | _ # ns' \<Rightarrow> Some (a, ns')),
     po_is_empty = (\<lambda>(a, ns). \<not> a \<and> ns = []),
     po_canonicalize = (\<lambda>(a, ns). Ok (True, if a then ns else ns @ [''user'', ''home''])),
     po_join = (\<lambda>(a, ns) n. (a, n # ns)),
     po_is_file = (\<lambda>(a, ns). Ok (ns = [''.project.json'', ''home'']))\<rparr>"

lemma sample_path_law: "path_law sample_paths fst (\<lambda>(a, ns). length ns)"
  by (auto simp: path_law_def sample_paths_def split: list.splits if_splits)

theorem discover_returns_witness:
  "\<exists>r. discover sample_paths (is_project_file sample_paths) (False, [''src'']) = Some r
     \<and> found sample_paths (is_project_file sample_paths) (False, [''src'']) r"
proof -
  have "\<forall>q e. po_canonicalize sample_paths q \<noteq> Err e" by (auto simp: sample_paths_def)
  then show ?thesis by (intro discover_returns [OF sample_path_law]) blast
qed

text \<open>The search runs forever if the working directory is a relative path with one component that
  does not satisfy the predicate and cannot be canonicalized, for instance because it does not
  exist: the error is only logged and the loop looks at the same directory again.\<close>

theorem discover_hangs:
  assumes "pred p = Ok False" and "po_parent F p = Some par" and "po_is_empty F par"
    and "po_canonicalize F p = Err e"
  shows "discover F pred p = None"
  using assms by (intro discover_stuck) (simp add: stuck_def next_dir_def)

theorem discover_hangs_witness:
  "discover (sample_paths\<lparr>po_canonicalize := \<lambda>_. Err ()\<rparr>) (\<lambda>_. Ok False) (False, [''missing'']) = None"
  by (rule discover_hangs [where par = "(False, [])"]) (simp_all add: sample_paths_def)

text \<open>A workspace is accepted exactly if all its IRIs are; paths and order stay as they are.\<close>

lemma workspace_info_try_from_Ok:
  assumes "iri_text_law E" and "workspace_info_try_from E raw = Ok info"
  shows "map (\<lambda>p. (wp_path p, map (iri_str E) (wp_iris p))) (wi_projects info) =
      map (\<lambda>p. (wp_path p, wp_iris p)) (wi_projects raw)"
proof -
  obtain ps where ps: "collect_res (validate_workspace_project E) (wi_projects raw) = Ok ps" "wi_projects info = ps"
    using assms(2) by (auto simp: workspace_info_try_from_def)
  have iris: "map (iri_str E) js = ss" if "collect_res (parse_iri E) ss = Ok js" for ss js
    using that assms(1)
    by (auto simp: collect_res_Ok list_all2_conv_all_nth parse_iri_def iri_text_law_def intro: nth_equalityI)
  have "(wp_path q, map (iri_str E) (wp_iris q)) = (wp_path p, wp_iris p)"
    if "validate_workspace_project E p = Ok q" for p q
    using that by (auto simp: validate_workspace_project_def iris)
  then show ?thesis
    using ps by (auto simp: collect_res_Ok list_all2_conv_all_nth intro!: nth_equalityI)
qed

end
