(* ===== verification/Query.thy ===== *)
theory Query
  imports LockCommand
begin

text \<open>
  Commands that look projects up: \<^verbatim>\<open>core/src/commands/info.rs\<close> and
  \<^verbatim>\<open>core/src/commands/sources.rs\<close>. The first picks the best of the projects an IRI resolves to;
  the second solves for the dependencies of a list of usages with a resolver composed of projects in
  memory and an environment. Failed assertions and unwrapped errors are the values \<open>InfoPanic\<close> and
  \<open>DependenciesPanic\<close>. The order of versions and the iteration order of hash maps and sets
  are arguments.
\<close>

section \<open>Information on a project\<close>

datatype 'e InfoProjectError = MissingProject | MissingInfo | MissingMeta | InvalidProject 'e

definition do_info_project ::
  "('p, 'e) ProjectRead \<Rightarrow> 'p \<Rightarrow> (InterchangeProjectInfoRaw \<times> InterchangeProjectMetadataRaw, 'e InfoProjectError) result" where
  "do_info_project R project =
    (case get_project R project of
       Ok (Some info, Some meta) \<Rightarrow> Ok (info, meta)
     | Ok (None, None) \<Rightarrow> Err MissingProject
     | Ok (None, Some _) \<Rightarrow> Err MissingInfo
     | Ok (Some _, None) \<Rightarrow> Err MissingMeta
     | Err err \<Rightarrow> Err (InvalidProject err))"

datatype 'e InfoError =
    NoSemanticVersionsFound "string list"
  | NoResolve string string
  | UnsupportedIri string string
  | InfoResolution 'e
  | InfoPanic

definition resolve_read_raw ::
  "('iri, 'ver, 'req, 'time) externs \<Rightarrow> ('iri, 'p, 'e) resolver \<Rightarrow> string
   \<Rightarrow> (('p, 'e) result list ResolutionOutcome, 'e) result" where
  "resolve_read_raw E resolver uri =
    (case iri_parse E uri of
       Ok iri \<Rightarrow> resolver iri
     | Err err \<Rightarrow> Ok (UnsupportedIRIType (''unable to parse IRI `'' @ uri @ ''`: '' @ err)))"

type_synonym 'ver best_info = "('ver \<times> InterchangeProjectInfoRaw \<times> InterchangeProjectMetadataRaw) option"

definition info_step ::
  "('iri, 'ver, 'req, 'time) externs \<Rightarrow> ('ver \<Rightarrow> 'ver \<Rightarrow> bool) \<Rightarrow> ('p, 'pe) ProjectRead
   \<Rightarrow> ('p, 'e) result \<Rightarrow> 'ver best_info \<times> string list \<Rightarrow> 'ver best_info \<times> string list" where
  "info_step E lt R alt = (\<lambda>(best, non_semantic_versions).
    case alt of
      Err e \<Rightarrow> (best, non_semantic_versions)
    | Ok candidate_project \<Rightarrow>
        (case do_info_project R candidate_project of
           Ok (info, meta) \<Rightarrow>
             (case (ver_parse E (i_version info), best) of
                (Ok cur_version, Some (best_version, _, _)) \<Rightarrow>
                  if lt best_version cur_version then (Some (cur_version, info, meta), non_semantic_versions)
                  else (best, non_semantic_versions)
              | (Ok cur_version, None) \<Rightarrow> (Some (cur_version, info, meta), non_semantic_versions)
              | (Err _, _) \<Rightarrow> (best, non_semantic_versions @ [i_version info]))
         | Err err \<Rightarrow> (best, non_semantic_versions)))"

definition do_info ::
  "('iri, 'ver, 'req, 'time) externs \<Rightarrow> ('ver \<Rightarrow> 'ver \<Rightarrow> bool) \<Rightarrow> ('p, 'pe) ProjectRead \<Rightarrow> ('iri, 'p, 'e) resolver
   \<Rightarrow> string \<Rightarrow> (InterchangeProjectInfoRaw \<times> InterchangeProjectMetadataRaw, 'e InfoError) result" where
  "do_info E lt R resolver uri =
    and_then (map_err InfoResolution (resolve_read_raw E resolver uri)) (\<lambda>outcome.
    case outcome of
      Resolved resolved \<Rightarrow>
        if resolved = [] then Err InfoPanic
        else (case fold (info_step E lt R) resolved (None, []) of
            (Some (_, info, meta), _) \<Rightarrow> Ok (info, meta)
          | (None, non_semantic_versions) \<Rightarrow> Err (NoSemanticVersionsFound non_semantic_versions))
    | UnsupportedIRIType e \<Rightarrow> Err (UnsupportedIri uri e)
    | Unresolvable e \<Rightarrow> Err (NoResolve uri e))"

section \<open>Source files and dependencies\<close>

datatype 'e SourcesError = SourcesProject 'e | SourcesValidation string InterchangeProjectValidationError

definition do_sources_project_no_deps ::
  "('iri, 'ver, 'req, 'time) externs \<Rightarrow> (string set \<Rightarrow> string list) \<Rightarrow> ('p, 'e) ProjectRead \<Rightarrow> 'p \<Rightarrow> bool
   \<Rightarrow> (string list, 'e SourcesError) result" where
  "do_sources_project_no_deps E set_order R project include_index =
    and_then (map_err SourcesProject (get_meta R project)) (\<lambda>m.
    case m of
      None \<Rightarrow> Ok []
    | Some meta \<Rightarrow>
        map_ok (\<lambda>validated. set_order (source_paths include_index validated))
          (map_err (SourcesValidation ''meta'') (validate_meta E meta)))"

text \<open>The map of projects in memory; \<open>None\<close> is the panic when a key is no IRI.\<close>

fun memory_projects ::
  "('iri, 'ver, 'req, 'time) externs \<Rightarrow> (string \<times> 'm list) list \<Rightarrow> ('iri \<times> 'm list) list \<Rightarrow> ('iri \<times> 'm list) list option" where
  "memory_projects E [] acc = Some acc"
| "memory_projects E ((k, v) # kvs) acc =
    (case iri_parse E k of
       Ok iri \<Rightarrow> memory_projects E kvs (AList.update iri v acc)
     | Err _ \<Rightarrow> None)"

fun lower_project :: "('h, 'l) PriorityProject \<Rightarrow> 'l option" where
  "lower_project (HigherProject _) = None"
| "lower_project (LowerProject p) = Some p"

record ('iri, 'ver, 'req, 'time, 'h, 'he, 'l, 'le, 'tree) query_params =
  qp_externs :: "('iri, 'ver, 'req, 'time) externs"
  qp_solver :: "('iri, 'ver, 'req) solver_externs"
  qp_read_memory :: "('h, 'he) ProjectRead"
  qp_read_env :: "('l, 'le) ProjectRead"
  qp_pubgrub :: "('iri, 'ver, 'req, 'tree, ('h, 'l) PriorityProject, ('he, 'le) PriorityError) pubgrub"
  qp_collapse :: "'tree \<Rightarrow> 'tree"
  qp_order :: "('iri \<times> ('h, 'l) PriorityProject) list \<Rightarrow> ('iri \<times> ('h, 'l) PriorityProject) list"

datatype 'e dependencies_error = DependenciesSolver 'e | DependenciesPanic

definition wrapped_resolver ::
  "('iri, 'ver, 'req, 'time) externs \<Rightarrow> ('iri \<times> 'h list) list \<Rightarrow> ('s, 'l, 'le) ReadEnvironment \<Rightarrow> 's
   \<Rightarrow> ('iri, ('h, 'l) PriorityProject, ('he, 'le) PriorityError) resolver" where
  "wrapped_resolver E memory V env =
    priority_resolve (memory_resolve (iri_str E) (\<lambda>_. True) memory) (env_resolve (iri_str E) V env)"

definition find_project_dependencies ::
  "('iri, 'ver, 'req, 'time, 'h, 'he, 'l, 'le, 'tree) query_params \<Rightarrow> ('s, 'l, 'le) ReadEnvironment
   \<Rightarrow> ('iri, 'req) InterchangeProjectUsageG list \<Rightarrow> 's \<Rightarrow> (string \<times> 'h list) list
   \<Rightarrow> ('l list, ('iri, 'req, 'tree, ('he, 'le) PriorityError InternalSolverError) PubGrubError dependencies_error) result" where
  "find_project_dependencies Q V requested env provided_iris =
    (case memory_projects (qp_externs Q) provided_iris [] of
       None \<Rightarrow> Err DependenciesPanic
     | Some memory \<Rightarrow>
         (case solve (qp_externs Q) (qp_solver Q) (priority_read (qp_read_memory Q) (qp_read_env Q)) (qp_pubgrub Q)
             (qp_collapse Q) requested (wrapped_resolver (qp_externs Q) memory V env) of
            SolvePanic \<Rightarrow> Err DependenciesPanic
          | SolveError e \<Rightarrow> Err (DependenciesSolver e)
          | Solved wrapped_result \<Rightarrow> Ok (List.map_filter (lower_project \<circ> snd) (qp_order Q wrapped_result))))"

section \<open>The best version\<close>

text \<open>The complete projects among the alternatives, with the version where it is a semantic one.\<close>

definition semantic ::
  "('iri, 'ver, 'req, 'time) externs \<Rightarrow> ('p, 'pe) ProjectRead \<Rightarrow> ('p, 'e) result
   \<Rightarrow> ('ver \<times> InterchangeProjectInfoRaw \<times> InterchangeProjectMetadataRaw) option" where
  "semantic E R alt =
    (case alt of
       Err _ \<Rightarrow> None
     | Ok p \<Rightarrow> (case do_info_project R p of
         Err _ \<Rightarrow> None
       | Ok (info, meta) \<Rightarrow> (case ver_parse E (i_version info) of Ok v \<Rightarrow> Some (v, info, meta) | Err _ \<Rightarrow> None)))"

lemma info_step_best:
  "fst (info_step E lt R alt (best, ns)) =
    (case semantic E R alt of
       None \<Rightarrow> best
     | Some (v, im) \<Rightarrow> (case best of Some (b, _) \<Rightarrow> if lt b v then Some (v, im) else best | None \<Rightarrow> Some (v, im)))"
  by (auto simp: info_step_def semantic_def split: result.splits option.splits prod.splits)

definition is_best :: "('ver \<Rightarrow> 'ver \<Rightarrow> bool) \<Rightarrow> ('ver \<times> 'a) list \<Rightarrow> ('ver \<times> 'a) option \<Rightarrow> bool" where
  "is_best lt xs b \<longleftrightarrow>
    (case b of None \<Rightarrow> xs = [] | Some (v, a) \<Rightarrow> (v, a) \<in> set xs \<and> (\<forall>(w, _) \<in> set xs. \<not> lt v w))"

lemma is_best_step:
  assumes "transp lt" and "irreflp lt" and "is_best lt xs best"
  shows "is_best lt (xs @ [(v, a)])
    (case best of Some (b, _) \<Rightarrow> if lt b v then Some (v, a) else best | None \<Rightarrow> Some (v, a))"
  using assms(3) transpD [OF assms(1)] irreflpD [OF assms(2)]
  by (auto simp: is_best_def split: option.splits)

lemma info_fold_best:
  assumes "transp lt" and "irreflp lt" and "is_best lt xs best"
  shows "is_best lt (xs @ List.map_filter (semantic E R) alts) (fst (fold (info_step E lt R) alts (best, ns)))"
  using assms(3)
proof (induction alts arbitrary: xs best ns)
  case Nil
  then show ?case by (simp add: List.map_filter_def)
next
  case (Cons alt alts)
  obtain best' ns' where st: "info_step E lt R alt (best, ns) = (best', ns')" by (cases "info_step E lt R alt (best, ns)")
  have b: "best' = (case semantic E R alt of
       None \<Rightarrow> best
     | Some (v, im) \<Rightarrow> (case best of Some (b, _) \<Rightarrow> if lt b v then Some (v, im) else best | None \<Rightarrow> Some (v, im)))"
    using info_step_best [of E lt R alt best ns] st by simp
  show ?case
  proof (cases "semantic E R alt")
    case None
    then show ?thesis using Cons b st by (simp add: List.map_filter_def)
  next
    case (Some vim)
    obtain v im where v: "vim = (v, im)" by (cases vim)
    have "is_best lt (xs @ [(v, im)]) best'"
      using is_best_step [OF assms(1,2) Cons.prems, of v im] b Some v by simp
    from Cons.IH [OF this] show ?thesis using Some v st by (simp add: List.map_filter_def)
  qed
qed

lemma do_info_Ok:
  assumes "do_info E lt R resolver uri = Ok im"
  shows "\<exists>iri alts v. iri_parse E uri = Ok iri \<and> resolver iri = Ok (Resolved alts)
    \<and> fst (fold (info_step E lt R) alts (None, [])) = Some (v, im)"
proof -
  obtain out where out: "resolve_read_raw E resolver uri = Ok out" using assms by (auto simp: do_info_def)
  show ?thesis
  proof (cases out)
    case (Resolved alts)
    then obtain iri where i: "iri_parse E uri = Ok iri" "resolver iri = Ok (Resolved alts)"
      using out by (auto simp: resolve_read_raw_def split: result.splits)
    obtain best ns where b: "fold (info_step E lt R) alts (None, []) = (best, ns)"
      by (cases "fold (info_step E lt R) alts (None, [])")
    then show ?thesis
      using assms out Resolved i by (cases best) (auto simp: do_info_def split: if_splits)
  qed (use assms out in \<open>auto simp: do_info_def\<close>)
qed

section \<open>Dependencies\<close>

text \<open>The keys that are given projects in memory.\<close>

lemma memory_projects_keys:
  "memory_projects E kvs acc = Some m \<Longrightarrow>
   map_of m iri \<noteq> None \<longleftrightarrow> map_of acc iri \<noteq> None \<or> (\<exists>k \<in> set (keys kvs). iri_parse E k = Ok iri)"
  by (induction E kvs acc rule: memory_projects.induct) (auto simp: update_conv' split: result.splits)

lemma lower_Ok: "Ok q = map_err LowerError (map_ok LowerProject x) \<Longrightarrow> \<exists>p. x = Ok p \<and> q = LowerProject p"
  by (cases x) auto

lemma wrapped_candidates:
  assumes "find_candidates E PR res iri = Ok cs" and "c \<in> set cs" and res: "res = wrapped_resolver E memory V env"
  shows "(map_of memory iri \<noteq> None \<and> (\<exists>h. c_project c = HigherProject h))
    \<or> (map_of memory iri = None \<and> (\<exists>p alts. c_project c = LowerProject p
        \<and> env_resolve (iri_str E) V env iri = Ok (Resolved alts) \<and> Ok p \<in> set alts))"
proof -
  obtain alts where alts: "res iri = Ok (Resolved alts)"
      and cs: "cs = List.map_filter (candidate_of E PR) alts"
  proof -
    obtain out where "res iri = Ok out" using assms(1) by (auto simp: find_candidates_def)
    then show ?thesis using assms(1) that by (cases out) (auto simp: find_candidates_def Let_def split: if_splits)
  qed
  obtain alt where "alt \<in> set alts" and "candidate_of E PR alt = Some c"
    using assms(2) cs by (auto simp: List.map_filter_def)
  then have c: "Ok (c_project c) \<in> set alts"
    by (cases alt) (auto simp: candidate_of_def split: result.split_asm option.split_asm)
  show ?thesis
  proof (cases "map_of memory iri")
    case (Some hs)
    then have "alts = map priority_higher (map Ok hs)"
      using alts by (auto simp: res wrapped_resolver_def priority_resolve_def memory_resolve_def)
    then show ?thesis using c Some by (auto simp: priority_higher_def)
  next
    case None
    then obtain out where out: "env_resolve (iri_str E) V env iri = Ok out"
        "outcome_map (map priority_lower) out = Resolved alts"
      using alts by (auto simp: res wrapped_resolver_def priority_resolve_def memory_resolve_def)
    then obtain ls where "out = Resolved ls" "alts = map priority_lower ls" by (cases out) auto
    then show ?thesis using c None out(1) by (auto simp: priority_lower_def dest: lower_Ok)
  qed
qed

definition query_run_contract ::
  "('iri, 'ver, 'req, 'time, 'h, 'he, 'l, 'le, 'tree) query_params \<Rightarrow> ('iri, ('h, 'l) PriorityProject, ('he, 'le) PriorityError) resolver
   \<Rightarrow> ('iri, 'req) InterchangeProjectUsageG list \<Rightarrow> bool" where
  "query_run_contract Q resolver requested \<longleftrightarrow>
    (let E = qp_externs Q; X = qp_solver Q; PR = priority_read (qp_read_memory Q) (qp_read_env Q) in
     constraints_law X \<and> (\<forall>xs. set (qp_order Q xs) = set xs)
     \<and> pubgrub_contract (choose_version E X PR resolver) (get_dependencies E X PR resolver) (Requested requested) 0 []
         (qp_pubgrub Q prioritize (choose_version E X PR resolver) (get_dependencies E X PR resolver) (Requested requested) 0 []))"

lemma find_dependencies_Ok:
  assumes "find_project_dependencies Q V requested env provided = Ok deps"
  shows "\<exists>memory result. memory_projects (qp_externs Q) provided [] = Some memory
    \<and> solve (qp_externs Q) (qp_solver Q) (priority_read (qp_read_memory Q) (qp_read_env Q)) (qp_pubgrub Q)
        (qp_collapse Q) requested (wrapped_resolver (qp_externs Q) memory V env) = Solved result
    \<and> deps = List.map_filter (lower_project \<circ> snd) (qp_order Q result)"
proof -
  obtain memory where m: "memory_projects (qp_externs Q) provided [] = Some memory"
    using assms by (auto simp: find_project_dependencies_def split: option.splits)
  then show ?thesis
    using assms by (auto simp: find_project_dependencies_def split: solve_outcome.splits)
qed

lemma lower_project_Some: "lower_project q = Some p \<longleftrightarrow> q = LowerProject p"
  by (cases q) auto

lemma set_deps:
  assumes "\<forall>xs. set (order xs) = set xs"
  shows "p \<in> set (List.map_filter (lower_project \<circ> snd) (order result)) \<longleftrightarrow> (\<exists>iri. (iri, LowerProject p) \<in> set result)"
  using assms by (auto simp: List.map_filter_def lower_project_Some) force+

section \<open>Properties\<close>

text \<open>The information reported for an IRI belongs to a complete project with a semantic version among those
  the IRI resolves to, and no such project has a greater version; an error about versions means that none of them
  has a semantic version.\<close>

theorem do_info_best:
  assumes "transp lt" and "irreflp lt"
  shows "(do_info E lt R resolver uri = Ok (info, meta) \<longrightarrow>
      (\<exists>iri alts v. iri_parse E uri = Ok iri \<and> resolver iri = Ok (Resolved alts)
        \<and> (v, info, meta) \<in> set (List.map_filter (semantic E R) alts)
        \<and> (\<forall>(w, _) \<in> set (List.map_filter (semantic E R) alts). \<not> lt v w)))
    \<and> (do_info E lt R resolver uri = Err (NoSemanticVersionsFound ns) \<longrightarrow>
      (\<exists>iri alts. iri_parse E uri = Ok iri \<and> resolver iri = Ok (Resolved alts)
        \<and> List.map_filter (semantic E R) alts = []))"
proof (intro conjI impI)
  have best: "is_best lt (List.map_filter (semantic E R) alts) (fst (fold (info_step E lt R) alts (None, [])))" for alts
    using info_fold_best [OF assms, of "[]" None E R alts "[]"] by (simp add: is_best_def)
  show "\<exists>iri alts v. iri_parse E uri = Ok iri \<and> resolver iri = Ok (Resolved alts)
        \<and> (v, info, meta) \<in> set (List.map_filter (semantic E R) alts)
        \<and> (\<forall>(w, _) \<in> set (List.map_filter (semantic E R) alts). \<not> lt v w)"
    if o: "do_info E lt R resolver uri = Ok (info, meta)"
  proof -
    obtain iri alts v where i: "iri_parse E uri = Ok iri" "resolver iri = Ok (Resolved alts)"
        "fst (fold (info_step E lt R) alts (None, [])) = Some (v, info, meta)" using do_info_Ok [OF o] by blast
    show ?thesis using best [of alts] i by (intro exI [of _ iri] exI [of _ alts] exI [of _ v]) (simp add: is_best_def)
  qed
  show "\<exists>iri alts. iri_parse E uri = Ok iri \<and> resolver iri = Ok (Resolved alts) \<and> List.map_filter (semantic E R) alts = []"
    if e: "do_info E lt R resolver uri = Err (NoSemanticVersionsFound ns)"
  proof -
    obtain out where out: "resolve_read_raw E resolver uri = Ok out" using e by (auto simp: do_info_def and_then_eq_Err)
    then obtain alts where alts: "out = Resolved alts" using e by (cases out) (auto simp: do_info_def)
    then obtain iri where i: "iri_parse E uri = Ok iri" "resolver iri = Ok (Resolved alts)"
      using out by (auto simp: resolve_read_raw_def split: result.splits)
    have "fst (fold (info_step E lt R) alts (None, [])) = None"
      using e out alts by (auto simp: do_info_def split: prod.splits option.splits if_splits)
    then show ?thesis using best [of alts] i by (intro exI [of _ iri] exI [of _ alts]) (simp add: is_best_def)
  qed
qed

text \<open>C32: The dependencies found in an environment: every project returned is a project the environment has
  for an IRI that is not provided in memory; every requested usage, and every usage of a project returned, is either
  provided or has a project among those returned.\<close>

theorem find_dependencies_closed:
  fixes Q :: "('iri, 'ver, 'req, 'time, 'h, 'he, 'l, 'le, 'tree) query_params"
  assumes "find_project_dependencies Q V requested env provided = Ok deps"
    and "memory_projects (qp_externs Q) provided [] = Some memory"
    and "query_run_contract Q (wrapped_resolver (qp_externs Q) memory V env) requested"
  shows "\<exists>chosen.
     (\<forall>p. p \<in> set deps \<longleftrightarrow> (\<exists>iri. chosen iri = Some p))
     \<and> (\<forall>iri p. chosen iri = Some p \<longrightarrow> map_of memory iri = None
         \<and> (\<exists>alts. env_resolve (iri_str (qp_externs Q)) V env iri = Ok (Resolved alts) \<and> Ok p \<in> set alts))
     \<and> (\<forall>u \<in> set requested. map_of memory (resource u) \<noteq> None \<or> chosen (resource u) \<noteq> None)
     \<and> (\<forall>iri p. chosen iri = Some p \<longrightarrow> (\<exists>raw us. project_usage (qp_read_env Q) p = Ok (Some raw)
         \<and> collect_res (validate_usage (qp_externs Q)) raw = Ok us
         \<and> (\<forall>u \<in> set us. map_of memory (resource u) \<noteq> None \<or> chosen (resource u) \<noteq> None)))"
proof -
  let ?E = "qp_externs Q" let ?PR = "priority_read (qp_read_memory Q) (qp_read_env Q)"
  define res where "res = (wrapped_resolver ?E memory V env :: ('iri, ('h, 'l) PriorityProject, ('he, 'le) PriorityError) resolver)"
  obtain result where r: "solve ?E (qp_solver Q) ?PR (qp_pubgrub Q) (qp_collapse Q) requested res = Solved result"
      "deps = List.map_filter (lower_project \<circ> snd) (qp_order Q result)"
    using find_dependencies_Ok [OF assms(1)] assms(2) unfolding res_def by auto
  note c = assms(3) [unfolded query_run_contract_def Let_def, folded res_def]
  note closed = solve_closed [of "qp_solver Q" ?E ?PR res requested "qp_pubgrub Q", OF _ _ r(1)]
  have closed: "u \<in> set requested \<Longrightarrow> map_of result (resource u) \<noteq> None"
    "map_of result iri = Some q \<Longrightarrow> \<exists>cs c. find_candidates ?E ?PR res iri = Ok cs \<and> c \<in> set cs \<and> c_project c = q
      \<and> (\<forall>u \<in> set (cs_usage (c_summary c)). map_of result (resource u) \<noteq> None)" for u iri q
    using solve_closed [of "qp_solver Q" ?E ?PR res requested "qp_pubgrub Q" "qp_collapse Q" result] c r(1) by auto
  define chosen where "chosen iri = Option.bind (map_of result iri) lower_project" for iri
  have dist: "distinct (map fst result)" using solve_distinct [OF r(1)] .
  have kind: "(map_of memory iri \<noteq> None \<and> (\<exists>h. q = HigherProject h))
    \<or> (map_of memory iri = None \<and> (\<exists>p alts. q = LowerProject p
        \<and> env_resolve (iri_str ?E) V env iri = Ok (Resolved alts) \<and> Ok p \<in> set alts))"
    if "map_of result iri = Some q" for iri q
    using closed(2) [OF that] wrapped_candidates [of ?E ?PR res iri _ _ memory V env] res_def by blast
  have present: "map_of memory iri \<noteq> None \<or> chosen iri \<noteq> None" if "map_of result iri \<noteq> None" for iri
    using that kind [of iri] by (auto simp: chosen_def)
  have chosen: "chosen iri = Some p \<longleftrightarrow> map_of result iri = Some (LowerProject p)" for iri p
    by (auto simp: chosen_def lower_project_Some split: Option.bind_split)
  have usages: "\<exists>raw us. project_usage (qp_read_env Q) p = Ok (Some raw)
      \<and> collect_res (validate_usage ?E) raw = Ok us
      \<and> (\<forall>u \<in> set us. map_of memory (resource u) \<noteq> None \<or> chosen (resource u) \<noteq> None)"
    if p: "chosen iri = Some p" for iri p
  proof -
    obtain cs d where d: "find_candidates ?E ?PR res iri = Ok cs" "d \<in> set cs" "c_project d = LowerProject p"
        "\<forall>u \<in> set (cs_usage (c_summary d)). map_of result (resource u) \<noteq> None"
      using closed(2) p chosen by blast
    from candidate_facts [OF d(1,2)] obtain raw where
        "project_usage ?PR (LowerProject p) = Ok (Some raw)" "collect_res (validate_usage ?E) raw = Ok (cs_usage (c_summary d))"
      using d(3) by auto
    then show ?thesis
      using d(4) present by (auto simp: project_usage_def get_info_def priority_read_def)
  qed
  have deps: "p \<in> set deps \<longleftrightarrow> (\<exists>iri. chosen iri = Some p)" for p
    using set_deps [of "qp_order Q" p result] c r(2) dist by (simp add: chosen)
  show ?thesis
    using deps usages kind closed(1) present chosen by (intro exI [of _ chosen]) blast
qed

text \<open>An environment with one project that uses another, which is provided in memory.\<close>

definition sample_query_env :: "(unit, nat, unit) ReadEnvironment" where
  "sample_query_env = \<lparr>env_uris = (\<lambda>_. Ok [Ok ''a:x'']),
     env_versions = (\<lambda>_ u. Ok (if u = ''a:x'' then [Ok ''2''] else [])),
     env_get_project = (\<lambda>_ u v. Ok 2)\<rparr>"

definition sample_query ::
  "(string, string, string, string, nat, unit, nat, unit, unit) query_params" where
  "sample_query = \<lparr>qp_externs = sample_externs, qp_solver = sample_solver_externs,
     qp_read_memory = sample_solver_read, qp_read_env = sample_solver_read, qp_pubgrub = chain_pubgrub,
     qp_collapse = (\<lambda>t. t), qp_order = (\<lambda>xs. xs)\<rparr>"

lemma sample_dependencies:
  "find_project_dependencies sample_query sample_query_env [Resource ''a:x'' (Some ''2'')] () [(''b:y'', [3])] = Ok [2]"
  by code_simp

lemma sample_memory: "memory_projects (qp_externs sample_query) [(''b:y'', [3 :: nat])] [] = Some [(''b:y'', [3])]"
  by code_simp

lemma sample_query_contract: "query_run_contract sample_query res requested"
  unfolding query_run_contract_def Let_def
  by (intro conjI) (simp_all add: sample_query_def sample_constraints_law chain_pubgrub_contract)

theorem find_dependencies_closed_witness:
  "\<exists>chosen p. (\<exists>iri. chosen iri = Some (2 :: nat)) \<and> chosen ''a:x'' = Some p"
proof -
  from find_dependencies_closed [OF sample_dependencies sample_memory sample_query_contract]
  obtain chosen where a: "\<forall>p. p \<in> set [2 :: nat] \<longleftrightarrow> (\<exists>iri. chosen iri = Some p)"
    and b: "\<forall>u \<in> set [Resource ''a:x'' (Some ''2'')]. map_of [(''b:y'', [3 :: nat])] (resource u) \<noteq> None \<or> chosen (resource u) \<noteq> None"
    by (elim exE conjE) (rule that; assumption)
  have "\<exists>iri. chosen iri = Some 2" using a [rule_format, of 2] by simp
  moreover have "chosen ''a:x'' \<noteq> None" using b by simp
  ultimately show ?thesis by blast
qed

definition sample_versions :: "(string, InMemoryProject, unit) resolver" where
  "sample_versions _ = Ok (Resolved [
     Ok (mem_from_info_meta (info_minimal ''p'' ''1'') (meta_minimal ''t'')), Err (),
     Ok (mem_from_info_meta (info_minimal ''p'' ''11'') (meta_minimal ''t''))])"

theorem do_info_best_witness:
  "do_info sample_externs (\<lambda>a b. length a < length b) mem_read sample_versions ''urn:p''
     = Ok (info_minimal ''p'' ''11'', meta_minimal ''t'')
   \<and> (\<exists>v. (v, info_minimal ''p'' ''11'', meta_minimal ''t'')
        \<in> set (List.map_filter (semantic sample_externs mem_read)
            (case sample_versions ''urn:p'' of Ok (Resolved alts) \<Rightarrow> alts | _ \<Rightarrow> [])))"
proof -
  have t: "transp (\<lambda>a b :: string. length a < length b)" by (auto intro: transpI)
  have i: "irreflp (\<lambda>a b :: string. length a < length b)" by (simp add: irreflpI)
  have e: "do_info sample_externs (\<lambda>a b. length a < length b) mem_read sample_versions ''urn:p''
     = Ok (info_minimal ''p'' ''11'', meta_minimal ''t'')" by code_simp
  have p: "iri_parse sample_externs ''urn:p'' = Ok ''urn:p''" by code_simp
  from do_info_best [OF t i, of sample_externs mem_read sample_versions "''urn:p''" "info_minimal ''p'' ''11''" "meta_minimal ''t''"] e p
  show ?thesis by auto
qed

text \<open>A resolver that reports an IRI as resolved to nothing makes the command panic.\<close>

lemma do_info_panics_on_empty:
  assumes "iri_parse E uri = Ok iri" and "resolver iri = Ok (Resolved [])"
  shows "do_info E lt R resolver uri = Err InfoPanic"
  using assms by (simp add: do_info_def resolve_read_raw_def)

context resolver_contract
begin

lemma do_info_no_panic: "do_info E lt R resolve uri \<noteq> Err InfoPanic"
proof (cases "resolve_read_raw E resolve uri")
  case (Ok out)
  then show ?thesis
    using resolved_nonempty
    by (cases out) (auto simp: do_info_def resolve_read_raw_def split: result.splits option.splits prod.splits)
qed (simp add: do_info_def)

end

end
