(* ===== verification/IriNames.thy ===== *)
theory IriNames
  imports Purl UnixPath "HOL-Library.Word"
begin

text \<open>
  Canonical IRIs and the file names derived from them
  (\<^verbatim>\<open>core/src/iri_normalize.rs\<close>).

  Strings are UTF-8 byte lists, as in the rest of the development; where the code walks the
  characters of a string they are Unicode scalar values, natural numbers. The IRI type of
  \<^verbatim>\<open>fluent_uri\<close>, Punycode, and the Unicode tables of the \<^verbatim>\<open>icu\<close> crates are the fields of the
  record \<open>iri_ops\<close>. Debug assertions are left out. The theorems: a file name fits its bounds,
  is a single ordinary path component, candidates are pairwise distinct, and the percent
  decoding never overruns its four-byte buffer and loses nothing of well-formed input.
\<close>

section \<open>Characters\<close>

type_synonym uchar = nat

definition u_is_ascii :: "uchar \<Rightarrow> bool" where
  "u_is_ascii c \<longleftrightarrow> c < 128"

definition u_alphanumeric :: "uchar \<Rightarrow> bool" where
  "u_alphanumeric c \<longleftrightarrow> 48 \<le> c \<and> c \<le> 57 \<or> 65 \<le> c \<and> c \<le> 90 \<or> 97 \<le> c \<and> c \<le> 122"

text \<open>\<^verbatim>\<open>c.is_ascii() && !c.is_ascii_alphanumeric()\<close>, the condition the code repeats.\<close>

definition u_punct :: "uchar \<Rightarrow> bool" where
  "u_punct c \<longleftrightarrow> u_is_ascii c \<and> \<not> u_alphanumeric c"

definition u_control :: "uchar \<Rightarrow> bool" where
  "u_control c \<longleftrightarrow> c < 32 \<or> 127 \<le> c \<and> c \<le> 159"

definition u_whitespace :: "uchar \<Rightarrow> bool" where
  "u_whitespace c \<longleftrightarrow> 9 \<le> c \<and> c \<le> 13 \<or> c = 32 \<or> c = 133 \<or> c = 160 \<or> c = 5760
     \<or> 8192 \<le> c \<and> c \<le> 8202 \<or> c = 8232 \<or> c = 8233 \<or> c = 8239 \<or> c = 8287 \<or> c = 12288"

definition REPLACEMENT_CHARACTER :: uchar where
  "REPLACEMENT_CHARACTER = 65533"

text \<open>UTF-8 encoding and decoding of scalar values.\<close>

definition len_utf8 :: "uchar \<Rightarrow> nat" where
  "len_utf8 c = (if c < 128 then 1 else if c < 2048 then 2 else if c < 65536 then 3 else 4)"

definition encode_char :: "uchar \<Rightarrow> string" where
  "encode_char c =
    (if c < 128 then [char_of c]
     else if c < 2048 then [char_of (192 + c div 64), char_of (128 + c mod 64)]
     else if c < 65536 then
       [char_of (224 + c div 4096), char_of (128 + c div 64 mod 64), char_of (128 + c mod 64)]
     else [char_of (240 + c div 262144 mod 8), char_of (128 + c div 4096 mod 64),
           char_of (128 + c div 64 mod 64), char_of (128 + c mod 64)])"

definition encode :: "uchar list \<Rightarrow> string" where
  "encode cs = concat (map encode_char cs)"

fun chars_of :: "string \<Rightarrow> uchar list" where
  "chars_of [] = []"
| "chars_of (a # r) =
    (if byte a < 128 then byte a # chars_of r
     else (case r of
        b # r2 \<Rightarrow>
          if byte a < 224 then ((byte a - 192) * 64 + (byte b - 128)) # chars_of r2
          else (case r2 of
            c # r3 \<Rightarrow>
              if byte a < 240
              then ((byte a - 224) * 4096 + (byte b - 128) * 64 + (byte c - 128)) # chars_of r3
              else (case r3 of
                d # r4 \<Rightarrow> ((byte a - 240) * 262144 + (byte b - 128) * 4096
                    + (byte c - 128) * 64 + (byte d - 128)) # chars_of r4
              | [] \<Rightarrow> [])
          | [] \<Rightarrow> [])
      | [] \<Rightarrow> []))"

text \<open>\<^verbatim>\<open>&s[..s.floor_char_boundary(n)]\<close>: the longest prefix of whole characters in \<open>n\<close> bytes.\<close>

fun floor_chars :: "nat \<Rightarrow> uchar list \<Rightarrow> uchar list" where
  "floor_chars n [] = []"
| "floor_chars n (c # cs) = (if len_utf8 c \<le> n then c # floor_chars (n - len_utf8 c) cs else [])"

definition trim_end_matches :: "(uchar \<Rightarrow> bool) \<Rightarrow> uchar list \<Rightarrow> uchar list" where
  "trim_end_matches f s = rev (dropWhile f (rev s))"

definition trim_matches :: "(uchar \<Rightarrow> bool) \<Rightarrow> uchar list \<Rightarrow> uchar list" where
  "trim_matches f s = trim_end_matches f (dropWhile f s)"

section \<open>External operations\<close>

datatype DecodedChunk = Unencoded string | PctDecoded char

record Authority =
  au_host :: string
  au_host_start :: nat
  au_reg_name :: bool

record 'iri iri_ops =
  iri_normalize :: "'iri \<Rightarrow> 'iri"
  iri_str :: "'iri \<Rightarrow> string"
  iri_scheme :: "'iri \<Rightarrow> string"
  iri_authority :: "'iri \<Rightarrow> Authority option"
  iri_path :: "'iri \<Rightarrow> string"
  iri_query :: "'iri \<Rightarrow> string option"
  pct_decode :: "string \<Rightarrow> DecodedChunk list"
  domain_to_ascii :: "string \<Rightarrow> string option"
  punycode_decode :: "string \<Rightarrow> string option"
  fold_string :: "uchar list \<Rightarrow> uchar list"
  nfc_normalize :: "uchar list \<Rightarrow> uchar list"
  ignorable :: "uchar \<Rightarrow> bool"
  bidi_control :: "uchar \<Rightarrow> bool"

section \<open>Canonical IRIs\<close>

datatype IriNormalizeError = IdnConversion string

definition punycode_host :: "'iri iri_ops \<Rightarrow> 'iri \<Rightarrow> (string, IriNormalizeError) result" where
  "punycode_host U iri =
    (let s = iri_str U iri in
     case iri_authority U iri of
       None \<Rightarrow> Ok s
     | Some authority \<Rightarrow>
         let raw_host = au_host authority in
         if \<not> (au_reg_name authority \<and> \<not> list_all (\<lambda>c. byte c < 128) raw_host) then Ok s
         else (case domain_to_ascii U raw_host of
             None \<Rightarrow> Err (IdnConversion raw_host)
           | Some ascii_host \<Rightarrow>
               let host_start = au_host_start authority;
                   host_end = host_start + length raw_host in
               Ok (take host_start s @ ascii_host @ drop host_end s)))"

definition query_or_fragment :: "char \<Rightarrow> bool" where
  "query_or_fragment c \<longleftrightarrow> c = CHR ''?'' \<or> c = CHR ''#''"

definition insert_root_slash :: "string \<Rightarrow> string" where
  "insert_root_slash s =
    takeWhile (\<lambda>c. \<not> query_or_fragment c) s @ ''/'' @ dropWhile (\<lambda>c. \<not> query_or_fragment c) s"

definition needs_root_slash :: "'iri iri_ops \<Rightarrow> 'iri \<Rightarrow> bool" where
  "needs_root_slash U normalized \<longleftrightarrow>
    (iri_scheme U normalized = ''http'' \<or> iri_scheme U normalized = ''https'')
     \<and> iri_path U normalized = []"

definition canonicalize_iri :: "'iri iri_ops \<Rightarrow> 'iri \<Rightarrow> (string, IriNormalizeError) result" where
  "canonicalize_iri U iri =
    (let normalized = iri_normalize U iri in
     map_ok (\<lambda>with_idn.
       if needs_root_slash U normalized then insert_root_slash with_idn else with_idn)
     (punycode_host U normalized))"

definition canonicalize_iri_tolerant :: "'iri iri_ops \<Rightarrow> 'iri \<Rightarrow> string" where
  "canonicalize_iri_tolerant U iri =
    (let normalized = iri_normalize U iri;
         with_idn = (case punycode_host U normalized of
             Ok s \<Rightarrow> s
           | Err e \<Rightarrow> iri_str U normalized) in
     if needs_root_slash U normalized then insert_root_slash with_idn else with_idn)"

section \<open>Percent decoding\<close>

text \<open>\<^verbatim>\<open>str::from_utf8\<close>: besides well-formed input it tells input that breaks off inside a
  character (\<^verbatim>\<open>error_len()\<close> is \<^verbatim>\<open>None\<close>) from input that no continuation makes well-formed.\<close>

definition char_prefix :: "string \<Rightarrow> bool" where
  "char_prefix bs \<longleftrightarrow>
    (case bs of
       [a] \<Rightarrow> byte_in 194 244 a
     | [a, b] \<Rightarrow>
         byte a = 224 \<and> byte_in 160 191 b \<or> byte_in 225 236 a \<and> cont_byte b
         \<or> byte a = 237 \<and> byte_in 128 159 b \<or> byte_in 238 239 a \<and> cont_byte b
         \<or> byte a = 240 \<and> byte_in 144 191 b \<or> byte_in 241 243 a \<and> cont_byte b
         \<or> byte a = 244 \<and> byte_in 128 143 b
     | [a, b, c] \<Rightarrow> cont_byte c \<and>
         (byte a = 240 \<and> byte_in 144 191 b \<or> byte_in 241 243 a \<and> cont_byte b
          \<or> byte a = 244 \<and> byte_in 128 143 b)
     | _ \<Rightarrow> False)"

datatype Utf8Check = WellFormed | Incomplete | IllFormed

definition from_utf8 :: "string \<Rightarrow> Utf8Check" where
  "from_utf8 bs =
    (if utf8_valid bs then WellFormed
     else if list_ex (\<lambda>k. utf8_valid (take k bs) \<and> char_prefix (drop k bs)) [0..<length bs]
     then Incomplete else IllFormed)"

text \<open>One percent-decoded byte: the buffer of four bytes holds the bytes of a character not
  complete yet. Writing past the buffer panics, \<^term>\<open>None\<close>.\<close>

definition push_decoded :: "string \<Rightarrow> string \<Rightarrow> char \<Rightarrow> (string \<times> string) option" where
  "push_decoded result buffer b =
    (if 4 \<le> length buffer then None
     else Some (
       let bytes = buffer @ [b] in
       case from_utf8 bytes of
         WellFormed \<Rightarrow> (result @ bytes, [])
       | Incomplete \<Rightarrow> (result, bytes)
       | IllFormed \<Rightarrow>
           (case from_utf8 [b] of
              WellFormed \<Rightarrow> (result @ [b], [])
            | Incomplete \<Rightarrow> (result, [b])
            | IllFormed \<Rightarrow> (result, []))))"

fun decode_loop :: "string \<Rightarrow> string \<Rightarrow> DecodedChunk list \<Rightarrow> string option" where
  "decode_loop result buffer [] = Some result"
| "decode_loop result buffer (Unencoded s # chunks) = decode_loop (result @ s) [] chunks"
| "decode_loop result buffer (PctDecoded b # chunks) =
    (case push_decoded result buffer b of
       None \<Rightarrow> None
     | Some (result', buffer') \<Rightarrow> decode_loop result' buffer' chunks)"

definition extend_decode_strip_invalid :: "'iri iri_ops \<Rightarrow> string \<Rightarrow> string \<Rightarrow> string option" where
  "extend_decode_strip_invalid U result src = decode_loop result [] (pct_decode U src)"

section \<open>The name of an IRI\<close>

definition MAX_VERSION_LEN_BYTES :: nat where
  "MAX_VERSION_LEN_BYTES = 30"

definition MAX_IRI_LEN_BYTES :: nat where
  "MAX_IRI_LEN_BYTES = 120"

definition decode_label :: "'iri iri_ops \<Rightarrow> string \<Rightarrow> string" where
  "decode_label U label =
    (case strip_prefix ''xn--'' label of
       Some c \<Rightarrow>
         (case punycode_decode U c of
            Some puny_decoded \<Rightarrow> puny_decoded
          | None \<Rightarrow> label)
     | None \<Rightarrow> label)"

definition push_host :: "'iri iri_ops \<Rightarrow> string \<Rightarrow> string" where
  "push_host U host =
    (if host = [] then []
     else if split_on CHR ''.'' host \<noteq> []
     then butlast (concat (map (\<lambda>c. decode_label U c @ ''.'') (split_on CHR ''.'' host))) @ ''-''
     else decode_label U host @ ''-'')"

definition trimmed_char :: "'iri iri_ops \<Rightarrow> uchar \<Rightarrow> bool" where
  "trimmed_char U c \<longleftrightarrow> u_punct c \<or> u_control c \<or> u_whitespace c \<or> ignorable U c"

definition ends_with_dot_or_dash :: "uchar list \<Rightarrow> bool" where
  "ends_with_dot_or_dash s \<longleftrightarrow> s \<noteq> [] \<and> (last s = 46 \<or> last s = 45)"

text \<open>One round of the sanitizing loop: the characters written so far and those to come.\<close>

definition sanitize_step ::
  "'iri iri_ops \<Rightarrow> uchar list \<Rightarrow> uchar \<Rightarrow> uchar list \<Rightarrow> uchar list \<times> uchar list" where
  "sanitize_step U sanitized c c_it =
    (if u_whitespace c
     then (trim_end_matches u_punct sanitized @ [95], dropWhile u_punct c_it)
     else if c = 47 \<or> c = 58 then (sanitized @ [46], c_it)
     else if u_punct c then
       (let kept = trim_end_matches u_punct sanitized;
            rest = dropWhile u_punct c_it;
            discarded = (length sanitized - length kept) + (length c_it - length rest) in
        (if discarded = 0 \<and> (c = 45 \<or> c = 46 \<or> c = 95) then kept @ [c] else kept @ [45], rest))
     else if \<not> bidi_control U c \<and> c \<noteq> REPLACEMENT_CHARACTER then (sanitized @ [c], c_it)
     else if \<not> ends_with_dot_or_dash sanitized then (sanitized @ [45], c_it)
     else (sanitized, c_it))"

lemma sanitize_step_rest: "length (snd (sanitize_step U acc c cs)) \<le> length cs"
  by (simp add: sanitize_step_def Let_def length_dropWhile_le)

function sanitize :: "'iri iri_ops \<Rightarrow> uchar list \<Rightarrow> uchar list \<Rightarrow> uchar list" where
  "sanitize U sanitized [] = sanitized"
| "sanitize U sanitized (c # c_it) =
    sanitize U (fst (sanitize_step U sanitized c c_it)) (snd (sanitize_step U sanitized c c_it))"
  by pat_completeness auto
termination
  by (relation "measure (\<lambda>x. length (snd (snd x)))")
    (simp_all add: less_Suc_eq_le sanitize_step_rest)

text \<open>The text before sanitizing: host, path and query.\<close>

definition iri_text :: "'iri iri_ops \<Rightarrow> 'iri \<Rightarrow> string option" where
  "iri_text U canonical =
    (let result = (case iri_authority U canonical of
           Some domain \<Rightarrow> push_host U (au_host domain)
         | None \<Rightarrow> []) in
     case extend_decode_strip_invalid U result (iri_path U canonical) of
       None \<Rightarrow> None
     | Some result \<Rightarrow>
         let result = (if ends_with ''.kpar'' result then take (length result - 5) result
                       else result) in
         case iri_query U canonical of
           None \<Rightarrow> Some result
         | Some query \<Rightarrow> extend_decode_strip_invalid U (result @ ''-'') query)"

definition iri_to_filename_part :: "'iri iri_ops \<Rightarrow> 'iri \<Rightarrow> string option" where
  "iri_to_filename_part U iri =
    (let canonical = iri_normalize U iri in
     case parse_sysand_purl (iri_str U canonical) of
       Ok (Some (publisher, name)) \<Rightarrow> Some (publisher @ ''-'' @ name)
     | _ \<Rightarrow>
       (case iri_text U canonical of
          None \<Rightarrow> None
        | Some result \<Rightarrow>
            let trimmed = trim_matches (trimmed_char U) (chars_of result);
                sanitized = sanitize U [] trimmed;
                casefolded = fold_string U sanitized;
                nfc = nfc_normalize U casefolded;
                truncated = floor_chars MAX_IRI_LEN_BYTES nfc in
            Some (encode (trim_end_matches (trimmed_char U) truncated))))"

section \<open>The name of a version\<close>

definition push_version_char :: "'iri iri_ops \<Rightarrow> uchar \<Rightarrow> uchar list \<Rightarrow> uchar list" where
  "push_version_char U c sanitized =
    (if u_is_ascii c then
       if u_alphanumeric c then sanitized @ [c]
       else if \<not> ends_with_dot_or_dash sanitized
       then (if c = 46 then sanitized @ [46] else sanitized @ [45])
       else sanitized
     else if \<not> bidi_control U c \<and> c \<noteq> REPLACEMENT_CHARACTER then sanitized @ [c]
     else if \<not> ends_with_dot_or_dash sanitized then sanitized @ [45]
     else sanitized)"

definition sanitize_version :: "'iri iri_ops \<Rightarrow> uchar list \<Rightarrow> uchar list" where
  "sanitize_version U cs = fold (push_version_char U) cs []"

definition normalize_version :: "'iri iri_ops \<Rightarrow> string \<Rightarrow> string" where
  "normalize_version U version =
    (let trimmed = trim_matches (trimmed_char U) (chars_of version);
         casefolded = fold_string U trimmed;
         nfc = nfc_normalize U casefolded;
         sanitized = sanitize_version U nfc;
         truncated = floor_chars MAX_VERSION_LEN_BYTES sanitized in
     encode (trim_end_matches (trimmed_char U) truncated))"

section \<open>File name candidates\<close>

record IriVersionFilename =
  ivf_filename :: string
  ivf_version :: string
  ivf_iri_end_idx :: "32 word"
  ivf_disambiguation_number :: "32 word"

definition filename_new :: "'iri iri_ops \<Rightarrow> 'iri \<Rightarrow> string \<Rightarrow> IriVersionFilename option" where
  "filename_new U iri version =
    (case iri_to_filename_part U iri of
       None \<Rightarrow> None
     | Some part \<Rightarrow>
         let normalized_iri = part @ ''_'' in
         Some \<lparr>ivf_filename = normalized_iri, ivf_version = normalize_version U version,
           ivf_iri_end_idx = of_nat (length normalized_iri), ivf_disambiguation_number = 0\<rparr>)"

definition next_candidate :: "IriVersionFilename \<Rightarrow> IriVersionFilename \<times> string" where
  "next_candidate it =
    (let n = ivf_disambiguation_number it;
         filename = (if n = 0 then ivf_filename it @ ivf_version it
           else take (unat (ivf_iri_end_idx it)) (ivf_filename it)
                  @ display_nat (unat n) @ ''_'' @ ivf_version it) in
     (it\<lparr>ivf_filename := filename, ivf_disambiguation_number := n + 1\<rparr>, filename))"

section \<open>Lengths and characters of names\<close>

definition utf8_len :: "uchar list \<Rightarrow> nat" where
  "utf8_len cs = sum_list (map len_utf8 cs)"

lemma utf8_len_simps [simp]:
  "utf8_len [] = 0" "utf8_len (c # cs) = len_utf8 c + utf8_len cs"
  "utf8_len (xs @ ys) = utf8_len xs + utf8_len ys"
  by (simp_all add: utf8_len_def)

lemma encode_simps [simp]:
  "encode [] = []" "encode (c # cs) = encode_char c @ encode cs"
  "encode (xs @ ys) = encode xs @ encode ys"
  by (simp_all add: encode_def)

lemma length_encode [simp]: "length (encode cs) = utf8_len cs"
  by (induction cs) (auto simp: encode_char_def len_utf8_def)

lemma floor_chars_len: "utf8_len (floor_chars n cs) \<le> n"
proof (induction cs arbitrary: n)
  case (Cons c cs)
  have "utf8_len (floor_chars (n - len_utf8 c) cs) \<le> n - len_utf8 c" by (rule Cons.IH)
  then show ?case by auto
qed simp

lemma floor_chars_set: "c \<in> set (floor_chars n cs) \<Longrightarrow> c \<in> set cs"
  by (induction n cs rule: floor_chars.induct) (auto split: if_splits)

lemma trim_end_split: "\<exists>t. s = trim_end_matches f s @ t \<and> (\<forall>c \<in> set t. f c)"
proof (intro exI [of _ "rev (takeWhile f (rev s))"] conjI)
  show "s = trim_end_matches f s @ rev (takeWhile f (rev s))"
    unfolding trim_end_matches_def rev_append [symmetric] takeWhile_dropWhile_id by simp
  show "\<forall>c \<in> set (rev (takeWhile f (rev s))). f c"
    by (auto dest: set_takeWhileD)
qed

lemma trim_end_set: "c \<in> set (trim_end_matches f s) \<Longrightarrow> c \<in> set s"
  using trim_end_split [of s f] by (metis Un_iff set_append)

lemma trim_end_len: "utf8_len (trim_end_matches f s) \<le> utf8_len s"
  using trim_end_split [of s f] by (metis le_add1 utf8_len_simps(3))

lemma trim_end_last:
  "trim_end_matches f s \<noteq> [] \<Longrightarrow> \<not> f (last (trim_end_matches f s))"
  using hd_dropWhile [of f "rev s"] by (simp add: trim_end_matches_def last_rev)

text \<open>The bytes of an encoded character are the character itself, or all outside ASCII.\<close>

lemma encode_char_bytes:
  "b \<in> set (encode_char c) \<Longrightarrow> byte b < 128 \<Longrightarrow> c = byte b"
  "c < 128 \<Longrightarrow> encode_char c = [char_of c]"
proof -
  have m: "m mod 64 < 64" for m :: nat by simp
  have e: "c div 262144 mod 8 < 8" by simp
  show "b \<in> set (encode_char c) \<Longrightarrow> byte b < 128 \<Longrightarrow> c = byte b"
    using m [of c] m [of "c div 64"] m [of "c div 4096"] e
    by (auto simp: encode_char_def div_less_iff_less_mult split: if_splits)
  show "c < 128 \<Longrightarrow> encode_char c = [char_of c]" by (simp add: encode_char_def)
qed

lemma encode_ascii: "b \<in> set (encode cs) \<Longrightarrow> byte b < 128 \<Longrightarrow> byte b \<in> set cs"
  by (induction cs) (auto dest: encode_char_bytes(1))

lemma encode_char_not_Nil [simp]: "encode_char c \<noteq> []"
  by (simp add: encode_char_def)

lemma last_encode_ascii:
  assumes "cs \<noteq> []" and "byte (last (encode cs)) < 128"
  shows "last cs = byte (last (encode cs))"
proof -
  have "encode cs = encode (butlast cs) @ encode_char (last cs)"
    using assms(1) by (metis append_butlast_last_id append_Nil2 encode_simps(1,2,3))
  then have l: "last (encode cs) = last (encode_char (last cs))" by simp
  then have "last (encode cs) \<in> set (encode_char (last cs))" by simp
  then show ?thesis using assms(2) by (rule encode_char_bytes(1))
qed

text \<open>Sanitizing an IRI or a version leaves only harmless ASCII characters.\<close>

definition safe_char :: "uchar \<Rightarrow> bool" where
  "safe_char c \<longleftrightarrow> u_is_ascii c \<longrightarrow> u_alphanumeric c \<or> c = 45 \<or> c = 46 \<or> c = 95"

lemma list_all_trim_end: "list_all P s \<Longrightarrow> list_all P (trim_end_matches f s)"
  by (auto simp: list_all_iff dest: trim_end_set)

lemma sanitize_step_safe:
  "list_all safe_char acc \<Longrightarrow> list_all safe_char (fst (sanitize_step U acc c cs))"
  by (simp add: sanitize_step_def Let_def list_all_trim_end safe_char_def u_punct_def)

lemma sanitize_safe: "list_all safe_char acc \<Longrightarrow> list_all safe_char (sanitize U acc cs)"
  by (induction U acc cs rule: sanitize.induct) (simp_all add: sanitize_step_safe)

definition version_char :: "uchar \<Rightarrow> bool" where
  "version_char c \<longleftrightarrow> u_is_ascii c \<longrightarrow> u_alphanumeric c \<or> c = 45 \<or> c = 46"

lemma push_version_char_safe:
  "list_all version_char acc \<Longrightarrow> list_all version_char (push_version_char U c acc)"
  unfolding push_version_char_def by (simp add: version_char_def)

lemma sanitize_version_safe: "list_all version_char (sanitize_version U cs)"
proof -
  have "list_all version_char acc \<Longrightarrow> list_all version_char (fold (push_version_char U) cs acc)" for acc
    by (induction cs arbitrary: acc) (simp_all add: push_version_char_safe)
  then show ?thesis by (simp add: sanitize_version_def)
qed

section \<open>Percent decoding\<close>

lemma char_prefix_length: "char_prefix bs \<Longrightarrow> 0 < length bs \<and> length bs \<le> 3"
  by (auto simp: char_prefix_def split: list.splits)

text \<open>No part of a broken-off character is well-formed.\<close>

lemma char_prefix_not_valid:
  assumes "char_prefix bs" and "0 < k" and "k \<le> length bs"
  shows "\<not> utf8_valid (take k bs)"
proof -
  have nine: "byte_in l h a \<Longrightarrow> 128 \<le> l \<Longrightarrow> \<not> byte a < 128" for l h a
    by (simp add: byte_in_def)
  consider a where "bs = [a]" | a b where "bs = [a, b]" | a b c where "bs = [a, b, c]"
    using assms(1) by (auto simp: char_prefix_def split: list.splits)
  then show ?thesis
  proof cases
    case 1
    then show ?thesis using assms by (auto simp: char_prefix_def utf8_valid.simps byte_in_def le_Suc_eq)
  next
    case 2
    then have "k = 1 \<or> k = 2" using assms by auto
    then show ?thesis using assms(1) 2
      by (auto simp: char_prefix_def utf8_valid.simps byte_in_def utf8_two_def cont_byte_def)
  next
    case 3
    then have "k = 1 \<or> k = 2 \<or> k = 3" using assms by auto
    then show ?thesis using assms(1) 3
      by (auto simp: char_prefix_def utf8_valid.simps byte_in_def utf8_two_def utf8_three_def cont_byte_def)
  qed
qed

lemma from_utf8_prefix: "char_prefix bs \<Longrightarrow> from_utf8 bs = Incomplete"
  using char_prefix_not_valid [of bs "length bs"] char_prefix_length [of bs]
  by (auto simp: from_utf8_def list_ex_iff utf8_valid.simps intro!: bexI [of _ 0])

lemma from_utf8_valid [simp]: "from_utf8 bs = WellFormed \<longleftrightarrow> utf8_valid bs"
  by (simp add: from_utf8_def)

definition decode_buffer :: "string \<Rightarrow> bool" where
  "decode_buffer buf \<longleftrightarrow> buf = [] \<or> char_prefix buf"

lemma decode_buffer_length: "decode_buffer buf \<Longrightarrow> length buf \<le> 3"
  by (auto simp: decode_buffer_def dest: char_prefix_length)

text \<open>A buffer with one more byte is incomplete only as a broken-off character.\<close>

lemma from_utf8_buffer:
  assumes "decode_buffer buf" and "from_utf8 (buf @ [b]) = Incomplete"
  shows "char_prefix (buf @ [b])"
proof -
  have "\<exists>k \<in> set [0..<length (buf @ [b])]. utf8_valid (take k (buf @ [b])) \<and> char_prefix (drop k (buf @ [b]))"
    using assms(2) unfolding from_utf8_def list_ex_iff by (auto split: if_splits)
  then obtain k where k: "k \<le> length buf" "utf8_valid (take k (buf @ [b]))" "char_prefix (drop k (buf @ [b]))"
    by (metis atLeastLessThan_iff length_append_singleton less_Suc_eq_le set_upt)
  then have "k = 0"
    using assms(1) char_prefix_not_valid [of buf k] by (cases "k = 0") (auto simp: decode_buffer_def)
  then show ?thesis using k(3) by simp
qed

lemma push_decoded_buffer:
  assumes "decode_buffer buf"
  obtains res' buf' where "push_decoded res buf b = Some (res', buf')" "decode_buffer buf'"
proof -
  have l: "\<not> 4 \<le> length buf" using decode_buffer_length [OF assms] by simp
  have one: "from_utf8 [b] = Incomplete \<Longrightarrow> char_prefix [b]"
    using from_utf8_buffer [of "[]" b] by (simp add: decode_buffer_def)
  have "\<exists>res' buf'. push_decoded res buf b = Some (res', buf') \<and> decode_buffer buf'"
    using l one from_utf8_buffer [OF assms, of b]
    by (auto simp: push_decoded_def Let_def decode_buffer_def split: Utf8Check.splits)
  then show ?thesis by (elim exE conjE) (rule that; assumption)
qed

lemma decode_loop_no_panic: "decode_buffer buf \<Longrightarrow> \<exists>out. decode_loop res buf chunks = Some out"
proof (induction chunks arbitrary: res buf)
  case (Cons x xs)
  show ?case
  proof (cases x)
    case (Unencoded s)
    then show ?thesis using Cons.IH [of "[]"] by (simp add: decode_buffer_def)
  next
    case (PctDecoded b)
    obtain res' buf' where "push_decoded res buf b = Some (res', buf')" "decode_buffer buf'"
      by (rule push_decoded_buffer [OF Cons.prems])
    then show ?thesis using Cons.IH [of buf' res'] PctDecoded by simp
  qed
qed simp

text \<open>Well-formed runs of percent-encoded bytes are decoded without loss.\<close>

lemma push_decoded_prefix:
  "char_prefix (buf @ [b]) \<Longrightarrow> length buf < 4 \<Longrightarrow> push_decoded res buf b = Some (res, buf @ [b])"
  by (simp add: push_decoded_def Let_def from_utf8_prefix)

lemma push_decoded_done:
  "utf8_valid (buf @ [b]) \<Longrightarrow> length buf < 4 \<Longrightarrow> push_decoded res buf b = Some (res @ buf @ [b], [])"
  using from_utf8_valid [of "buf @ [b]"] by (simp add: push_decoded_def Let_def del: from_utf8_valid)

lemma decode_valid_run:
  assumes "utf8_valid run"
  shows "decode_loop res [] (map PctDecoded run @ rest) = decode_loop (res @ run) [] rest"
  using assms
proof (induction run arbitrary: res rule: utf8_valid.induct)
  case 1
  then show ?case by simp
next
  case (2 a r)
  consider "byte a < 128" "utf8_valid r"
    | b r2 where "r = b # r2" "\<not> byte a < 128" "utf8_two a b" "utf8_valid r2"
    | b c r3 where "r = b # c # r3" "\<not> byte a < 128" "\<not> utf8_two a b" "utf8_three a b c" "utf8_valid r3"
    | b c d r4 where "r = b # c # d # r4" "\<not> byte a < 128" "\<not> utf8_two a b" "\<not> utf8_three a b c"
        "utf8_four a b c d" "utf8_valid r4"
    using 2(5) by (auto simp: utf8_valid.simps(2) [of a r] split: if_splits list.splits)
  then show ?case
  proof cases
    case 1
    then show ?thesis using 2(1) [OF 1]
      by (simp add: push_decoded_done [of "[]"] utf8_valid.simps)
  next
    case c: 2
    have "char_prefix [a]" "utf8_valid [a, b]"
      using c by (auto simp: char_prefix_def utf8_two_def byte_in_def utf8_valid.simps)
    then show ?thesis using 2(2) [OF c(2) c(1) c(3,4)] c(1)
      by (simp add: push_decoded_done [of "[a]"] push_decoded_prefix [of "[]"])
  next
    case c: 3
    have "char_prefix [a]" "char_prefix [a, b]" "utf8_valid [a, b, c]"
      using c by (auto simp: char_prefix_def utf8_three_def byte_in_def utf8_valid.simps)
    then show ?thesis using 2(3) [OF c(2) c(1) c(3) refl c(4,5)] c(1)
      by (simp add: push_decoded_done [of "[a, b]"] push_decoded_prefix [of "[]"] push_decoded_prefix [of "[a]"])
  next
    case c: 4
    have "char_prefix [a]" "char_prefix [a, b]" "char_prefix [a, b, c]" "utf8_valid [a, b, c, d]"
      using c by (auto simp: char_prefix_def utf8_four_def byte_in_def utf8_valid.simps)
    then show ?thesis using 2(4) [OF c(2) c(1) c(3) refl c(4) refl c(5,6)] c(1)
      by (simp add: push_decoded_done [of "[a, b, c]"] push_decoded_prefix [of "[]"]
        push_decoded_prefix [of "[a]"] push_decoded_prefix [of "[a, b]"])
  qed
qed

fun runs_valid :: "string \<Rightarrow> DecodedChunk list \<Rightarrow> bool" where
  "runs_valid run [] = utf8_valid run"
| "runs_valid run (Unencoded s # chunks) = (utf8_valid run \<and> runs_valid [] chunks)"
| "runs_valid run (PctDecoded b # chunks) = runs_valid (run @ [b]) chunks"

fun chunk_bytes :: "DecodedChunk \<Rightarrow> string" where
  "chunk_bytes (Unencoded s) = s"
| "chunk_bytes (PctDecoded b) = [b]"

lemma decode_runs_valid:
  "runs_valid run chunks \<Longrightarrow>
    decode_loop res [] (map PctDecoded run @ chunks) = Some (res @ run @ concat (map chunk_bytes chunks))"
proof (induction run chunks arbitrary: res rule: runs_valid.induct)
  case (1 run)
  then show ?case using decode_valid_run [of run res "[]"] by simp
next
  case (2 run s chunks)
  then show ?case using 2(1) [of "res @ run @ s"] decode_valid_run [of run res "Unencoded s # chunks"] by simp
next
  case (3 run b chunks)
  then show ?case using 3(1) [of res] by simp
qed

section \<open>Bounds of names\<close>

lemma normalize_version_length: "length (normalize_version U v) \<le> 30"
  unfolding normalize_version_def Let_def length_encode
  by (rule order_trans [OF trim_end_len])
    (metis floor_chars_len MAX_VERSION_LEN_BYTES_def)

lemma normalize_version_chars:
  assumes "b \<in> set (normalize_version U v)" and "byte b < 128"
  shows "version_char (byte b)"
proof -
  have "byte b \<in> set (sanitize_version U
      (nfc_normalize U (fold_string U (trim_matches (trimmed_char U) (chars_of v)))))"
    using assms unfolding normalize_version_def Let_def
    by (blast dest: encode_ascii trim_end_set floor_chars_set)
  then show ?thesis using sanitize_version_safe by (metis list_all_iff)
qed

lemma purl_part_lengths:
  assumes "parse_sysand_purl s = Ok (Some (p, n))"
  shows "length p \<le> 50" "length n \<le> 50" "CHR ''/'' \<notin> set p" "CHR ''/'' \<notin> set n"
proof -
  have v: "is_valid_purl_publisher p" "is_valid_purl_name n"
    using parse_sysand_purl_SomeD [OF assms] by blast+
  then show "CHR ''/'' \<notin> set p" "CHR ''/'' \<notin> set n"
    by (auto simp: is_valid_purl_publisher_def is_valid_purl_name_def dest: valid_part_no_slash)
  show "length p \<le> 50" "length n \<le> 50"
    using v by (auto simp: is_valid_purl_publisher_def is_valid_purl_name_def is_valid_part_spec field_spec_def)
qed

lemma iri_text_no_panic: "\<exists>s. iri_text U canonical = Some s"
proof -
  have d: "\<exists>out. extend_decode_strip_invalid U res src = Some out" for res src
    unfolding extend_decode_strip_invalid_def
    by (rule decode_loop_no_panic) (simp add: decode_buffer_def)
  obtain r where "extend_decode_strip_invalid U (case iri_authority U canonical of
      Some domain \<Rightarrow> push_host U (au_host domain) | None \<Rightarrow> []) (iri_path U canonical) = Some r"
    using d by blast
  then show ?thesis using d by (simp add: iri_text_def Let_def split: option.splits)
qed

text \<open>The shapes of the name of an IRI.\<close>

lemma iri_part_cases:
  obtains (purl) p n where "parse_sysand_purl (iri_str U (iri_normalize U iri)) = Ok (Some (p, n))"
      "iri_to_filename_part U iri = Some (p @ ''-'' @ n)"
  | (other) cs where "iri_to_filename_part U iri = Some (encode (trim_end_matches (trimmed_char U)
      (floor_chars 120 (nfc_normalize U (fold_string U (sanitize U [] cs))))))"
proof -
  obtain s where s: "iri_text U (iri_normalize U iri) = Some s"
    by (rule exE [OF iri_text_no_panic])
  consider p n where "parse_sysand_purl (iri_str U (iri_normalize U iri)) = Ok (Some (p, n))"
    | "\<nexists>p n. parse_sysand_purl (iri_str U (iri_normalize U iri)) = Ok (Some (p, n))" by blast
  then show ?thesis
  proof cases
    case (1 p n)
    then show ?thesis by (intro purl [of p n]) (simp_all add: iri_to_filename_part_def Let_def)
  next
    case 2
    then show ?thesis
      by (intro other [of "trim_matches (trimmed_char U) (chars_of s)"])
        (auto simp: iri_to_filename_part_def Let_def s MAX_IRI_LEN_BYTES_def split: result.splits option.splits)
  qed
qed

lemma iri_part_length:
  obtains part where "iri_to_filename_part U iri = Some part" "length part \<le> 120"
proof (cases rule: iri_part_cases [of U iri])
  case (purl p n)
  then show ?thesis using purl_part_lengths [OF purl(1)] by (intro that) auto
next
  case (other cs)
  show ?thesis
    by (rule that [OF other]) (metis floor_chars_len length_encode order_trans trim_end_len)
qed

text \<open>Case folding and normalization of Unicode text do not introduce a slash.\<close>

definition slash_law :: "'iri iri_ops \<Rightarrow> bool" where
  "slash_law U \<longleftrightarrow> (\<forall>s. 47 \<notin> set s \<longrightarrow> 47 \<notin> set (fold_string U s) \<and> 47 \<notin> set (nfc_normalize U s))"

lemma byte_slash: "byte CHR ''/'' = 47"
  by (simp add: byte_def)

lemma iri_part_no_slash:
  assumes "slash_law U" and "iri_to_filename_part U iri = Some part"
  shows "CHR ''/'' \<notin> set part"
proof (cases rule: iri_part_cases [of U iri])
  case (purl p n)
  then show ?thesis using purl_part_lengths [OF purl(1)] assms(2) by auto
next
  case (other cs)
  have "47 \<notin> set (sanitize U [] cs)"
    using sanitize_safe [of "[]" U cs] by (auto simp: list_all_iff safe_char_def u_is_ascii_def u_alphanumeric_def)
  then have n: "47 \<notin> set (nfc_normalize U (fold_string U (sanitize U [] cs)))"
    using assms(1) by (simp add: slash_law_def)
  show ?thesis
  proof
    assume "CHR ''/'' \<in> set part"
    then have "byte CHR ''/'' \<in> set (nfc_normalize U (fold_string U (sanitize U [] cs)))"
      using other assms(2) by (auto dest!: encode_ascii trim_end_set floor_chars_set simp: byte_slash)
    then have "47 \<in> set (nfc_normalize U (fold_string U (sanitize U [] cs)))"
      by (simp add: byte_slash)
    then show False using n by blast
  qed
qed

section \<open>Candidates\<close>

definition nth_candidate :: "IriVersionFilename \<Rightarrow> nat \<Rightarrow> string" where
  "nth_candidate it n = snd (next_candidate (((fst \<circ> next_candidate) ^^ n) it))"

definition candidate_text :: "string \<Rightarrow> string \<Rightarrow> nat \<Rightarrow> string" where
  "candidate_text part v n = part @ ''_'' @ (if n = 0 then v else display_nat n @ ''_'' @ v)"

lemma candidate_text_inject [simp]:
  "candidate_text part v m = candidate_text part v n \<longleftrightarrow> m = n"
  by (auto simp: candidate_text_def)

definition candidate_state :: "string \<Rightarrow> string \<Rightarrow> nat \<Rightarrow> IriVersionFilename \<Rightarrow> bool" where
  "candidate_state part v n it \<longleftrightarrow>
    (\<exists>t. ivf_filename it = part @ ''_'' @ t \<and> (n = 0 \<longrightarrow> t = []))
     \<and> ivf_version it = v \<and> unat (ivf_iri_end_idx it) = length part + 1
     \<and> ivf_disambiguation_number it = of_nat n"

lemma unat_of_nat_u32: "n < 2 ^ 32 \<Longrightarrow> unat (of_nat n :: 32 word) = n"
  by (rule of_nat_inverse [OF refl]) simp

lemma next_candidate_state:
  assumes "candidate_state part v n it" and "n < 2 ^ 32"
  shows "snd (next_candidate it) = candidate_text part v n"
    and "candidate_state part v (Suc n) (fst (next_candidate it))"
proof -
  define d where "d = ivf_disambiguation_number it"
  have dn: "d = of_nat n" using assms(1) by (simp only: candidate_state_def d_def)
  have u: "unat d = n" unfolding dn by (rule unat_of_nat_u32 [OF assms(2)])
  have z: "d = 0 \<longleftrightarrow> n = 0" using unat_eq_zero [of d] unfolding u by blast
  obtain t where t: "ivf_filename it = part @ ''_'' @ t" "n = 0 \<Longrightarrow> t = []"
    "ivf_version it = v" "unat (ivf_iri_end_idx it) = length part + 1"
    using assms(1) unfolding candidate_state_def by blast
  have s: "snd (next_candidate it) = candidate_text part v n"
  proof (cases "n = 0")
    case True
    then have "d = 0" using z by blast
    then show ?thesis
      using True t(1,2,3) by (simp add: next_candidate_def candidate_text_def Let_def d_def)
  next
    case False
    then have "d \<noteq> 0" using z by blast
    then show ?thesis
      using False t u by (simp add: next_candidate_def candidate_text_def Let_def d_def)
  qed
  then show "snd (next_candidate it) = candidate_text part v n" .
  have f: "ivf_filename (fst (next_candidate it)) = candidate_text part v n"
    unfolding s [symmetric] by (simp add: next_candidate_def Let_def)
  have "ivf_disambiguation_number (fst (next_candidate it)) = of_nat (Suc n)"
    unfolding next_candidate_def Let_def d_def [symmetric] dn by simp
  moreover have "ivf_version (fst (next_candidate it)) = v"
    "ivf_iri_end_idx (fst (next_candidate it)) = ivf_iri_end_idx it"
    using t(3) by (simp_all add: next_candidate_def Let_def)
  moreover have "\<exists>t. candidate_text part v n = part @ ''_'' @ t"
    by (simp only: candidate_text_def append_assoc same_append_eq) blast
  ultimately show "candidate_state part v (Suc n) (fst (next_candidate it))"
    unfolding candidate_state_def f
    apply (intro conjI)
    subgoal by (elim exE) (rule exI, rule conjI, assumption, simp)
    subgoal by assumption
    subgoal using t(4) by argo
    subgoal by assumption
    done
qed

lemma filename_new_state:
  assumes "iri_to_filename_part U iri = Some part"
  obtains it where "filename_new U iri v = Some it"
    "candidate_state part (normalize_version U v) 0 it"
proof -
  have "length part \<le> 120" using iri_part_length [of U iri] assms by force
  then have "unat (of_nat (length part + 1) :: 32 word) = length part + 1"
    by (intro unat_of_nat_u32) simp
  then show ?thesis
    using assms by (intro that) (auto simp: filename_new_def candidate_state_def Let_def add.commute)
qed

lemma candidate_state_iter:
  assumes "candidate_state part v 0 it" and "n < 2 ^ 32"
  shows "candidate_state part v n (((fst \<circ> next_candidate) ^^ n) it)"
  using assms(2)
proof (induction n)
  case 0
  then show ?case using assms(1) by simp
next
  case (Suc n)
  then have n: "n < 2 ^ 32" by simp
  from next_candidate_state(2) [OF Suc.IH [OF n] n] show ?case by simp
qed

lemma nth_candidate_text:
  assumes "candidate_state part v 0 it" and "n < 2 ^ 32"
  shows "nth_candidate it n = candidate_text part v n"
  unfolding nth_candidate_def
  by (rule next_candidate_state(1) [OF candidate_state_iter [OF assms] assms(2)])

lemma candidate_text_length:
  assumes "length part \<le> 120" and "length v \<le> 30" and "n < 2 ^ 32"
  shows "length (candidate_text part v n) \<le> 162"
proof -
  have "length (display_nat n) \<le> Suc 9"
    using assms(3) by (intro length_display_nat) simp
  then show ?thesis using assms by (simp add: candidate_text_def)
qed

lemma candidate_text_component:
  assumes "CHR ''/'' \<notin> set part" and "CHR ''/'' \<notin> set v"
  shows "components (candidate_text part v n) = [Normal (candidate_text part v n)]"
proof -
  have d: "CHR ''/'' \<notin> set (display_nat n)"
    using display_nat_digits [of "CHR ''/''" n] by (auto simp: byte_slash)
  then have ns: "CHR ''/'' \<notin> set (candidate_text part v n)"
    using assms by (auto simp: candidate_text_def)
  then have sp: "split_on SLASH (candidate_text part v n) = [candidate_text part v n]"
    by (rule split_on_no_sep)
  have u: "CHR ''_'' \<in> set (candidate_text part v n)" by (simp add: candidate_text_def)
  then have ne: "candidate_text part v n \<noteq> ''.''" "candidate_text part v n \<noteq> ''..''"
    "candidate_text part v n \<noteq> []" by auto
  have "\<not> starts_with [SLASH] (candidate_text part v n)"
    using ns by (auto simp: starts_with_iff)
  then show ?thesis using sp ne by (simp add: components_def)
qed

lemma normalize_version_no_slash: "CHR ''/'' \<notin> set (normalize_version U v)"
  using normalize_version_chars [of "CHR ''/''" U v]
  by (auto simp: byte_slash version_char_def u_is_ascii_def u_alphanumeric_def)

lemma alphanumeric_byte: "u_alphanumeric (byte b) \<longleftrightarrow> is_ascii_alphanumeric b"
  by (auto simp: u_alphanumeric_def is_ascii_alphanumeric_def is_ascii_alphabetic_def ascii_simps)

lemma byte_is_dash: "byte b = 45 \<longleftrightarrow> b = CHR ''-''"
  using byte_inject [of b "CHR ''-''"] by (simp add: byte_def)

lemma byte_is_dot: "byte b = 46 \<longleftrightarrow> b = CHR ''.''"
  using byte_inject [of b "CHR ''.''"] by (simp add: byte_def)

lemma normalize_version_last:
  "normalize_version U v = [] \<or> is_ascii_alphanumeric (last (normalize_version U v))
    \<or> 128 \<le> byte (last (normalize_version U v))"
proof -
  obtain s where s: "normalize_version U v = encode (trim_end_matches (trimmed_char U) s)"
    by (simp add: normalize_version_def Let_def)
  define cs where "cs = trim_end_matches (trimmed_char U) s"
  show ?thesis
  proof (cases "cs = [] \<or> 128 \<le> byte (last (encode cs))")
    case True
    then show ?thesis by (auto simp: s cs_def)
  next
    case False
    then have l: "cs \<noteq> []" "byte (last (encode cs)) < 128" by auto
    have "\<not> trimmed_char U (last cs)"
      using trim_end_last l(1) unfolding cs_def by blast
    then have "u_alphanumeric (byte (last (encode cs)))"
      using last_encode_ascii [OF l] l(2) by (simp add: trimmed_char_def u_punct_def u_is_ascii_def)
    then show ?thesis by (simp add: s alphanumeric_byte flip: cs_def)
  qed
qed

lemma candidates_spec:
  assumes "slash_law U" and "n < 2 ^ 32"
  shows "\<exists>it. filename_new U iri v = Some it \<and> length (nth_candidate it n) \<le> 162
    \<and> components (nth_candidate it n) = [Normal (nth_candidate it n)]
    \<and> inj_on (nth_candidate it) {k. k < 2 ^ 32}"
proof -
  obtain part where part: "iri_to_filename_part U iri = Some part" "length part \<le> 120"
    by (rule iri_part_length)
  obtain it where it: "filename_new U iri v = Some it"
    "candidate_state part (normalize_version U v) 0 it"
    by (rule filename_new_state [OF part(1)])
  note tx = nth_candidate_text [OF it(2)]
  have "inj_on (nth_candidate it) {k. k < 2 ^ 32}" by (rule inj_onI) (simp add: tx)
  then show ?thesis
    using it(1) tx [OF assms(2)] candidate_text_length [OF part(2) normalize_version_length [of U v] assms(2)]
      candidate_text_component [OF iri_part_no_slash [OF assms(1) part(1)]
        normalize_version_no_slash [of U v], of n]
    by (intro exI [of _ it]) simp
qed

section \<open>Properties\<close>

definition sample_ops :: "string iri_ops" where
  "sample_ops = \<lparr>iri_normalize = (\<lambda>s. s), iri_str = (\<lambda>s. s), iri_scheme = (\<lambda>_. ''urn''),
    iri_authority = (\<lambda>_. None), iri_path = (\<lambda>s. s), iri_query = (\<lambda>_. None),
    pct_decode = (\<lambda>s. map PctDecoded s), domain_to_ascii = Some, punycode_decode = (\<lambda>_. None),
    fold_string = (\<lambda>s. s), nfc_normalize = (\<lambda>s. s), ignorable = (\<lambda>_. False),
    bidi_control = (\<lambda>_. False)\<rparr>"

text \<open>C27: file names for any IRI and version. The name generator never fails; each of its
  \<open>2 ^ 32\<close> candidates has at most 162 bytes and is one ordinary path component (no slash, not
  \<^verbatim>\<open>.\<close> or \<^verbatim>\<open>..\<close>), and no two candidates are equal.\<close>

theorem filename_candidates:
  assumes "slash_law U" and "n < 2 ^ 32"
  shows "\<exists>it. filename_new U iri v = Some it \<and> length (nth_candidate it n) \<le> 162
    \<and> components (nth_candidate it n) = [Normal (nth_candidate it n)]
    \<and> inj_on (nth_candidate it) {k. k < 2 ^ 32}"
  using assms by (rule candidates_spec)

lemma sample_slash_law: "slash_law sample_ops"
  by (simp add: slash_law_def sample_ops_def)

theorem filename_candidates_witness:
  "\<exists>it. filename_new sample_ops ''urn:kpar:sample'' ''1.2'' = Some it
    \<and> length (nth_candidate it 7) \<le> 162
    \<and> components (nth_candidate it 7) = [Normal (nth_candidate it 7)]
    \<and> inj_on (nth_candidate it) {k. k < 2 ^ 32}"
  by (rule filename_candidates [OF sample_slash_law]) simp

text \<open>the version part of a file name has at most 30 bytes, its ASCII characters are letters,
  digits, dots and dashes only, and it does not end in a dot or dash.\<close>

theorem normalize_version_spec:
  "length (normalize_version U v) \<le> 30
   \<and> list_all (\<lambda>b. 128 \<le> byte b \<or> is_ascii_alphanumeric b \<or> b = CHR ''.'' \<or> b = CHR ''-'')
        (normalize_version U v)
   \<and> (normalize_version U v = [] \<or> is_ascii_alphanumeric (last (normalize_version U v))
      \<or> 128 \<le> byte (last (normalize_version U v)))"
proof (intro conjI)
  show "length (normalize_version U v) \<le> 30" by (rule normalize_version_length)
  have "128 \<le> byte b \<or> is_ascii_alphanumeric b \<or> b = CHR ''.'' \<or> b = CHR ''-''"
    if "b \<in> set (normalize_version U v)" for b
    using normalize_version_chars [OF that]
    by (cases "byte b < 128")
      (auto simp: version_char_def u_is_ascii_def alphanumeric_byte byte_is_dash byte_is_dot)
  then show "list_all (\<lambda>b. 128 \<le> byte b \<or> is_ascii_alphanumeric b \<or> b = CHR ''.'' \<or> b = CHR ''-'')
      (normalize_version U v)"
    by (simp add: list_all_iff)
  show "normalize_version U v = [] \<or> is_ascii_alphanumeric (last (normalize_version U v))
      \<or> 128 \<le> byte (last (normalize_version U v))"
    by (rule normalize_version_last)
qed

text \<open>percent decoding. The four-byte buffer is never overrun, whatever bytes are encoded,
  and where every run of encoded bytes is well-formed UTF-8 nothing is lost.\<close>

theorem decode_strip_invalid_spec:
  "\<exists>out. extend_decode_strip_invalid U res src = Some out \<and>
    (runs_valid [] (pct_decode U src) \<longrightarrow>
      out = res @ concat (map chunk_bytes (pct_decode U src)))"
proof -
  have "decode_buffer []" by (simp add: decode_buffer_def)
  then obtain out where o: "decode_loop res [] (pct_decode U src) = Some out"
    using decode_loop_no_panic by blast
  then show ?thesis
    using decode_runs_valid [of "[]" "pct_decode U src" res]
    by (auto simp: extend_decode_strip_invalid_def)
qed

theorem decode_strip_invalid_spec_witness:
  "extend_decode_strip_invalid sample_ops ''host-'' [char_of (195::nat), char_of (169::nat), CHR ''x'']
     = Some (''host-'' @ [char_of (195::nat), char_of (169::nat), CHR ''x''])"
proof -
  have "runs_valid [] (pct_decode sample_ops [char_of (195::nat), char_of (169::nat), CHR ''x''])"
    by code_simp
  then show ?thesis
    using decode_strip_invalid_spec [of sample_ops "''host-''"
        "[char_of (195::nat), char_of (169::nat), CHR ''x'']"]
    by (auto simp: sample_ops_def)
qed

text \<open>The code sanitizes ASCII punctuation before it normalizes Unicode text, and NFC maps
  U+037E, the Greek question mark, to a semicolon: the semicolon reaches the file name.\<close>

definition greek_ops :: "string iri_ops" where
  "greek_ops = sample_ops\<lparr>nfc_normalize := map (\<lambda>c. if c = 894 then 59 else c)\<rparr>"

definition greek_iri :: string where
  "greek_iri = ''a'' @ [char_of (205::nat), char_of (190::nat)] @ ''b''"

lemma greek_iri_steps:
  "parse_sysand_purl greek_iri = Ok None"
  "iri_text greek_ops greek_iri = Some greek_iri"
  "chars_of greek_iri = [97, 894, 98]"
proof -
  show "parse_sysand_purl greek_iri = Ok None" by code_simp
  have "runs_valid [] (map PctDecoded greek_iri)" by code_simp
  from decode_runs_valid [OF this, of "[]"]
  have "decode_loop [] [] (map PctDecoded greek_iri) = Some greek_iri"
    by (simp add: comp_def)
  moreover have "\<not> ends_with ''.kpar'' greek_iri" by code_simp
  ultimately show "iri_text greek_ops greek_iri = Some greek_iri"
    by (simp add: iri_text_def extend_decode_strip_invalid_def greek_ops_def sample_ops_def)
  show "chars_of greek_iri = [97, 894, 98]" by (simp add: greek_iri_def byte_def)
qed

theorem nfc_reintroduces_punctuation:
  "iri_to_filename_part greek_ops greek_iri = Some ''a;b''"
proof -
  have ops: "iri_normalize greek_ops = (\<lambda>s. s)" "iri_str greek_ops = (\<lambda>s. s)"
    "fold_string greek_ops = (\<lambda>s. s)" "ignorable greek_ops = (\<lambda>_. False)"
    "bidi_control greek_ops = (\<lambda>_. False)"
    "nfc_normalize greek_ops = map (\<lambda>c. if c = 894 then 59 else c)"
    by (simp_all add: greek_ops_def sample_ops_def)
  have keep: "\<not> trimmed_char greek_ops 97" "\<not> trimmed_char greek_ops 98" "\<not> u_punct 97"
    "\<not> u_punct 98" "\<not> u_punct 894" "\<not> u_whitespace 97" "\<not> u_whitespace 98" "\<not> u_whitespace 894"
    by (simp_all add: trimmed_char_def ops u_punct_def u_is_ascii_def u_alphanumeric_def
        u_control_def u_whitespace_def)
  have "sanitize greek_ops [] [97, 894, 98] = [97, 894, 98]"
    by (simp add: sanitize_step_def keep ops REPLACEMENT_CHARACTER_def)
  moreover have tx: "char_of (97::nat) = CHR ''a''" "char_of (59::nat) = CHR '';''"
    "char_of (98::nat) = CHR ''b''" by code_simp+
  ultimately show ?thesis
    by (simp add: iri_to_filename_part_def ops greek_iri_steps trim_matches_def
        trim_end_matches_def keep MAX_IRI_LEN_BYTES_def len_utf8_def encode_char_def
        del: sanitize.simps)
qed

end
