(* ===== verification/MoveFiles.thy ===== *)
theory MoveFiles
  imports Prelude
begin

text \<open>
  Moving files and directories with rollback (\<^verbatim>\<open>core/src/env/local_directory/utils.rs\<close>).

  The file system is a map from the paths the code addresses to their contents, a file or a
  directory tree. Every primitive operation may fail: the record \<open>io\<close> tells for each point of
  time, counted by \<open>tick\<close>, how a rename turns out, whether another operation fails, and what a
  failed copy or removal leaves behind. The theorem on \<open>try_move_files\<close>: it is all or nothing,
  unless a move crosses devices and fails half-way or the rollback itself fails.
\<close>

section \<open>The file system\<close>

datatype item = FileItem string | DirItem "(string \<times> item) list"

datatype RenameOutcome = RenameOk | CrossesDevices | RenameError

record io =
  rename_outcome :: "nat \<Rightarrow> RenameOutcome"
  op_fails :: "nat \<Rightarrow> bool"
  partial_copy :: "nat \<Rightarrow> string option"
  partial_remove :: "nat \<Rightarrow> item \<Rightarrow> item option"

record world =
  files :: "string \<Rightarrow> item option"
  tick :: nat

datatype FsIoError =
    Canonicalize string
  | Absolute string
  | MkDir string
  | OpenFile string
  | Metadata string
  | MetadataHandle
  | CreateTempFile
  | MkTempDir
  | WriteFile string
  | ReadDir string
  | ReadFile string
  | ReadFileHandle
  | Move string string
  | CreateFile string
  | CopyFile string string
  | RmFile string
  | RmDir string
  | CurrentDir
  | IsFile string
  | IsDir string
  | Seek string nat

definition path_join :: "string \<Rightarrow> string \<Rightarrow> string" where
  "path_join p name = p @ ''/'' @ name"

definition path_exists :: "world \<Rightarrow> string \<Rightarrow> bool" where
  "path_exists w p \<longleftrightarrow> files w p \<noteq> None"

text \<open>What \<^verbatim>\<open>rename\<close> may replace: a file by a file, an empty directory by a directory.\<close>

fun replaces :: "item \<Rightarrow> item option \<Rightarrow> bool" where
  "replaces x None = True"
| "replaces (FileItem _) (Some (FileItem _)) = True"
| "replaces (DirItem _) (Some (DirItem [])) = True"
| "replaces _ _ = False"

definition fs_rename :: "io \<Rightarrow> string \<Rightarrow> string \<Rightarrow> world \<Rightarrow> world \<times> RenameOutcome" where
  "fs_rename io src dst w =
    (let w' = w\<lparr>tick := tick w + 1\<rparr> in
     case rename_outcome io (tick w) of
       RenameOk \<Rightarrow>
         (case files w src of
            None \<Rightarrow> (w', RenameError)
          | Some x \<Rightarrow>
              if src = dst then (w', RenameOk)
              else if \<not> replaces x (files w dst) then (w', RenameError)
              else (w'\<lparr>files := (files w)(src := None, dst := Some x)\<rparr>, RenameOk))
     | out \<Rightarrow> (w', out))"

fun is_dir_item :: "item option \<Rightarrow> bool" where
  "is_dir_item (Some (DirItem _)) = True"
| "is_dir_item _ = False"

text \<open>Copying the contents of a file to a place where nothing or a file is. Returned are the
  time, what is at the destination then, and the error.\<close>

definition copy_file ::
  "io \<Rightarrow> string \<Rightarrow> string \<Rightarrow> string \<Rightarrow> item option \<Rightarrow> nat \<Rightarrow> nat \<times> item option \<times> FsIoError option" where
  "copy_file io src dst content there n =
    (if is_dir_item there then (n + 1, there, Some (CopyFile src dst))
     else if op_fails io n
     then (n + 1,
           (case partial_copy io n of None \<Rightarrow> there | Some part \<Rightarrow> Some (FileItem part)),
           Some (CopyFile src dst))
     else (n + 1, Some (FileItem content), None))"

section \<open>Copying a directory\<close>

fun copy_dir_recursive ::
  "io \<Rightarrow> string \<Rightarrow> string \<Rightarrow> (string \<times> item) list \<Rightarrow> item option \<Rightarrow> nat
    \<Rightarrow> nat \<times> item option \<times> FsIoError option"
and copy_entries ::
  "io \<Rightarrow> string \<Rightarrow> string \<Rightarrow> (string \<times> item) list \<Rightarrow> nat
    \<Rightarrow> nat \<times> (string \<times> item) list \<times> FsIoError option" where
  "copy_dir_recursive io src dst es there n =
    (if op_fails io n \<or> there \<noteq> None then (n + 1, there, Some (MkDir dst))
     else if op_fails io (n + 1) then (n + 2, Some (DirItem []), Some (ReadDir src))
     else (case copy_entries io src dst es (n + 2) of
             (n', done_es, err) \<Rightarrow> (n', Some (DirItem done_es), err)))"
| "copy_entries io src dst [] n = (n, [], None)"
| "copy_entries io src dst ((name, x) # es) n =
    (if op_fails io n then (n + 1, [], Some (ReadDir src))
     else
       (case (case x of
                DirItem sub \<Rightarrow>
                  copy_dir_recursive io (path_join src name) (path_join dst name) sub None (n + 1)
              | FileItem c \<Rightarrow>
                  copy_file io (path_join src name) (path_join dst name) c None (n + 1)) of
          (n', left, Some e) \<Rightarrow> (n', (case left of None \<Rightarrow> [] | Some y \<Rightarrow> [(name, y)]), Some e)
        | (n', left, None) \<Rightarrow>
            (case copy_entries io src dst es n' of
               (n'', done_es, err) \<Rightarrow>
                 (n'', (case left of None \<Rightarrow> [] | Some y \<Rightarrow> [(name, y)]) @ done_es, err))))"

section \<open>Moving one item\<close>

definition remove_item :: "io \<Rightarrow> string \<Rightarrow> item \<Rightarrow> FsIoError \<Rightarrow> world \<Rightarrow> world \<times> (unit, FsIoError) result" where
  "remove_item io p x err w =
    (if op_fails io (tick w)
     then (w\<lparr>tick := tick w + 1, files := (files w)(p := partial_remove io (tick w) x)\<rparr>, Err err)
     else (w\<lparr>tick := tick w + 1, files := (files w)(p := None)\<rparr>, Ok ()))"

definition move_fs_item :: "io \<Rightarrow> string \<Rightarrow> string \<Rightarrow> world \<Rightarrow> world \<times> (unit, FsIoError) result" where
  "move_fs_item io src dst w =
    (case fs_rename io src dst w of
       (w1, RenameOk) \<Rightarrow> (w1, Ok ())
     | (w1, RenameError) \<Rightarrow> (w1, Err (Move src dst))
     | (w1, CrossesDevices) \<Rightarrow>
         (let w2 = w1\<lparr>tick := tick w1 + 1\<rparr> in
          if op_fails io (tick w1) then (w2, Err (Metadata src))
          else
            (case files w2 src of
               None \<Rightarrow> (w2, Err (Metadata src))
             | Some x \<Rightarrow>
                 (case (case x of
                          DirItem es \<Rightarrow> copy_dir_recursive io src dst es (files w2 dst) (tick w2)
                        | FileItem c \<Rightarrow> copy_file io src dst c (files w2 dst) (tick w2)) of
                    (n, there, err) \<Rightarrow>
                      let w3 = w2\<lparr>tick := n, files := (files w2)(dst := there)\<rparr> in
                      (case err of
                         Some e \<Rightarrow> (w3, Err e)
                       | None \<Rightarrow>
                           remove_item io src x
                             (case x of DirItem _ \<Rightarrow> RmDir src | FileItem _ \<Rightarrow> RmFile src) w3)))))"

section \<open>Moving a batch with rollback\<close>

datatype TryMoveError =
    RecoveredIO FsIoError
  | CatastrophicIO FsIoError FsIoError

text \<open>The loops of the function: move each item of a list, skipping those that do not exist if
  \<open>guarded\<close>, up to the first failure.\<close>

fun move_all :: "io \<Rightarrow> bool \<Rightarrow> (string \<times> string) list \<Rightarrow> world \<Rightarrow> world \<times> FsIoError option" where
  "move_all io guarded [] w = (w, None)"
| "move_all io guarded ((a, b) # ps) w =
    (if guarded \<and> \<not> path_exists w a then move_all io guarded ps w
     else (case move_fs_item io a b w of
             (w', Ok _) \<Rightarrow> move_all io guarded ps w'
           | (w', Err e) \<Rightarrow> (w', Some e)))"

text \<open>The recovery loops, each run only if those before it succeed.\<close>

fun recover :: "io \<Rightarrow> FsIoError \<Rightarrow> (string \<times> string) list list \<Rightarrow> world \<Rightarrow> world \<times> TryMoveError" where
  "recover io cause [] w = (w, RecoveredIO cause)"
| "recover io cause (ps # pss) w =
    (case move_all io True ps w of
       (w', None) \<Rightarrow> recover io cause pss w'
     | (w', Some err) \<Rightarrow> (w', CatastrophicIO err cause))"

definition temp_name :: "string \<Rightarrow> string \<Rightarrow> nat \<Rightarrow> string" where
  "temp_name tempdir kind i = path_join tempdir (kind @ display_nat i)"

definition temp_names :: "string \<Rightarrow> string \<Rightarrow> 'a list \<Rightarrow> string list" where
  "temp_names tempdir kind paths = map (temp_name tempdir kind) [0..<length paths]"

text \<open>Leaving the function deletes the temporary directory.\<close>

definition drop_tempdir :: "string \<Rightarrow> world \<Rightarrow> world" where
  "drop_tempdir tempdir w =
    w\<lparr>files := (\<lambda>p. if starts_with (path_join tempdir []) p then None else files w p)\<rparr>"

definition move_phases ::
  "io \<Rightarrow> string \<Rightarrow> (string \<times> string) list \<Rightarrow> world \<Rightarrow> world \<times> (unit, TryMoveError) result" where
  "move_phases io tempdir paths w =
    (let src_paths = temp_names tempdir ''src_'' paths;
         trg_paths = temp_names tempdir ''trg_'' paths;
         srcs = map fst paths;
         trgs = map snd paths in
     case move_all io False (zip srcs src_paths) w of
       (w1, Some cause) \<Rightarrow>
         map_prod id Err (recover io cause [zip src_paths srcs] w1)
     | (w1, None) \<Rightarrow>
        (case move_all io True (zip trgs trg_paths) w1 of
           (w2, Some cause) \<Rightarrow>
             map_prod id Err (recover io cause [zip trg_paths trgs, zip src_paths srcs] w2)
         | (w2, None) \<Rightarrow>
            (case move_all io False (zip src_paths trgs) w2 of
               (w3, Some cause) \<Rightarrow>
                 map_prod id Err
                   (recover io cause [zip trgs src_paths, zip trg_paths trgs, zip src_paths srcs] w3)
             | (w3, None) \<Rightarrow> (w3, Ok ()))))"

definition try_move_files ::
  "io \<Rightarrow> string option \<Rightarrow> (string \<times> string) list \<Rightarrow> world \<Rightarrow> world \<times> (unit, TryMoveError) result" where
  "try_move_files io tempdir paths w =
    (case tempdir of
       None \<Rightarrow> (w, Err (RecoveredIO CreateTempFile))
     | Some d \<Rightarrow> map_prod (drop_tempdir d) id (move_phases io d paths w))"

section \<open>Cleaning a directory\<close>

text \<open>\<open>clean_dir\<close> removes what it can and ignores failures. What remains of the entries of a
  directory, and the time.\<close>

fun clean_entries :: "io \<Rightarrow> (string \<times> item) list \<Rightarrow> nat \<Rightarrow> (string \<times> item) list \<times> nat"
and clean_dir :: "io \<Rightarrow> (string \<times> item) list \<Rightarrow> nat \<Rightarrow> (string \<times> item) list \<times> nat" where
  "clean_dir io es n = (if op_fails io n then (es, n + 1) else clean_entries io es (n + 1))"
| "clean_entries io [] n = ([], n)"
| "clean_entries io ((name, x) # es) n =
    (case (if op_fails io n then ([(name, x)], n + 1)
           else (case x of
               DirItem sub \<Rightarrow>
                 (case clean_dir io sub (n + 1) of
                    (rest, n') \<Rightarrow>
                      if op_fails io n' \<or> rest \<noteq> [] then ([(name, DirItem rest)], n' + 1)
                      else ([], n' + 1))
             | FileItem c \<Rightarrow>
                 if op_fails io (n + 1) then ([(name, x)], n + 2) else ([], n + 2))) of
       (kept, n') \<Rightarrow> (case clean_entries io es n' of (kept', n'') \<Rightarrow> (kept @ kept', n'')))"

section \<open>Atomic moves\<close>

text \<open>A move is atomic if it either moves the item to a free place or leaves all files alone.\<close>

definition atomic_move :: "io \<Rightarrow> bool" where
  "atomic_move io \<longleftrightarrow>
    (\<forall>w src dst. files w dst = None \<longrightarrow>
      (case move_fs_item io src dst w of
         (w', Ok _) \<Rightarrow> (\<exists>x. files w src = Some x \<and> files w' = (files w)(src := None, dst := Some x))
       | (w', Err _) \<Rightarrow> files w' = files w))"

lemma fs_rename_atomic:
  assumes "files w dst = None" and "fs_rename io src dst w = (w', out)"
  shows "(out = RenameOk \<longrightarrow> (\<exists>x. files w src = Some x
      \<and> files w' = (files w)(src := None, dst := Some x)))
    \<and> (out \<noteq> RenameOk \<longrightarrow> files w' = files w)"
  using assms by (auto simp: fs_rename_def Let_def split: RenameOutcome.splits option.splits if_splits)

lemma fs_rename_crosses:
  "fs_rename io src dst w = (w', CrossesDevices) \<Longrightarrow> rename_outcome io (tick w) = CrossesDevices"
  by (auto simp: fs_rename_def Let_def split: RenameOutcome.splits option.splits if_splits)

lemma same_device_atomic:
  assumes "\<forall>n. rename_outcome io n \<noteq> CrossesDevices"
  shows "atomic_move io"
  unfolding atomic_move_def
proof (intro allI impI)
  fix w :: world and src dst
  assume "files w dst = None"
  obtain w' out where r: "fs_rename io src dst w = (w', out)" by force
  have "out \<noteq> CrossesDevices" using fs_rename_crosses r assms by blast
  then show "case move_fs_item io src dst w of
      (w', Ok _) \<Rightarrow> \<exists>x. files w src = Some x \<and> files w' = (files w)(src := None, dst := Some x)
    | (w', Err _) \<Rightarrow> files w' = files w"
    using fs_rename_atomic [OF \<open>files w dst = None\<close> r] r
    by (cases out) (auto simp: move_fs_item_def)
qed

text \<open>Where no operation fails, a directory is copied completely, so that moves across devices
  are atomic as well.\<close>

lemma copy_entries_complete:
  assumes "\<forall>n. \<not> op_fails io n"
    and "\<forall>(name, x) \<in> set es. \<forall>sub. x = DirItem sub \<longrightarrow>
      (\<forall>src dst n. \<exists>n'. copy_dir_recursive io src dst sub None n = (n', Some x, None))"
  shows "\<exists>n'. copy_entries io src dst es n = (n', es, None)"
  using assms(2)
proof (induction es arbitrary: n)
  case Nil
  then show ?case by simp
next
  case (Cons e es)
  obtain name x where e: "e = (name, x)" by force
  have ih: "\<exists>n'. copy_entries io src dst es n = (n', es, None)" for n
    by (rule Cons.IH) (use Cons.prems in auto)
  show ?case
  proof (cases x)
    case (FileItem c)
    then show ?thesis using ih [of "n + 2"] assms(1) e by (auto simp: copy_file_def)
  next
    case (DirItem sub)
    obtain n' where n': "copy_dir_recursive io (path_join src name) (path_join dst name) sub None (n + 1)
        = (n', Some x, None)"
      using Cons.prems e DirItem by fastforce
    show ?thesis using ih [of n'] n' assms(1) e DirItem
      by (auto simp del: copy_dir_recursive.simps)
  qed
qed

lemma copy_dir_complete:
  assumes "\<forall>n. \<not> op_fails io n"
  shows "x = DirItem sub \<Longrightarrow> \<exists>n'. copy_dir_recursive io src dst sub None n = (n', Some x, None)"
proof (induction x arbitrary: sub src dst n)
  case (DirItem es)
  have "\<exists>n'. copy_entries io src dst es m = (n', es, None)" for m
    by (rule copy_entries_complete [OF assms]) (use DirItem.IH in fastforce)
  then obtain n' where "copy_entries io src dst es (n + 2) = (n', es, None)" by blast
  then show ?case using assms DirItem.prems by (auto simp del: copy_entries.simps)
qed simp

lemma no_failure_atomic:
  assumes "\<forall>n. \<not> op_fails io n"
  shows "atomic_move io"
  unfolding atomic_move_def
proof (intro allI impI)
  fix w :: world and src dst
  assume free: "files w dst = None"
  obtain w' out where r: "fs_rename io src dst w = (w', out)" by force
  note a = fs_rename_atomic [OF free r]
  show "case move_fs_item io src dst w of
      (w', Ok _) \<Rightarrow> \<exists>x. files w src = Some x \<and> files w' = (files w)(src := None, dst := Some x)
    | (w', Err _) \<Rightarrow> files w' = files w"
  proof (cases "out = CrossesDevices")
    case False
    then show ?thesis using a r by (cases out) (auto simp: move_fs_item_def)
  next
    case True
    then have w': "files w' = files w" using a by simp
    show ?thesis
    proof (cases "files w src")
      case None
      then show ?thesis using r True w' by (simp add: move_fs_item_def Let_def)
    next
      case (Some x)
      then have ne: "src \<noteq> dst" using free by auto
      show ?thesis
      proof (cases x)
        case (FileItem c)
        then show ?thesis using r True w' Some free assms ne
          by (auto simp: move_fs_item_def Let_def copy_file_def remove_item_def)
      next
        case (DirItem es)
        obtain n' where "copy_dir_recursive io src dst es None (tick w' + 1) = (n', Some x, None)"
          using copy_dir_complete [OF assms DirItem] by blast
        then show ?thesis using r True w' Some free assms ne DirItem
          by (auto simp: move_fs_item_def Let_def remove_item_def simp del: copy_dir_recursive.simps)
      qed
    qed
  qed
qed

section \<open>Batches of moves\<close>

text \<open>The files after the moves \<open>M\<close> out of \<open>f\<close>.\<close>

definition moved :: "(string \<Rightarrow> item option) \<Rightarrow> (string \<times> string) list \<Rightarrow> string \<Rightarrow> item option" where
  "moved f M p =
    (case map_of (map prod.swap M) p of
       Some a \<Rightarrow> f a
     | None \<Rightarrow> if p \<in> fst ` set M then None else f p)"

text \<open>A batch from \<open>f\<close>: the destinations are distinct and free, and no source.\<close>

definition batch :: "(string \<Rightarrow> item option) \<Rightarrow> (string \<times> string) list \<Rightarrow> bool" where
  "batch f ps \<longleftrightarrow> distinct (map snd ps) \<and> snd ` set ps \<inter> fst ` set ps = {} \<and> (\<forall>b \<in> snd ` set ps. f b = None)"

definition done_batch :: "(string \<Rightarrow> item option) \<Rightarrow> (string \<times> string) list \<Rightarrow> bool" where
  "done_batch f M \<longleftrightarrow> distinct (map fst M) \<and> (\<forall>a \<in> fst ` set M. f a \<noteq> None)"

lemma map_of_swap_None: "map_of (map prod.swap M) p = None \<longleftrightarrow> p \<notin> snd ` set M"
  by (force simp: map_of_eq_None_iff)

lemma map_of_swap_Some:
  "distinct (map snd M) \<Longrightarrow> (a, b) \<in> set M \<Longrightarrow> map_of (map prod.swap M) b = Some a"
  by (rule map_of_is_SomeI) (force simp: comp_def)+

lemma moved_Nil [simp]: "moved f [] = f"
  by (simp add: moved_def fun_eq_iff)

lemma moved_other: "p \<notin> snd ` set M \<Longrightarrow> moved f M p = (if p \<in> fst ` set M then None else f p)"
  using map_of_swap_None [of M p] by (simp add: moved_def)

lemma moved_target: "distinct (map snd M) \<Longrightarrow> (a, b) \<in> set M \<Longrightarrow> moved f M b = f a"
  by (simp add: moved_def map_of_swap_Some)

lemma batch_filter: "batch f (ps @ qs) \<Longrightarrow> batch f (ps @ filter P qs)"
  by (auto simp: batch_def distinct_map_filter)

lemma batch_Cons: "batch f (ps @ q # qs) \<Longrightarrow> batch f (ps @ qs)"
  by (auto simp: batch_def)

lemma moved_snoc:
  assumes "batch f (M @ [(a, b)])" and "a \<notin> fst ` set M" and "f a = Some x"
  shows "moved f (M @ [(a, b)]) = (moved f M)(a := None, b := Some x)"
proof
  fix p
  have d: "b \<notin> snd ` set M" "a \<noteq> b" "a \<notin> snd ` set M"
    using assms(1) by (auto simp: batch_def)
  show "moved f (M @ [(a, b)]) p = ((moved f M)(a := None, b := Some x)) p"
  proof (cases "p = b")
    case True
    then show ?thesis using assms moved_target [of "M @ [(a, b)]" a b f] by (simp add: batch_def)
  next
    case False
    then show ?thesis using d map_of_swap_None [of M a]
      by (auto simp: moved_def map_add_def split: option.splits)
  qed
qed

lemma moved_undo:
  assumes "batch f ((a, b) # M)" and "done_batch f ((a, b) # M)" and "f a = Some x"
  shows "(moved f ((a, b) # M))(b := None, a := Some x) = moved f M"
proof
  fix p
  have d: "b \<notin> snd ` set M" "a \<noteq> b" "a \<notin> snd ` set M" "a \<notin> fst ` set M" "b \<notin> fst ` set M" "f b = None"
    using assms by (auto simp: batch_def done_batch_def)
  show "((moved f ((a, b) # M))(b := None, a := Some x)) p = moved f M p"
    using d assms(3) moved_other [of a M f] moved_other [of b M f]
    by (auto simp: moved_def split: option.splits)
qed

lemma moved_None_append:
  assumes "p \<notin> snd ` set (M @ N)" and "moved f M p = None"
  shows "moved f (M @ N) p = None"
proof -
  have "p \<notin> snd ` set M" using assms(1) by auto
  then show ?thesis
    using assms moved_other [of p M f] moved_other [of p "M @ N" f] by (auto split: if_splits)
qed

text \<open>The effect of a loop: some of its moves, all of them if it is not guarded and succeeds;
  and then no source is left.\<close>

lemma move_all_effect:
  assumes "atomic_move io" and "move_all io g ps w = (w', r)" and "files w = moved f M"
    and "batch f (M @ ps)" and "done_batch f M"
  shows "\<exists>S. files w' = moved f (M @ filter (\<lambda>e. e \<in> S) ps) \<and> done_batch f (M @ filter (\<lambda>e. e \<in> S) ps)
    \<and> (r = None \<longrightarrow> (\<not> g \<longrightarrow> set ps \<subseteq> S) \<and> (\<forall>a \<in> fst ` set ps. files w' a = None))"
  using assms(2-)
proof (induction ps arbitrary: w M)
  case Nil
  then show ?case by simp
next
  case (Cons e ps)
  obtain a b where e: "e = (a, b)" by force
  have free: "a \<notin> snd ` set (M @ e # ps)" "files w b = None"
    using Cons.prems(2,3) e moved_other [of b M f] by (auto simp: batch_def)
  have "b \<notin> snd ` set ps" using Cons.prems(3) e by (simp add: batch_def)
  then have new: "e \<notin> set ps" using e by force
  have keep: "filter (\<lambda>x. x \<in> S - {e}) ps = filter (\<lambda>x. x \<in> S) ps"
      "filter (\<lambda>x. x \<in> insert e S) ps = filter (\<lambda>x. x \<in> S) ps" for S
    using new by (auto intro: filter_cong)
  show ?case
  proof (cases "g \<and> \<not> path_exists w a")
    case True
    have "move_all io g ps w = (w', r)" using Cons.prems(1) True e by simp
    then obtain S where S: "files w' = moved f (M @ filter (\<lambda>e. e \<in> S) ps)"
      "done_batch f (M @ filter (\<lambda>e. e \<in> S) ps)"
      "r = None \<longrightarrow> (\<not> g \<longrightarrow> set ps \<subseteq> S) \<and> (\<forall>a \<in> fst ` set ps. files w' a = None)"
      using Cons.IH [OF _ Cons.prems(2) batch_Cons [OF Cons.prems(3)] Cons.prems(4)] by blast
    have "files w' a = None"
      unfolding S(1) using True Cons.prems(2) free(1)
      by (intro moved_None_append) (auto simp: path_exists_def)
    then show ?thesis using S True e keep(1) [of S]
      by (intro exI [of _ "S - {e}"]) (auto simp del: set_diff_eq)
  next
    case False
    obtain w1 r1 where mv: "move_fs_item io a b w = (w1, r1)" by force
    note at = assms(1) [unfolded atomic_move_def, rule_format, OF free(2), of a, unfolded mv split]
    show ?thesis
    proof (cases r1)
      case (Err x)
      then show ?thesis using at Cons.prems False mv e by (intro exI [of _ "{}"]) auto
    next
      case (Ok u)
      then obtain x where x: "files w a = Some x" "files w1 = (files w)(a := None, b := Some x)"
        using at by auto
      have "a \<notin> snd ` set M" using free(1) by auto
      then have a: "a \<notin> fst ` set M" "f a = Some x"
        using x(1) Cons.prems(2) moved_other [of a M f] by (simp_all split: if_splits)
      have b: "batch f ((M @ [e]) @ ps)" using Cons.prems(3) by simp
      then have "batch f (M @ [(a, b)])" using e by (auto simp: batch_def)
      then have w1: "files w1 = moved f (M @ [e])"
        using moved_snoc [where f = f and M = M and a = a and b = b and x = x] a x(2) Cons.prems(2) e
        by simp
      have d: "done_batch f (M @ [e])" using Cons.prems(4) a e by (auto simp: done_batch_def)
      have "move_all io g ps w1 = (w', r)" using Cons.prems(1) False e mv Ok by simp
      from Cons.IH [OF this w1 b d] obtain S where S:
        "files w' = moved f (M @ e # filter (\<lambda>e. e \<in> S) ps)"
        "done_batch f (M @ e # filter (\<lambda>e. e \<in> S) ps)"
        "r = None \<longrightarrow> (\<not> g \<longrightarrow> set ps \<subseteq> S) \<and> (\<forall>a \<in> fst ` set ps. files w' a = None)"
        unfolding append_assoc append.simps by (elim exE conjE) (rule that; assumption)
      have "files w' a = None"
        unfolding S(1) using free(1) e moved_other [of a "M @ e # filter (\<lambda>e. e \<in> S) ps" f] by auto
      then show ?thesis using S e keep(2) [of S] by (intro exI [of _ "insert e S"]) auto
    qed
  qed
qed

text \<open>Running the moves backwards, skipping what does not exist, restores the files.\<close>

lemma move_all_undo:
  assumes "atomic_move io" and "move_all io True (map prod.swap ps) w = (w', None)"
    and "files w = moved f (filter P ps)" and "batch f ps" and "done_batch f (filter P ps)"
  shows "files w' = f"
  using assms(2-)
proof (induction ps arbitrary: w)
  case Nil
  then show ?case by simp
next
  case (Cons e ps)
  obtain a b where e: "e = (a, b)" by force
  have bt: "batch f ps" using Cons.prems(3) batch_Cons [of f "[]"] by simp
  show ?case
  proof (cases "P e")
    case False
    have "b \<notin> snd ` set ps" using Cons.prems(3) e by (simp add: batch_def)
    then have "b \<notin> snd ` set (filter P ps)" by auto
    then have "files w b = None"
      using Cons.prems(2,3) False e moved_other [of b "filter P ps" f] by (auto simp: batch_def)
    then have "move_all io True (map prod.swap ps) w = (w', None)"
      using Cons.prems(1) e by (simp add: path_exists_def)
    then show ?thesis using Cons.IH Cons.prems False bt by simp
  next
    case True
    define M where "M = filter P ps"
    have bm: "batch f ((a, b) # M)"
      using batch_filter [of f "[]" "e # ps" P] Cons.prems(3) True e by (simp add: M_def)
    have dm: "done_batch f ((a, b) # M)" using Cons.prems(4) True e by (simp add: M_def)
    then obtain x where x: "f a = Some x" by (auto simp: done_batch_def)
    have w: "files w = moved f ((a, b) # M)" using Cons.prems(2) True e by (simp add: M_def)
    have here: "files w b = Some x" "files w a = None"
      using w x bm moved_target [of "(a, b) # M" a b f] moved_other [of a "(a, b) # M" f]
      by (auto simp: batch_def)
    obtain w1 r1 where mv: "move_fs_item io b a w = (w1, r1)" by force
    note at = assms(1) [unfolded atomic_move_def, rule_format, OF here(2), of b, unfolded mv split]
    obtain u where "r1 = Ok u" using Cons.prems(1) e mv here by (cases r1) (auto simp: path_exists_def)
    then have w1: "files w1 = (files w)(b := None, a := Some x)"
      and rest: "move_all io True (map prod.swap ps) w1 = (w', None)"
      using at here Cons.prems(1) e mv by (auto simp: path_exists_def)
    have "files w1 = moved f M" unfolding w1 w by (rule moved_undo [OF bm dm x])
    then show ?thesis
      using Cons.IH [OF rest _ bt] dm by (auto simp: M_def done_batch_def)
  qed
qed

section \<open>Transactions\<close>

abbreviation in_temp :: "string \<Rightarrow> string \<Rightarrow> bool" where
  "in_temp d p \<equiv> starts_with (path_join d []) p"

text \<open>A request: destinations are distinct, and the temporary directory is empty and apart from
  all sources and destinations. Sources and destinations may overlap.\<close>

definition move_request :: "string \<Rightarrow> (string \<times> string) list \<Rightarrow> world \<Rightarrow> bool" where
  "move_request d paths w \<longleftrightarrow> distinct (map snd paths)
    \<and> (\<forall>p \<in> fst ` set paths \<union> snd ` set paths. \<not> in_temp d p)
    \<and> (\<forall>p. in_temp d p \<longrightarrow> files w p = None)"

lemma temp_name_in_temp [simp]: "in_temp d (temp_name d k i)"
  by (simp add: starts_with_iff temp_name_def path_join_def)

lemma temp_name_inject [simp]: "temp_name d k i = temp_name d k j \<longleftrightarrow> i = j"
  by (simp add: temp_name_def path_join_def)

lemma temp_kinds_differ [simp]:
  "temp_name d ''src_'' i \<noteq> temp_name d ''trg_'' j" "temp_name d ''trg_'' i \<noteq> temp_name d ''src_'' j"
  by (simp_all add: temp_name_def path_join_def)

lemma temp_names_props [simp]:
  "length (temp_names d k ps) = length ps" "distinct (temp_names d k ps)"
  "set (temp_names d k ps) = temp_name d k ` {..<length ps}"
  by (auto simp: temp_names_def distinct_map inj_on_def)

lemma temp_names_nth [simp]: "i < length ps \<Longrightarrow> temp_names d k ps ! i = temp_name d k i"
  by (simp add: temp_names_def)

lemma swap_zip: "map prod.swap (zip xs ys) = zip ys xs"
  by (induction xs ys rule: list_induct2') auto

lemma fst_snd_zip [simp]:
  "length xs = length ys \<Longrightarrow> fst ` set (zip xs ys) = set xs"
  "length xs = length ys \<Longrightarrow> snd ` set (zip xs ys) = set ys"
  by (metis list.set_map map_fst_zip, metis list.set_map map_snd_zip)

lemma filter_zip_subset:
  "p \<notin> set xs \<Longrightarrow> p \<notin> fst ` set (filter P (zip xs ys))"
  "p \<notin> set ys \<Longrightarrow> p \<notin> snd ` set (filter P (zip xs ys))"
  by (auto dest: set_zip_leftD set_zip_rightD)

lemma moved_filter_zip:
  "p \<notin> set xs \<Longrightarrow> p \<notin> set ys \<Longrightarrow> moved f (filter P (zip xs ys)) p = f p"
  using moved_other [OF filter_zip_subset(2) [of p ys P xs], of f] filter_zip_subset(1) [of p xs P ys]
  by (simp del: set_filter)

text \<open>A recovery that succeeds has run all of its loops to the end.\<close>

fun loops_run :: "io \<Rightarrow> (string \<times> string) list list \<Rightarrow> world \<Rightarrow> world \<Rightarrow> bool" where
  "loops_run io [] w w' \<longleftrightarrow> w' = w"
| "loops_run io (ps # pss) w w' \<longleftrightarrow>
    (\<exists>w1. move_all io True ps w = (w1, None) \<and> loops_run io pss w1 w')"

lemma recover_steps: "recover io cause pss w = (w', RecoveredIO c) \<Longrightarrow> loops_run io pss w w'"
  by (induction pss arbitrary: w) (auto split: prod.splits option.splits)

text \<open>The recovery loops \<open>pss\<close>, run from files \<open>g\<close>, restore the files \<open>f\<close>.\<close>

definition reverts :: "io \<Rightarrow> (string \<times> string) list list \<Rightarrow> (string \<Rightarrow> item option) \<Rightarrow> (string \<Rightarrow> item option) \<Rightarrow> bool" where
  "reverts io pss f g \<longleftrightarrow> (\<forall>w w'. files w = g \<longrightarrow> loops_run io pss w w' \<longrightarrow> files w' = f)"

lemma reverts_Nil: "reverts io [] f f"
  by (simp add: reverts_def)

lemma reverts_step:
  assumes "atomic_move io" and "batch (files w) P" and "move_all io g P w = (w1, r)"
    and "reverts io pss f (files w)"
  shows "reverts io (map prod.swap P # pss) f (files w1)"
proof -
  obtain S where S: "files w1 = moved (files w) (filter (\<lambda>e. e \<in> S) P)"
    "done_batch (files w) (filter (\<lambda>e. e \<in> S) P)"
    using move_all_effect [OF assms(1,3), of "files w" "[]"] assms(2) by (auto simp: done_batch_def)
  show ?thesis
    unfolding reverts_def
  proof (intro allI impI)
    fix v v'
    assume v: "files v = files w1" and "loops_run io (map prod.swap P # pss) v v'"
    then obtain u where u: "move_all io True (map prod.swap P) v = (u, None)" "loops_run io pss u v'"
      unfolding loops_run.simps by (elim exE conjE)
    have "files u = files w"
      by (rule move_all_undo [OF assms(1) u(1) _ assms(2) S(2)]) (simp only: v S(1))
    then show "files v' = f" using assms(4) u(2) unfolding reverts_def by blast
  qed
qed

lemma reverts_recover:
  assumes "reverts io pss f (files w)" and "map_prod id Err (recover io cause pss w) = (w', r)"
  shows "(r = Ok () \<longrightarrow> Q) \<and> (\<forall>c. r = Err (RecoveredIO c) \<longrightarrow> files w' = f)"
proof -
  obtain v e where v: "recover io cause pss w = (v, e)" by force
  then have w: "w' = v" "r = Err e" using assms(2) by simp_all
  have "files v = f" if "e = RecoveredIO c" for c
    using assms(1) recover_steps [of io cause pss w v c] v that unfolding reverts_def by blast
  then show ?thesis using w by simp
qed

text \<open>After the first two loops the sources are in the temporary directory.\<close>

lemma stored_source:
  assumes "move_request d paths w" and "i < length paths"
  shows "moved (moved f (zip (map fst paths) (temp_names d ''src_'' paths)))
      (filter P (zip (map snd paths) (temp_names d ''trg_'' paths))) (temp_name d ''src_'' i)
    = f (fst (paths ! i))"
proof -
  have "temp_name d ''src_'' i \<notin> snd ` set paths"
    using assms(1) temp_name_in_temp unfolding move_request_def by blast
  then have "moved g (filter P (zip (map snd paths) (temp_names d ''trg_'' paths))) (temp_name d ''src_'' i)
      = g (temp_name d ''src_'' i)" for g
    by (intro moved_filter_zip) auto
  moreover have "moved f (zip (map fst paths) (temp_names d ''src_'' paths)) (temp_name d ''src_'' i)
      = f (fst (paths ! i))"
    using assms(2) by (intro moved_target) (auto simp: set_zip intro!: exI [of _ i])
  ultimately show ?thesis by simp
qed

lemma moved_paths:
  assumes "f0 = files w" and "move_request d paths w"
    and "f1 = moved f0 (zip (map fst paths) (temp_names d ''src_'' paths))"
    and "f2 = moved f1 (filter P (zip (map snd paths) (temp_names d ''trg_'' paths)))"
    and "f3 = moved f2 (zip (temp_names d ''src_'' paths) (map snd paths))"
  shows "(\<lambda>p. if in_temp d p then None else f3 p) = moved f0 paths"
proof
  fix p
  note rq = assms(2) [unfolded move_request_def]
  show "(if in_temp d p then None else f3 p) = moved f0 paths p"
  proof (cases "in_temp d p")
    case True
    then have "p \<notin> snd ` set paths" "p \<notin> fst ` set paths" "f0 p = None" using rq assms(1) by auto
    then show ?thesis using True by (simp add: moved_other)
  next
    case False
    then have nt: "p \<noteq> temp_name d k i" for k i using temp_name_in_temp by metis
    show ?thesis
    proof (cases "p \<in> snd ` set paths")
      case True
      then obtain i where i: "i < length paths" "snd (paths ! i) = p"
        by (metis image_iff in_set_conv_nth)
      let ?s = "fst (paths ! i)"
      have mem: "(?s, p) \<in> set paths" using i by (metis nth_mem prod.collapse)
      have "f3 p = f2 (temp_name d ''src_'' i)"
        unfolding assms(5) using i rq
        by (intro moved_target) (auto simp: set_zip intro!: exI [of _ i])
      also have "\<dots> = f0 ?s"
        unfolding assms(3,4) by (rule stored_source [OF assms(2) i(1)])
      finally show ?thesis using mem rq False moved_target [of paths ?s p f0] by simp
    next
      case out_p: False
      have "f3 p = f2 p" unfolding assms(5) using out_p nt by (subst moved_other) auto
      also have "\<dots> = f1 p"
        unfolding assms(4) using out_p nt by (intro moved_filter_zip) auto
      also have "\<dots> = (if p \<in> fst ` set paths then None else f0 p)"
        unfolding assms(3) using nt by (subst moved_other) auto
      finally show ?thesis using out_p False by (simp add: moved_other)
    qed
  qed
qed


text \<open>The three loops of a request, as batches.\<close>

lemma request_batches:
  assumes "move_request d paths w"
  defines "P1 \<equiv> zip (map fst paths) (temp_names d ''src_'' paths)"
    and "P2 \<equiv> zip (map snd paths) (temp_names d ''trg_'' paths)"
    and "P3 \<equiv> zip (temp_names d ''src_'' paths) (map snd paths)"
  shows "batch (files w) P1"
    and "batch (moved (files w) P1) P2"
    and "(\<And>t. t \<in> snd ` set paths \<Longrightarrow> f t = None) \<Longrightarrow> batch f P3"
proof -
  note rq = assms(1) [unfolded move_request_def]
  have nin: "temp_name d k i \<notin> fst ` set paths" "temp_name d k i \<notin> snd ` set paths"
      "files w (temp_name d k i) = None" for k i
    using rq temp_name_in_temp by blast+
  show "batch (files w) P1" using nin by (auto simp: batch_def P1_def)
  have "moved (files w) P1 (temp_name d ''trg_'' i) = None" for i
    unfolding P1_def using nin by (subst moved_other) auto
  then show "batch (moved (files w) P1) P2"
    using nin(2) by (auto simp: batch_def P2_def simp flip: set_map)
  show "(\<And>t. t \<in> snd ` set paths \<Longrightarrow> f t = None) \<Longrightarrow> batch f P3"
    using nin(2) rq by (auto simp: batch_def P3_def simp flip: set_map)
qed

lemma move_phases_spec:
  assumes at: "atomic_move io" and rq: "move_request d paths w"
    and run: "move_phases io d paths w = (w', r)"
  shows "(r = Ok () \<longrightarrow> files (drop_tempdir d w') = moved (files w) paths)
    \<and> (\<forall>c. r = Err (RecoveredIO c) \<longrightarrow> files w' = files w)"
proof -
  define P1 where "P1 = zip (map fst paths) (temp_names d ''src_'' paths)"
  define P2 where "P2 = zip (map snd paths) (temp_names d ''trg_'' paths)"
  define P3 where "P3 = zip (temp_names d ''src_'' paths) (map snd paths)"
  note ph = P1_def [symmetric] P2_def [symmetric] P3_def [symmetric]
  note b = request_batches [OF rq, unfolded ph]
  have sw: "zip (temp_names d ''src_'' paths) (map fst paths) = map prod.swap P1"
      "zip (temp_names d ''trg_'' paths) (map snd paths) = map prod.swap P2"
      "zip (map snd paths) (temp_names d ''src_'' paths) = map prod.swap P3"
    by (simp_all add: P1_def P2_def P3_def swap_zip)
  obtain w1 r1 where m1: "move_all io False P1 w = (w1, r1)" by force
  note R1 = reverts_step [OF at b(1) m1 reverts_Nil]
  obtain w2 r2 where m2: "move_all io True P2 w1 = (w2, r2)" by force
  obtain w3 r3 where m3: "move_all io False P3 w2 = (w3, r3)" by force
  show ?thesis
  proof (cases r1)
    case (Some c)
    then show ?thesis
      using run m1 by (intro reverts_recover [OF R1, of c]) (simp add: move_phases_def Let_def ph sw)
  next
    case n1: None
    have f1: "files w1 = moved (files w) P1"
      using move_all_effect [OF at m1, of "files w" "[]"] b(1) n1
      by (auto simp: done_batch_def filter_True subset_eq)
    note R2 = reverts_step [OF at b(2) [folded f1] m2 R1]
    show ?thesis
    proof (cases r2)
      case (Some c)
      then show ?thesis
        using run m1 m2 n1 by (intro reverts_recover [OF R2, of c]) (simp add: move_phases_def Let_def ph sw)
    next
      case n2: None
      obtain S where f2: "files w2 = moved (files w1) (filter (\<lambda>e. e \<in> S) P2)"
        "\<forall>a \<in> fst ` set P2. files w2 a = None"
        using move_all_effect [OF at m2, of "files w1" "[]"] b(2) [folded f1] n2
        by (auto simp: done_batch_def)
      moreover have "fst ` set P2 = snd ` set paths" by (simp add: P2_def)
      ultimately have b3: "batch (files w2) P3" by (intro b(3)) auto
      show ?thesis
      proof (cases r3)
        case (Some c)
        then show ?thesis
          using run m1 m2 m3 n1 n2
          by (intro reverts_recover [OF reverts_step [OF at b3 m3 R2], of c])
            (simp add: move_phases_def Let_def ph sw)
      next
        case None
        then have "w' = w3" "r = Ok ()"
          using run m1 m2 m3 n1 n2 by (simp_all add: move_phases_def Let_def ph)
        moreover have "files w3 = moved (files w2) P3"
          using move_all_effect [OF at m3, of "files w2" "[]"] b3 None
          by (auto simp: done_batch_def filter_True subset_eq)
        ultimately show ?thesis
          using moved_paths [OF refl rq _ _ _, of "files w1" "files w2" "\<lambda>e. e \<in> S" "files w3"] f1 f2(1)
          by (simp add: drop_tempdir_def ph)
      qed
    qed
  qed
qed

lemma try_move_files_spec:
  assumes "(\<forall>n. rename_outcome io n \<noteq> CrossesDevices) \<or> (\<forall>n. \<not> op_fails io n)"
    and "move_request d paths w" and "try_move_files io (Some d) paths w = (w', r)"
  shows "(r = Ok () \<longrightarrow> files w' = moved (files w) paths)
    \<and> (\<forall>c. r = Err (RecoveredIO c) \<longrightarrow> files w' = files w)"
proof -
  have at: "atomic_move io" using assms(1) same_device_atomic no_failure_atomic by blast
  obtain v where v: "move_phases io d paths w = (v, r)" "w' = drop_tempdir d v"
    using assms(3) by (auto simp: try_move_files_def map_prod_def split: prod.splits)
  have "files (drop_tempdir d v) = files w" if "files v = files w"
    using assms(2) that by (auto simp: drop_tempdir_def move_request_def)
  then show ?thesis using move_phases_spec [OF at assms(2) v(1)] v(2) by blast
qed

section \<open>Properties\<close>


text \<open>Where no operation fails, an existing item moves to any free place.\<close>

definition faultless :: "io \<Rightarrow> bool" where
  "faultless io \<longleftrightarrow> (\<forall>n. rename_outcome io n \<noteq> RenameError \<and> \<not> op_fails io n)"

lemma faultless_atomic: "faultless io \<Longrightarrow> atomic_move io"
  by (simp add: faultless_def no_failure_atomic)

lemma faultless_move:
  assumes "faultless io" and "files w dst = None" and "files w src = Some x"
  shows "\<exists>w'. move_fs_item io src dst w = (w', Ok ())
    \<and> files w' = (files w)(src := None, dst := Some x)"
proof -
  have nf: "\<forall>n. \<not> op_fails io n" using assms(1) by (simp add: faultless_def)
  have ne: "src \<noteq> dst" using assms(2,3) by auto
  obtain w' r where mv: "move_fs_item io src dst w = (w', r)" by force
  have "rename_outcome io (tick w) = RenameOk \<or> rename_outcome io (tick w) = CrossesDevices"
    using assms(1) by (metis RenameOutcome.exhaust faultless_def)
  then have "r = Ok ()"
  proof
    assume "rename_outcome io (tick w) = RenameOk"
    then show ?thesis using mv assms(2,3) ne by (simp add: move_fs_item_def fs_rename_def Let_def split: if_splits)
  next
    assume c: "rename_outcome io (tick w) = CrossesDevices"
    show ?thesis
    proof (cases x)
      case (FileItem s)
      then show ?thesis using mv assms(2,3) ne c nf
        by (simp add: move_fs_item_def fs_rename_def Let_def copy_file_def remove_item_def)
    next
      case (DirItem es)
      obtain n' where "copy_dir_recursive io src dst es None (tick w + 2) = (n', Some x, None)"
        using copy_dir_complete [OF nf DirItem] by blast
      then show ?thesis using mv assms(2,3) ne c nf DirItem
        by (simp add: move_fs_item_def fs_rename_def Let_def remove_item_def del: copy_dir_recursive.simps)
    qed
  qed
  then show ?thesis
    using faultless_atomic [OF assms(1), unfolded atomic_move_def, rule_format, OF assms(2), of src] mv assms(3)
    by auto
qed

lemma move_all_succeeds:
  assumes "faultless io" and "files w = moved f M" and "batch f (M @ ps)" and "done_batch f M"
    and "\<not> g \<Longrightarrow> done_batch f (M @ ps)"
  shows "snd (move_all io g ps w) = None"
  using assms(2-)
proof (induction ps arbitrary: w M)
  case Nil
  then show ?case by simp
next
  case (Cons e ps)
  obtain a b where e: "e = (a, b)" by force
  have free: "a \<notin> snd ` set M" "files w b = None"
    using Cons.prems(1,2) e moved_other [of b M f] by (auto simp: batch_def)
  show ?case
  proof (cases "files w a")
    case None
    have "g"
    proof (rule ccontr)
      assume "\<not> g"
      then have "done_batch f (M @ e # ps)" by (rule Cons.prems(4))
      then show False
        using None Cons.prems(1) e moved_other [OF free(1), of f] by (auto simp: done_batch_def)
    qed
    then show ?thesis
      using None Cons.IH [OF Cons.prems(1) batch_Cons [OF Cons.prems(2)] Cons.prems(3)] e
      by (simp add: path_exists_def)
  next
    case (Some x)
    then obtain w1 where w1: "move_fs_item io a b w = (w1, Ok ())" "files w1 = (files w)(a := None, b := Some x)"
      using faultless_move [OF assms(1) free(2)] by blast
    have a: "a \<notin> fst ` set M" "f a = Some x"
      using Some Cons.prems(1) moved_other [OF free(1), of f] by (simp_all split: if_splits)
    have b: "batch f ((M @ [e]) @ ps)" using Cons.prems(2) by simp
    then have "batch f (M @ [(a, b)])" using e by (auto simp: batch_def)
    then have f1: "files w1 = moved f (M @ [e])"
      using moved_snoc [where f = f and M = M and a = a and b = b and x = x] a w1(2) Cons.prems(1) e
      by simp
    have d: "done_batch f (M @ [e])" using Cons.prems(3) a e by (auto simp: done_batch_def)
    have "snd (move_all io g ps w1) = None"
      by (rule Cons.IH [OF f1 b d]) (use Cons.prems(4) in simp)
    then show ?thesis using w1(1) Some e by (simp add: path_exists_def)
  qed
qed

lemma try_move_files_complete:
  assumes "faultless io" and "move_request d paths w"
    and "distinct (map fst paths)" and "\<forall>s \<in> fst ` set paths. files w s \<noteq> None"
  shows "\<exists>w'. try_move_files io (Some d) paths w = (w', Ok ())
    \<and> (\<forall>(s, t) \<in> set paths. files w' t = files w s)"
proof -
  define P1 where "P1 = zip (map fst paths) (temp_names d ''src_'' paths)"
  define P2 where "P2 = zip (map snd paths) (temp_names d ''trg_'' paths)"
  define P3 where "P3 = zip (temp_names d ''src_'' paths) (map snd paths)"
  note ph = P1_def [symmetric] P2_def [symmetric] P3_def [symmetric]
  note at = faultless_atomic [OF assms(1)]
  note b = request_batches [OF assms(2), unfolded ph]
  have d0: "done_batch f []" for f by (simp add: done_batch_def)
  have d1: "done_batch (files w) P1" using assms(3,4) by (auto simp: done_batch_def P1_def)
  obtain w1 where m1: "move_all io False P1 w = (w1, None)"
    using move_all_succeeds [OF assms(1), of w "files w" "[]" P1 False] b(1) d1 d0
    by (cases "move_all io False P1 w") auto
  have f1: "files w1 = moved (files w) P1"
    using move_all_effect [OF at m1, of "files w" "[]"] b(1) by (auto simp: d0 filter_True subset_eq)
  obtain w2 where m2: "move_all io True P2 w1 = (w2, None)"
    using move_all_succeeds [OF assms(1), of w1 "files w1" "[]" P2 True] b(2) [folded f1] d0
    by (cases "move_all io True P2 w1") auto
  obtain S where f2: "files w2 = moved (files w1) (filter (\<lambda>e. e \<in> S) P2)"
    "\<forall>a \<in> fst ` set P2. files w2 a = None"
    using move_all_effect [OF at m2, of "files w1" "[]"] b(2) [folded f1] by (auto simp: d0)
  moreover have "fst ` set P2 = snd ` set paths" by (simp add: P2_def)
  ultimately have b3: "batch (files w2) P3" by (intro b(3)) auto
  have "files w2 (temp_name d ''src_'' i) \<noteq> None" if "i < length paths" for i
  proof -
    have "files w2 (temp_name d ''src_'' i) = files w (fst (paths ! i))"
      unfolding f2(1) f1 P1_def P2_def by (rule stored_source [OF assms(2) that])
    then show ?thesis using assms(4) that by (simp add: nth_mem)
  qed
  then have d3: "done_batch (files w2) P3" by (auto simp: done_batch_def P3_def)
  obtain w3 where m3: "move_all io False P3 w2 = (w3, None)"
    using move_all_succeeds [OF assms(1), of w2 "files w2" "[]" P3 False] b3 d3 d0
    by (cases "move_all io False P3 w2") auto
  have run: "move_phases io d paths w = (w3, Ok ())"
    using m1 m2 m3 by (simp add: move_phases_def Let_def ph)
  then have "files (drop_tempdir d w3) = moved (files w) paths"
    using move_phases_spec [OF at assms(2)] by blast
  then show ?thesis
    using run assms(2) moved_target [of paths _ _ "files w"]
    by (auto simp: try_move_files_def move_request_def intro!: exI [of _ "drop_tempdir d w3"])
qed

text \<open>C39: without I/O errors a batch of existing, distinct sources is moved, across devices as
  well as within one: the call returns success.\<close>

theorem try_move_files_succeeds:
  assumes "faultless io" and "move_request d paths w"
    and "distinct (map fst paths)" and "\<forall>s \<in> fst ` set paths. files w s \<noteq> None"
  shows "\<exists>w'. try_move_files io (Some d) paths w = (w', Ok ())
    \<and> (\<forall>(s, t) \<in> set paths. files w' t = files w s)"
  using assms by (rule try_move_files_complete)

definition sample_io :: io where
  "sample_io = \<lparr>rename_outcome = (\<lambda>_. RenameOk), op_fails = (\<lambda>_. False),
    partial_copy = (\<lambda>_. None), partial_remove = (\<lambda>_ x. Some x)\<rparr>"

definition sample_world :: world where
  "sample_world = \<lparr>files = [''/a'' \<mapsto> FileItem ''one'', ''/b'' \<mapsto> FileItem ''two''], tick = 0\<rparr>"

definition sample_moves :: "(string \<times> string) list" where
  "sample_moves = [(''/a'', ''/b''), (''/b'', ''/a'')]"

lemma sample_request: "move_request ''/t'' sample_moves sample_world"
  by (auto simp: move_request_def sample_moves_def sample_world_def starts_with_iff path_join_def)

lemma sample_faultless: "faultless sample_io"
  by (simp add: faultless_def sample_io_def)

theorem try_move_files_succeeds_witness:
  "\<exists>w'. try_move_files sample_io (Some ''/t'') sample_moves sample_world = (w', Ok ())
    \<and> files w' ''/b'' = Some (FileItem ''one'') \<and> files w' ''/a'' = Some (FileItem ''two'')"
  using try_move_files_succeeds [OF sample_faultless sample_request]
  by (auto simp: sample_moves_def sample_world_def)

text \<open>The fourth rename, which moves the second file to its destination, fails.\<close>

definition sample_failing_io :: io where
  "sample_failing_io = sample_io\<lparr>rename_outcome := (\<lambda>n. if n = 3 then RenameError else RenameOk)\<rparr>"

lemma sample_recovered:
  "snd (try_move_files sample_failing_io (Some ''/t'') sample_moves sample_world)
    = Err (RecoveredIO (Move ''/t/src_1'' ''/a''))"
  by code_simp


text \<open>Across devices a rollback can destroy a source: the copy of \<^verbatim>\<open>/a\<close> into the temporary
  directory breaks off, and the recovery moves the fragment back over the intact file and
  reports that it has recovered.\<close>

definition cross_device_io :: io where
  "cross_device_io = \<lparr>rename_outcome = (\<lambda>_. CrossesDevices), op_fails = (\<lambda>n. n = 2),
    partial_copy = (\<lambda>_. Some ''o''), partial_remove = (\<lambda>_ x. Some x)\<rparr>"

theorem recovered_move_loses_data:
  "snd (try_move_files cross_device_io (Some ''/t'') [(''/a'', ''/c'')] sample_world)
     = Err (RecoveredIO (CopyFile ''/a'' ''/t/src_0''))"
  "files sample_world ''/a'' = Some (FileItem ''one'')"
  "files (fst (try_move_files cross_device_io (Some ''/t'') [(''/a'', ''/c'')] sample_world)) ''/a''
     = Some (FileItem ''o'')"
  by code_simp+

end
