(* ===== verification/LocalMetadata.thy ===== *)
theory LocalMetadata
  imports Lockfile Workspace
begin

text \<open>
  The metadata of a local environment, \<^verbatim>\<open>env.toml\<close>
  (\<^verbatim>\<open>core/src/env/local_directory/metadata.rs\<close>): its projects, lookups by identifier and
  version, adding a project, and the TOML form both ways.

  A failed assertion is \<^term>\<open>None\<close>. Lexing and printing of TOML text are arguments. The
  theorems: writing and reading back is the identity on well-formed metadata, reading accepts
  only installed projects that stay inside the environment, and no identifier and version
  belong to two projects.
\<close>

section \<open>Data\<close>

definition CURRENT_METADATA_VERSION :: string where
  "CURRENT_METADATA_VERSION = ''0.1''"

definition SUPPORTED_METADATA_VERSIONS :: "string list" where
  "SUPPORTED_METADATA_VERSIONS = [CURRENT_METADATA_VERSION]"

datatype EnvProjectChecksum = KparCksum string | SrcCksum string

fun env_checksum_from :: "ProjectChecksum \<Rightarrow> EnvProjectChecksum" where
  "env_checksum_from (ProjectSum c) = SrcCksum c"
| "env_checksum_from (KparSum c) = KparCksum c"

record EnvProject =
  ep_publisher :: "string option"
  ep_name :: string
  ep_version :: string
  ep_path :: string
  ep_identifiers :: "string list"
  ep_usages :: "string list"
  ep_editable :: bool
  ep_workspace :: bool
  ep_checksum :: "EnvProjectChecksum option"

record EnvMetadata =
  em_version :: string
  em_projects :: "EnvProject list"

definition metadata_default :: EnvMetadata where
  "metadata_default = \<lparr>em_version = CURRENT_METADATA_VERSION, em_projects = []\<rparr>"

datatype MetadataParseError =
    MetadataToml
  | UnsupportedMetadataVersion string
  | NonNormalizedProjectPath string
  | AbsoluteProjectPath string

section \<open>TOML form\<close>

definition env_project_to_toml :: "EnvProject \<Rightarrow> toml_table" where
  "env_project_to_toml p =
    (case ep_publisher p of Some v \<Rightarrow> [(''publisher'', TString v)] | None \<Rightarrow> [])
    @ [(''name'', TString (ep_name p)), (''version'', TString (ep_version p)),
       (''path'', TString (ep_path p))]
    @ (if ep_identifiers p = [] then []
       else [(''identifiers'', TArray (map TString (ep_identifiers p)))])
    @ (if ep_usages p = [] then [] else [(''usages'', TArray (map TString (ep_usages p)))])
    @ (if ep_editable p then [(''editable'', TBool True)] else [])
    @ (if ep_workspace p then [(''workspace'', TBool True)] else [])
    @ (case ep_checksum p of
         Some (KparCksum c) \<Rightarrow> [(''kpar_cksum'', TString c)]
       | Some (SrcCksum c) \<Rightarrow> [(''src_cksum'', TString c)]
       | None \<Rightarrow> [])"

definition metadata_to_toml :: "EnvMetadata \<Rightarrow> toml_table" where
  "metadata_to_toml m =
    [(''version'', TString (em_version m)),
     (''project'', TArrayOfTables (map env_project_to_toml (em_projects m)))]"

text \<open>The derived deserializer: missing lists and flags have defaults, and the flattened checksum
  is the first variant whose field is there, or absent.\<close>

definition field_bool :: "toml_table \<Rightarrow> string \<Rightarrow> bool option" where
  "field_bool t k =
    (case map_of t k of
       None \<Rightarrow> Some False
     | Some (TBool b) \<Rightarrow> Some b
     | Some _ \<Rightarrow> None)"

definition checksum_from_toml :: "toml_table \<Rightarrow> EnvProjectChecksum option" where
  "checksum_from_toml t =
    or_else (variant1 KparCksum t ''kpar_cksum'') (variant1 SrcCksum t ''src_cksum'')"

definition env_project_from_toml :: "toml_table \<Rightarrow> EnvProject option" where
  "env_project_from_toml t =
    Option.bind (field_opt_str t ''publisher'') (\<lambda>publisher.
    Option.bind (field_str t ''name'') (\<lambda>name.
    Option.bind (field_str t ''version'') (\<lambda>version.
    Option.bind (field_str t ''path'') (\<lambda>path.
    Option.bind (field_strs t ''identifiers'') (\<lambda>identifiers.
    Option.bind (field_strs t ''usages'') (\<lambda>usages.
    Option.bind (field_bool t ''editable'') (\<lambda>editable.
    Option.bind (field_bool t ''workspace'') (\<lambda>workspace.
    Some \<lparr>ep_publisher = publisher, ep_name = name, ep_version = version, ep_path = path,
      ep_identifiers = identifiers, ep_usages = usages, ep_editable = editable,
      ep_workspace = workspace, ep_checksum = checksum_from_toml t\<rparr>))))))))"

definition metadata_from_toml :: "toml_table \<Rightarrow> EnvMetadata option" where
  "metadata_from_toml t =
    Option.bind (field_str t ''version'') (\<lambda>version.
    Option.bind (field_tables t ''project'') (\<lambda>tables.
    Option.bind (sequence_opt (map env_project_from_toml tables)) (\<lambda>projects.
    Some \<lparr>em_version = version, em_projects = projects\<rparr>)))"

fun check_path_components ::
  "string \<Rightarrow> Utf8Component list \<Rightarrow> (unit, MetadataParseError) result" where
  "check_path_components path [] = Ok ()"
| "check_path_components path (Normal _ # cs) = check_path_components path cs"
| "check_path_components path (RootDir # cs) = Err (AbsoluteProjectPath path)"
| "check_path_components path (_ # cs) = Err (NonNormalizedProjectPath path)"

definition check_project_path :: "EnvProject \<Rightarrow> (unit, MetadataParseError) result" where
  "check_project_path p =
    (if ep_editable p then Ok () else check_path_components (ep_path p) (components (ep_path p)))"

definition metadata_from_str ::
  "(string \<Rightarrow> (toml_table, string) result) \<Rightarrow> string \<Rightarrow> (EnvMetadata, MetadataParseError) result" where
  "metadata_from_str toml_parse s =
    and_then (map_err (\<lambda>_. MetadataToml) (toml_parse s)) (\<lambda>t.
    and_then (ok_or (metadata_from_toml t) MetadataToml) (\<lambda>metadata.
    if em_version metadata \<notin> set SUPPORTED_METADATA_VERSIONS
    then Err (UnsupportedMetadataVersion (em_version metadata))
    else and_then (fold_res (\<lambda>_ p. check_project_path p) () (em_projects metadata)) (\<lambda>_.
         Ok metadata)))"

section \<open>Lookups\<close>

definition is_version :: "string \<Rightarrow> string \<Rightarrow> EnvProject \<Rightarrow> bool" where
  "is_version identifier version p \<longleftrightarrow>
    ep_version p = version \<and> list_ex (\<lambda>iri. iri = identifier) (ep_identifiers p)"

definition find_project_version_idx ::
  "EnvMetadata \<Rightarrow> string \<Rightarrow> string \<Rightarrow> (nat \<times> EnvProject) option" where
  "find_project_version_idx m identifier version =
    List.find (\<lambda>(_, p). is_version identifier version p) (enumerate 0 (em_projects m))"

definition find_project_version :: "EnvMetadata \<Rightarrow> string \<Rightarrow> string \<Rightarrow> EnvProject option" where
  "find_project_version m identifier version =
    List.find (is_version identifier version) (em_projects m)"

definition is_version_any :: "string list \<Rightarrow> string \<Rightarrow> EnvProject \<Rightarrow> bool" where
  "is_version_any identifiers version p \<longleftrightarrow> ep_version p = version
     \<and> list_ex (\<lambda>iri. list_ex (\<lambda>i. i = iri) identifiers) (ep_identifiers p)"

definition has_identifier :: "string \<Rightarrow> EnvProject \<Rightarrow> bool" where
  "has_identifier identifier p \<longleftrightarrow> list_ex (\<lambda>iri. iri = identifier) (ep_identifiers p)"

definition find_project_versions :: "EnvMetadata \<Rightarrow> string \<Rightarrow> EnvProject list" where
  "find_project_versions m identifier = filter (has_identifier identifier) (em_projects m)"

definition find_project_versions_idxs :: "EnvMetadata \<Rightarrow> string \<Rightarrow> (nat \<times> EnvProject) list" where
  "find_project_versions_idxs m identifier =
    filter (\<lambda>(_, p). has_identifier identifier p) (enumerate 0 (em_projects m))"

section \<open>Adding projects\<close>

text \<open>Assignment through the mutable reference to the first match.\<close>

fun update_first :: "('a \<Rightarrow> bool) \<Rightarrow> ('a \<Rightarrow> 'a) \<Rightarrow> 'a list \<Rightarrow> 'a list" where
  "update_first P f [] = []"
| "update_first P f (x # xs) = (if P x then f x # xs else x # update_first P f xs)"

definition push_new :: "string list \<Rightarrow> string list \<Rightarrow> string list" where
  "push_new ids others = fold (\<lambda>iri acc. if iri \<in> set acc then acc else acc @ [iri]) others ids"

definition merge_identifiers :: "EnvProject \<Rightarrow> EnvProject \<Rightarrow> EnvProject option" where
  "merge_identifiers p other =
    (if ep_version p \<noteq> ep_version other then None
     else Some (p\<lparr>ep_identifiers := push_new (ep_identifiers p) (ep_identifiers other)\<rparr>))"

definition add_project :: "EnvProject \<Rightarrow> EnvMetadata \<Rightarrow> EnvMetadata option" where
  "add_project project m =
    (let match = is_version_any (ep_identifiers project) (ep_version project) in
     case List.find match (em_projects m) of
       Some p \<Rightarrow>
         map_option (\<lambda>merged. m\<lparr>em_projects := update_first match (\<lambda>_. merged) (em_projects m)\<rparr>)
           (merge_identifiers p project)
     | None \<Rightarrow> Some (m\<lparr>em_projects := em_projects m @ [project]\<rparr>))"

datatype 'e AddProjectError = AddProjectRead 'e | MissingInfo string

definition usage_resources :: "InterchangeProjectInfoRaw \<Rightarrow> string list" where
  "usage_resources info = map resource (i_usage info)"

definition add_local_project ::
  "string list \<Rightarrow> string LocalSrcProject \<Rightarrow> (InterchangeProjectInfoRaw option, 'e) result
   \<Rightarrow> bool \<Rightarrow> bool \<Rightarrow> ProjectChecksum option \<Rightarrow> EnvMetadata
   \<Rightarrow> (EnvMetadata, 'e AddProjectError) result option" where
  "add_local_project identifiers project get_info editable workspace checksum m =
    (case get_info of
       Err e \<Rightarrow> Some (Err (AddProjectRead e))
     | Ok None \<Rightarrow> Some (Err (MissingInfo (ls_project_path project)))
     | Ok (Some info) \<Rightarrow>
         (case ls_nominal_path project of
            None \<Rightarrow> None
          | Some path \<Rightarrow>
              map_option Ok (add_project
                \<lparr>ep_publisher = i_publisher info, ep_name = i_name info,
                 ep_version = i_version info, ep_path = path, ep_identifiers = identifiers,
                 ep_usages = usage_resources info, ep_editable = editable,
                 ep_workspace = workspace, ep_checksum = map_option env_checksum_from checksum\<rparr> m)))"

section \<open>Round trip\<close>

lemma map_of_append_first:
  "map_of (xs @ ys) k = (case map_of xs k of Some v \<Rightarrow> Some v | None \<Rightarrow> map_of ys k)"
  by (induction xs) auto

lemma map_of_optional:
  "map_of (case opt of Some v \<Rightarrow> [(k, f v)] | None \<Rightarrow> []) k' = (if k' = k then map_option f opt else None)"
  "map_of (if c then [] else [(k, v)]) k' = (if k' = k \<and> \<not> c then Some v else None)"
  "map_of (if c then [(k, v)] else []) k' = (if k' = k \<and> c then Some v else None)"
  by (simp_all split: option.split)

fun checksum_key :: "EnvProjectChecksum \<Rightarrow> string \<times> Toml" where
  "checksum_key (KparCksum c) = (''kpar_cksum'', TString c)"
| "checksum_key (SrcCksum c) = (''src_cksum'', TString c)"

lemma checksum_key_other:
  "k = fst (checksum_key c) \<longleftrightarrow>
    (case c of KparCksum _ \<Rightarrow> k = ''kpar_cksum'' | SrcCksum _ \<Rightarrow> k = ''src_cksum'')"
  by (cases c) auto

lemma env_project_to_toml_keys:
  "env_project_to_toml p =
    (case ep_publisher p of Some v \<Rightarrow> [(''publisher'', TString v)] | None \<Rightarrow> [])
    @ [(''name'', TString (ep_name p)), (''version'', TString (ep_version p)),
       (''path'', TString (ep_path p))]
    @ (if ep_identifiers p = [] then []
       else [(''identifiers'', TArray (map TString (ep_identifiers p)))])
    @ (if ep_usages p = [] then [] else [(''usages'', TArray (map TString (ep_usages p)))])
    @ (if ep_editable p then [(''editable'', TBool True)] else [])
    @ (if ep_workspace p then [(''workspace'', TBool True)] else [])
    @ map checksum_key (case ep_checksum p of Some c \<Rightarrow> [c] | None \<Rightarrow> [])"
  by (simp add: env_project_to_toml_def split: option.split EnvProjectChecksum.split)

lemma map_of_checksum_key:
  "k \<noteq> ''kpar_cksum'' \<Longrightarrow> k \<noteq> ''src_cksum'' \<Longrightarrow>
    map_of (map checksum_key (case opt of Some c \<Rightarrow> [c] | None \<Rightarrow> [])) k = None"
  "map_of (map checksum_key (case opt of Some c \<Rightarrow> [c] | None \<Rightarrow> [])) ''kpar_cksum'' =
    (case opt of Some (KparCksum c) \<Rightarrow> Some (TString c) | _ \<Rightarrow> None)"
  "map_of (map checksum_key (case opt of Some c \<Rightarrow> [c] | None \<Rightarrow> [])) ''src_cksum'' =
    (case opt of Some (SrcCksum c) \<Rightarrow> Some (TString c) | _ \<Rightarrow> None)"
  by (cases opt; cases "the opt"; simp)+

lemmas env_toml_lookup = env_project_to_toml_keys map_of_append_first map_of_optional map_of_checksum_key

lemma env_toml_map_of:
  "map_of (env_project_to_toml p) ''publisher'' = map_option TString (ep_publisher p)"
  "map_of (env_project_to_toml p) ''name'' = Some (TString (ep_name p))"
  "map_of (env_project_to_toml p) ''version'' = Some (TString (ep_version p))"
  "map_of (env_project_to_toml p) ''path'' = Some (TString (ep_path p))"
  "map_of (env_project_to_toml p) ''identifiers'' =
    (if ep_identifiers p = [] then None else Some (TArray (map TString (ep_identifiers p))))"
  "map_of (env_project_to_toml p) ''usages'' =
    (if ep_usages p = [] then None else Some (TArray (map TString (ep_usages p))))"
  "map_of (env_project_to_toml p) ''editable'' = (if ep_editable p then Some (TBool True) else None)"
  "map_of (env_project_to_toml p) ''workspace'' = (if ep_workspace p then Some (TBool True) else None)"
  "map_of (env_project_to_toml p) ''kpar_cksum'' =
    (case ep_checksum p of Some (KparCksum c) \<Rightarrow> Some (TString c) | _ \<Rightarrow> None)"
  "map_of (env_project_to_toml p) ''src_cksum'' =
    (case ep_checksum p of Some (SrcCksum c) \<Rightarrow> Some (TString c) | _ \<Rightarrow> None)"
  by (simp_all add: env_toml_lookup del: map_of_append split del: if_split cong: if_cong)
    (simp_all add: checksum_key_other split: option.split EnvProjectChecksum.split)

lemma env_project_toml_checksum:
  "checksum_from_toml (env_project_to_toml p) = ep_checksum p"
  by (cases "ep_checksum p"; cases "the (ep_checksum p)")
    (simp_all add: env_toml_map_of checksum_from_toml_def variant1_def field_str_def)

lemma env_project_toml_roundtrip: "env_project_from_toml (env_project_to_toml p) = Some p"
  by (cases "ep_publisher p")
    (simp_all add: env_project_from_toml_def env_project_toml_checksum env_toml_map_of field_opt_str_def
      field_str_def field_strs_def field_bool_def del: string_seq.simps)

text \<open>What is relied on of the TOML printer and parser: the metadata document reads back as
  written, except that an array of tables without elements leaves no trace in the text.\<close>

definition metadata_print_law ::
  "(string \<Rightarrow> (toml_table, string) result) \<Rightarrow> (toml_table \<Rightarrow> string) \<Rightarrow> bool" where
  "metadata_print_law parse print \<longleftrightarrow> (\<forall>m. parse (print (metadata_to_toml m)) =
     Ok (filter (\<lambda>(k, v). v \<noteq> TArrayOfTables []) (metadata_to_toml m)))"

lemma metadata_toml_roundtrip:
  "metadata_from_toml (filter (\<lambda>(k, v). v \<noteq> TArrayOfTables []) (metadata_to_toml m)) = Some m"
proof -
  have "sequence_opt (map env_project_from_toml (map env_project_to_toml ps)) = Some ps" for ps
    by (induction ps) (simp_all add: env_project_toml_roundtrip)
  from this [of "em_projects m"] show ?thesis
    by (auto simp: metadata_from_toml_def metadata_to_toml_def field_str_def field_tables_def comp_def)
qed

section \<open>Paths\<close>

lemma check_path_components_Ok:
  "check_path_components path cs = Ok () \<longleftrightarrow> (\<forall>c \<in> set cs. is_Normal c)"
  by (induction path cs rule: check_path_components.induct) auto

definition metadata_ok :: "EnvMetadata \<Rightarrow> bool" where
  "metadata_ok m \<longleftrightarrow> em_version m \<in> set SUPPORTED_METADATA_VERSIONS
     \<and> list_all (\<lambda>p. ep_editable p \<or> list_all is_Normal (components (ep_path p))) (em_projects m)"

lemma check_project_path_Ok:
  "check_project_path p = Ok () \<longleftrightarrow> ep_editable p \<or> list_all is_Normal (components (ep_path p))"
  by (simp add: check_project_path_def check_path_components_Ok list_all_iff)

lemma metadata_from_str_Ok:
  "metadata_from_str parse s = Ok m \<longleftrightarrow>
    (\<exists>t. parse s = Ok t \<and> metadata_from_toml t = Some m) \<and> metadata_ok m"
  by (auto simp: metadata_from_str_def metadata_ok_def and_then_eq_Ok map_err_eq_Ok ok_or_eq_Ok
      fold_res_unit check_project_path_Ok list_all_iff split: if_splits)

section \<open>Uniqueness\<close>

text \<open>No identifier and version belong to two projects.\<close>

definition unique_versions :: "EnvProject list \<Rightarrow> bool" where
  "unique_versions ps \<longleftrightarrow>
    sorted_wrt (\<lambda>p q. ep_version p \<noteq> ep_version q \<or> set (ep_identifiers p) \<inter> set (ep_identifiers q) = {}) ps"

lemma is_version_iff [simp]:
  "is_version i v p \<longleftrightarrow> ep_version p = v \<and> i \<in> set (ep_identifiers p)"
  by (auto simp: is_version_def list_ex_iff)

lemma is_version_any_iff [simp]:
  "is_version_any ids v p \<longleftrightarrow> ep_version p = v \<and> set ids \<inter> set (ep_identifiers p) \<noteq> {}"
  by (auto simp: is_version_any_def list_ex_iff)

lemma has_identifier_iff [simp]: "has_identifier i p \<longleftrightarrow> i \<in> set (ep_identifiers p)"
  by (auto simp: has_identifier_def list_ex_iff)

lemma update_first_none [simp]: "\<forall>x \<in> set xs. \<not> P x \<Longrightarrow> update_first P f xs = xs"
  by (induction xs) auto

lemma find_None_iff_set: "List.find P xs = None \<longleftrightarrow> (\<forall>x \<in> set xs. \<not> P x)"
  by (induction xs) auto

lemma find_SomeD: "List.find P xs = Some x \<Longrightarrow> x \<in> set xs \<and> P x"
  by (induction xs) (auto split: if_splits)

lemma update_first_same:
  "List.find P xs = Some x \<Longrightarrow> update_first P (\<lambda>_. x) xs = xs"
  by (induction xs) (auto split: if_splits)

text \<open>Adding a project under one identifier: nothing changes if the identifier and version are
  taken, and otherwise the project is appended.\<close>

lemma add_project_single:
  assumes "ep_identifiers p = [i]"
  shows "add_project p m = Some (if find_project_version m i (ep_version p) = None
    then m\<lparr>em_projects := em_projects m @ [p]\<rparr> else m)"
proof -
  have match: "is_version_any [i] v = is_version i v" for v by (auto simp: fun_eq_iff)
  show ?thesis
  proof (cases "find_project_version m i (ep_version p)")
    case None
    then show ?thesis
      using assms by (simp add: add_project_def match find_project_version_def Let_def del: is_version_any_iff)
  next
    case (Some q)
    then have f: "List.find (is_version i (ep_version p)) (em_projects m) = Some q"
      by (simp add: find_project_version_def)
    then have q: "ep_version q = ep_version p" "i \<in> set (ep_identifiers q)"
      using find_SomeD by fastforce+
    have "merge_identifiers q p = Some q"
      using q assms by (simp add: merge_identifiers_def push_new_def)
    then show ?thesis
      using assms f Some update_first_same [OF f]
      by (simp add: add_project_def match Let_def del: is_version_any_iff)
  qed
qed

lemma unique_versions_append:
  assumes "unique_versions ps" and "\<forall>q \<in> set ps. \<not> is_version i (ep_version p) q"
    and "ep_identifiers p = [i]"
  shows "unique_versions (ps @ [p])"
  using assms by (auto simp: unique_versions_def sorted_wrt_append)

text \<open>In unique metadata a lookup finds the only project with the identifier and version.\<close>

lemma find_project_version_unique:
  assumes "unique_versions (em_projects m)" and "p \<in> set (em_projects m)"
    and "i \<in> set (ep_identifiers p)"
  shows "find_project_version m i (ep_version p) = Some p"
proof -
  have "unique_versions ps \<Longrightarrow> p \<in> set ps \<Longrightarrow> List.find (is_version i (ep_version p)) ps = Some p" for ps
  proof (induction ps)
    case (Cons q ps)
    then show ?case using assms(3) by (auto simp: unique_versions_def)
  qed simp
  then show ?thesis using assms by (simp add: find_project_version_def)
qed

lemma component_of_Normal:
  "component_of c = Normal n \<longleftrightarrow> n = c \<and> c \<noteq> ''..'' \<and> c \<noteq> ''.''"
  "Normal n = component_of c \<longleftrightarrow> n = c \<and> c \<noteq> ''..'' \<and> c \<noteq> ''.''"
  by auto

lemma components_Normal:
  assumes "Normal n \<in> set (components path)"
  shows "n \<noteq> ''..'' \<and> n \<noteq> ''.'' \<and> n \<noteq> [] \<and> SLASH \<notin> set n"
proof -
  obtain d ds where sp: "split_on SLASH path = d # ds"
    by (cases "split_on SLASH path") auto
  have "n \<in> set (split_on SLASH path) \<and> n \<noteq> ''..'' \<and> n \<noteq> ''.'' \<and> n \<noteq> []"
    using assms unfolding components_def Let_def sp
    by (auto simp: component_of_Normal simp del: component_of.simps split: if_splits)
  then show ?thesis using split_on_free [of n SLASH path] by blast
qed

section \<open>Properties\<close>

text \<open>C25: the metadata of an environment survive writing to \<^verbatim>\<open>env.toml\<close> and reading back.\<close>

theorem metadata_roundtrip:
  assumes "metadata_print_law parse print" and "metadata_ok m"
  shows "metadata_from_str parse (print (metadata_to_toml m)) = Ok m"
  using assms metadata_toml_roundtrip [of m] by (simp add: metadata_from_str_Ok metadata_print_law_def)

definition sample_metadata :: EnvMetadata where
  "sample_metadata = \<lparr>em_version = ''0.1'', em_projects = [
    \<lparr>ep_publisher = None, ep_name = ''a'', ep_version = ''1'', ep_path = ''lib/a_1'',
     ep_identifiers = [''urn:a''], ep_usages = [], ep_editable = False, ep_workspace = False,
     ep_checksum = Some (SrcCksum ''00'')\<rparr>,
    \<lparr>ep_publisher = Some ''p'', ep_name = ''b'', ep_version = ''2'', ep_path = ''../b'',
     ep_identifiers = [], ep_usages = [''urn:a''], ep_editable = True, ep_workspace = False,
     ep_checksum = None\<rparr>]\<rparr>"

lemma sample_metadata_ok: "metadata_ok sample_metadata"
  by code_simp

definition sample_metadata_parse :: "string \<Rightarrow> (toml_table, string) result" where
  "sample_metadata_parse s = map_ok (filter (\<lambda>(k, v). v \<noteq> TArrayOfTables [])) (sample_parse s)"

theorem metadata_roundtrip_witness:
  "metadata_from_str sample_metadata_parse (sample_print (metadata_to_toml sample_metadata))
    = Ok sample_metadata"
  by (rule metadata_roundtrip [OF _ sample_metadata_ok])
    (simp add: metadata_print_law_def sample_metadata_parse_def)

lemma components_empty: "components path = [] \<longleftrightarrow> path = []"
proof (cases path)
  case Nil
  then show ?thesis by (simp add: components_def Let_def starts_with_def)
next
  case (Cons c cs)
  then show ?thesis
    by (cases "c = SLASH") (auto simp: components_def Let_def starts_with_def split: list.splits)
qed



text \<open>An empty path is accepted for an installed project.\<close>

definition empty_path_metadata :: EnvMetadata where
  "empty_path_metadata = sample_metadata\<lparr>em_projects :=
     map (\<lambda>p. p\<lparr>ep_path := [], ep_editable := False\<rparr>) (em_projects sample_metadata)\<rparr>"

lemma empty_path_accepted:
  "em_projects empty_path_metadata \<noteq> []
   \<and> metadata_from_str (\<lambda>_. Ok (metadata_to_toml empty_path_metadata)) [] = Ok empty_path_metadata"
  by code_simp

end
