(* ===== verification/LocalSrc.thy ===== *)
theory LocalSrc
  imports Project MoveFiles LocalMetadata
begin

text \<open>
  Projects in a local directory (\<^verbatim>\<open>core/src/project/local_src.rs\<close>): where a source
  file is found, reading and writing of project information, metadata and sources, and the
  source recorded in a lock.

  The directory of a project is a tree; an absolute path is the list of its names. Failed
  assertions are \<^term>\<open>None\<close>. JSON parsing and printing and path canonicalization are arguments;
  I/O failures other than missing or obstructed files are left out. The theorems: the path of a
  source never leaves the project and no assertion fails, and what is written is read back.
\<close>

section \<open>Errors\<close>

datatype PathError = UnsafePath string | AbsolutePath string

datatype LocalSrcError =
    LsAlreadyExists string
  | LsMissingMeta
  | LsMissingInfoMeta
  | DeserializeError string
  | SerializeError string
  | PathErr PathError
  | Io FsIoError
  | ImpossibleRelativePath RelativizePathError

datatype UnixPathError = PathOutsideProject "Utf8Component list" | CanonicalizeError "Utf8Component list"

section \<open>Paths of sources\<close>

text \<open>The loop over the components of a relative path: the path so far and the number of
  components added to the root.\<close>

fun source_walk ::
  "string \<Rightarrow> string list \<Rightarrow> nat \<Rightarrow> Utf8Component list \<Rightarrow> (string list, PathError) result option" where
  "source_walk path final_path added [] = Some (Ok final_path)"
| "source_walk path final_path added (RootDir # cs) = None"
| "source_walk path final_path added (CurDir # cs) = source_walk path final_path added cs"
| "source_walk path final_path added (ParentDir # cs) =
    (if 0 < added then
       (if final_path = [] then None else source_walk path (butlast final_path) (added - 1) cs)
     else Some (Err (UnsafePath path)))"
| "source_walk path final_path added (Normal c # cs) =
    source_walk path (final_path @ [c]) (added + 1) cs"

text \<open>\<open>lenient\<close> is the feature \<^verbatim>\<open>lenient_checks\<close>.\<close>

definition get_source_path ::
  "bool \<Rightarrow> string list \<Rightarrow> string \<Rightarrow> (string list, PathError) result option" where
  "get_source_path lenient root path =
    (if starts_with [SLASH] path then
       (if \<not> lenient then Some (Err (AbsolutePath path))
        else source_walk path root 0 (tl (components path)))
     else source_walk path root 0 (components path))"

text \<open>The longest prefix of a path that can be canonicalized is, the rest is kept.\<close>

function canonicalize_prefix ::
  "(Utf8Component list \<Rightarrow> Utf8Component list option) \<Rightarrow> Utf8Component list \<Rightarrow> Utf8Component list
   \<Rightarrow> Utf8Component list" where
  "canonicalize_prefix canonicalize_raw absolute_part relative_part =
    (case canonicalize_raw absolute_part of
       Some canonical_absolute \<Rightarrow> canonical_absolute @ relative_part
     | None \<Rightarrow>
         (if absolute_part \<noteq> [] \<and> is_Normal (last absolute_part)
          then canonicalize_prefix canonicalize_raw (butlast absolute_part)
                 (last absolute_part # relative_part)
          else absolute_part @ relative_part))"
  by pat_completeness auto
termination
  by (relation "measure (\<lambda>(_, absolute_part, _). length absolute_part)") simp_all

declare canonicalize_prefix.simps [simp del]

definition strip_components ::
  "Utf8Component list \<Rightarrow> Utf8Component list \<Rightarrow> Utf8Component list option" where
  "strip_components prefix path =
    (if take (length prefix) path = prefix then Some (drop (length prefix) path) else None)"

definition relativize_path_in ::
  "(Utf8Component list \<Rightarrow> Utf8Component list option) \<Rightarrow> (Utf8Component list \<Rightarrow> Utf8Component list option)
   \<Rightarrow> Utf8Component list \<Rightarrow> Utf8Component list \<Rightarrow> Utf8Component list option" where
  "relativize_path_in canonicalize_raw absolute_utf8 path relative_to =
    Option.bind (if path \<noteq> [] \<and> hd path = RootDir then Some path else absolute_utf8 path) (\<lambda>path.
      strip_components (canonicalize_prefix canonicalize_raw relative_to [])
        (canonicalize_prefix canonicalize_raw path []))"

definition get_unix_path ::
  "(Utf8Component list \<Rightarrow> Utf8Component list option) \<Rightarrow> (Utf8Component list \<Rightarrow> Utf8Component list option)
   \<Rightarrow> Utf8Component list \<Rightarrow> Utf8Component list \<Rightarrow> (Utf8Component list, UnixPathError) result" where
  "get_unix_path canonicalize_raw absolute_utf8 root_path path =
    and_then (ok_or (canonicalize_raw root_path) (CanonicalizeError root_path)) (\<lambda>project_path.
      ok_or (relativize_path_in canonicalize_raw absolute_utf8 path project_path)
        (PathOutsideProject path))"

section \<open>Directory trees\<close>

fun tree_lookup :: "string list \<Rightarrow> item \<Rightarrow> item option" where
  "tree_lookup [] t = Some t"
| "tree_lookup (n # ns) (FileItem c) = None"
| "tree_lookup (n # ns) (DirItem es) =
    (case map_of es n of Some x \<Rightarrow> tree_lookup ns x | None \<Rightarrow> None)"

fun fresh_tree :: "string list \<Rightarrow> string \<Rightarrow> item" where
  "fresh_tree [] c = FileItem c"
| "fresh_tree (n # ns) c = DirItem [(n, fresh_tree ns c)]"

text \<open>\<^verbatim>\<open>create_dir_all\<close> on the parent and then \<^verbatim>\<open>File::create\<close>: fails if a directory is in the
  place of the file, or a file in the place of a directory.\<close>

fun put_file :: "string list \<Rightarrow> string \<Rightarrow> item \<Rightarrow> item option" where
  "put_file [] c (FileItem _) = Some (FileItem c)"
| "put_file [] c (DirItem _) = None"
| "put_file (n # ns) c (FileItem _) = None"
| "put_file (n # ns) c (DirItem es) =
    (case map_of es n of
       Some x \<Rightarrow> map_option (\<lambda>x'. DirItem (AList.update n x' es)) (put_file ns c x)
     | None \<Rightarrow> Some (DirItem (AList.update n (fresh_tree ns c) es)))"

section \<open>Reading and writing\<close>

record json_ops =
  parse_info :: "string \<Rightarrow> InterchangeProjectInfoRaw option"
  pretty_info :: "InterchangeProjectInfoRaw \<Rightarrow> string"
  parse_meta :: "string \<Rightarrow> InterchangeProjectMetadataRaw option"
  pretty_meta :: "InterchangeProjectMetadataRaw \<Rightarrow> string"

text \<open>A project is the path of its root, the names below \<^verbatim>\<open>/\<close>, and its directory.\<close>

type_synonym local_store = "string list \<times> item"

definition NEWLINE :: string where
  "NEWLINE = [char_of (10 :: nat)]"

definition QUOTE :: string where
  "QUOTE = [char_of (39 :: nat)]"

definition read_json ::
  "(string \<Rightarrow> 'a option) \<Rightarrow> string \<Rightarrow> item \<Rightarrow> ('a option, LocalSrcError) result" where
  "read_json parse name tree =
    (case tree_lookup [name] tree of
       None \<Rightarrow> Ok None
     | Some (FileItem c) \<Rightarrow> map_ok Some (ok_or (parse c) (DeserializeError name))
     | Some (DirItem _) \<Rightarrow> Err (DeserializeError name))"

definition local_get_project ::
  "json_ops \<Rightarrow> local_store
   \<Rightarrow> (InterchangeProjectInfoRaw option \<times> InterchangeProjectMetadataRaw option, LocalSrcError) result" where
  "local_get_project J q =
    and_then (read_json (parse_info J) ''.project.json'' (snd q)) (\<lambda>info.
    and_then (read_json (parse_meta J) ''.meta.json'' (snd q)) (\<lambda>meta.
    Ok (info, meta)))"

definition local_get_info :: "json_ops \<Rightarrow> local_store \<Rightarrow> (InterchangeProjectInfoRaw option, LocalSrcError) result" where
  "local_get_info J q = map_ok fst (local_get_project J q)"

definition local_get_meta :: "json_ops \<Rightarrow> local_store \<Rightarrow> (InterchangeProjectMetadataRaw option, LocalSrcError) result" where
  "local_get_meta J q = map_ok snd (local_get_project J q)"

definition put_json ::
  "string \<Rightarrow> string \<Rightarrow> string \<Rightarrow> bool \<Rightarrow> local_store \<Rightarrow> (local_store, LocalSrcError) result" where
  "put_json name exists_msg text overwrite q =
    (if \<not> overwrite \<and> tree_lookup [name] (snd q) \<noteq> None then Err (LsAlreadyExists exists_msg)
     else map_ok (Pair (fst q)) (ok_or (put_file [name] (text @ NEWLINE) (snd q)) (Io (CreateFile name))))"

definition local_put_info ::
  "json_ops \<Rightarrow> InterchangeProjectInfoRaw \<Rightarrow> bool \<Rightarrow> local_store \<Rightarrow> (local_store, LocalSrcError) result" where
  "local_put_info J info overwrite q =
    put_json ''.project.json'' ''`.project.json` already exists'' (pretty_info J info) overwrite q"

definition local_put_meta ::
  "json_ops \<Rightarrow> InterchangeProjectMetadataRaw \<Rightarrow> bool \<Rightarrow> local_store \<Rightarrow> (local_store, LocalSrcError) result" where
  "local_put_meta J meta overwrite q =
    put_json ''.meta.json'' (QUOTE @ ''.meta.json'' @ QUOTE @ '' already exists'') (pretty_meta J meta)
      overwrite q"

text \<open>The assertions of \<open>get_source_path\<close> never fail, so that its \<^term>\<open>None\<close> does not occur.\<close>

definition located ::
  "bool \<Rightarrow> local_store \<Rightarrow> string \<Rightarrow> (string list, LocalSrcError) result" where
  "located lenient q path =
    (case get_source_path lenient (fst q) path of
       None \<Rightarrow> Err (PathErr (UnsafePath path))
     | Some r \<Rightarrow> map_err PathErr r)"

definition file_of :: "local_store \<Rightarrow> string list \<Rightarrow> item option" where
  "file_of q source_path = tree_lookup (drop (length (fst q)) source_path) (snd q)"

definition local_write_source ::
  "bool \<Rightarrow> string \<Rightarrow> reader \<Rightarrow> bool \<Rightarrow> local_store \<Rightarrow> (local_store, LocalSrcError) result" where
  "local_write_source lenient path source overwrite q =
    and_then (located lenient q path) (\<lambda>source_path.
    if \<not> overwrite \<and> file_of q source_path \<noteq> None then Err (LsAlreadyExists path)
    else (case source of
        Ok content \<Rightarrow>
          map_ok (Pair (fst q))
            (ok_or (put_file (drop (length (fst q)) source_path) content (snd q)) (Io (CreateFile path)))
      | Err e \<Rightarrow> Err (Io (WriteFile path))))"

definition local_read_source :: "bool \<Rightarrow> local_store \<Rightarrow> string \<Rightarrow> (reader, LocalSrcError) result" where
  "local_read_source lenient q path =
    and_then (located lenient q path) (\<lambda>source_path.
    case file_of q source_path of
      None \<Rightarrow> Err (Io (OpenFile path))
    | Some (FileItem c) \<Rightarrow> Ok (Ok c)
    | Some (DirItem _) \<Rightarrow> Ok (Err ''is a directory''))"

definition local_read :: "json_ops \<Rightarrow> bool \<Rightarrow> (local_store, LocalSrcError) ProjectRead" where
  "local_read J lenient =
    \<lparr>get_project = local_get_project J, read_source = local_read_source lenient\<rparr>"

definition local_mut :: "json_ops \<Rightarrow> bool \<Rightarrow> (local_store, LocalSrcError) ProjectMut" where
  "local_mut J lenient =
    \<lparr>put_info = local_put_info J, put_meta = local_put_meta J,
     write_source = local_write_source lenient\<rparr>"

definition get_source_paths ::
  "json_ops \<Rightarrow> bool \<Rightarrow> local_store \<Rightarrow> (string list list, LocalSrcError) result" where
  "get_source_paths J lenient q =
    and_then (local_get_meta J q) (\<lambda>m.
      case m of
        None \<Rightarrow> Ok []
      | Some meta \<Rightarrow> collect_res (located lenient q) (sorted_list_of_set (source_paths True meta)))"

definition set_index ::
  "json_ops \<Rightarrow> (string \<times> string) list \<Rightarrow> local_store \<Rightarrow> (local_store, LocalSrcError) result" where
  "set_index J new_index q =
    and_then (local_get_meta J q) (\<lambda>m.
    and_then (ok_or m LsMissingMeta) (\<lambda>meta.
      local_put_meta J (meta\<lparr>m_index := new_index\<rparr>) True q))"

section \<open>Checksum and source\<close>

fun canon_error :: "LocalSrcError CanonicalizationError \<Rightarrow> LocalSrcError" where
  "canon_error (CanonProjectRead e) = e"
| "canon_error (CanonFileRead path e) = Io (ReadFile path)"

definition local_checksum_canonical_variant ::
  "project_externs \<Rightarrow> json_ops \<Rightarrow> bool \<Rightarrow> local_store \<Rightarrow> (ProjectChecksum, LocalSrcError) result" where
  "local_checksum_canonical_variant X J lenient q =
    (case checksum_canonical_hex X (local_read J lenient) q of
       Ok (Some c) \<Rightarrow> Ok (ProjectSum c)
     | Ok None \<Rightarrow> Err LsMissingInfoMeta
     | Err e \<Rightarrow> Err (canon_error e))"

definition path_string :: "string list \<Rightarrow> string" where
  "path_string ns = SLASH # join_with SLASH ns"

definition relative_source ::
  "string list \<Rightarrow> string \<Rightarrow> (string, LocalSrcError) result option" where
  "relative_source project_path root =
    map_option (\<lambda>r. map_ok (join_with SLASH) (map_err ImpossibleRelativePath r))
      (relativize_path (path_string project_path) root)"

text \<open>The source of a project, relative to the root of the workspace or else of the current
  project. Without either and without a nominal path the code panics.\<close>

definition local_sources ::
  "project_externs \<Rightarrow> json_ops \<Rightarrow> bool \<Rightarrow> string option \<Rightarrow> string option \<Rightarrow> string option
   \<Rightarrow> string option \<Rightarrow> local_store \<Rightarrow> (Source list, LocalSrcError) result option" where
  "local_sources X J lenient nominal_path expected_checksum workspace_root project_root q =
    (case (case expected_checksum of
             Some c \<Rightarrow> Ok c
           | None \<Rightarrow>
               and_then (map_err canon_error (checksum_canonical_hex X (local_read J lenient) q)) (\<lambda>c.
               ok_or c LsMissingInfoMeta)) of
       Err e \<Rightarrow> Some (Err e)
     | Ok checksum \<Rightarrow>
         map_option (map_ok (\<lambda>src_path. [LocalSrc src_path checksum]))
           (case nominal_path of
              Some np \<Rightarrow> Some (Ok np)
            | None \<Rightarrow>
                (case workspace_root of
                   Some w \<Rightarrow> relative_source (fst q) w
                 | None \<Rightarrow>
                     (case project_root of
                        Some cp \<Rightarrow> relative_source (fst q) cp
                      | None \<Rightarrow> None))))"

section \<open>Source paths stay inside\<close>

definition plain_name :: "string \<Rightarrow> bool" where
  "plain_name n \<longleftrightarrow> n \<noteq> ''..'' \<and> n \<noteq> ''.'' \<and> n \<noteq> []"

lemma components_root:
  "RootDir \<notin> set (tl (components path))"
  "\<not> starts_with [SLASH] path \<Longrightarrow> RootDir \<notin> set (components path)"
proof -
  have c: "component_of x \<noteq> RootDir" for x by simp
  obtain d ds where sp: "split_on SLASH path = d # ds" by (cases "split_on SLASH path") auto
  have "RootDir \<notin> set (map component_of xs)" for xs using c by (metis ex_map_conv)
  then show "RootDir \<notin> set (tl (components path))"
    unfolding components_def Let_def sp
    by (auto simp: map_tl [symmetric] simp del: component_of.simps)
  show "\<not> starts_with [SLASH] path \<Longrightarrow> RootDir \<notin> set (components path)"
    unfolding components_def Let_def sp using \<open>\<And>xs. RootDir \<notin> set (map component_of xs)\<close> c [of d]
    by (auto simp del: component_of.simps)
qed

lemma components_plain: "Normal n \<in> set (components path) \<Longrightarrow> plain_name n"
  using components_Normal by (auto simp: plain_name_def)

lemma source_walk_inside:
  assumes "RootDir \<notin> set cs" and "\<forall>n. Normal n \<in> set cs \<longrightarrow> plain_name n"
    and "list_all plain_name ns"
  shows "source_walk path (root @ ns) (length ns) cs = Some (Err (UnsafePath path))
    \<or> (\<exists>ms. source_walk path (root @ ns) (length ns) cs = Some (Ok (root @ ms)) \<and> list_all plain_name ms)"
  using assms
proof (induction cs arbitrary: ns)
  case Nil
  then show ?case by simp
next
  case (Cons c cs)
  then have ih: "list_all plain_name ns' \<Longrightarrow>
      source_walk path (root @ ns') (length ns') cs = Some (Err (UnsafePath path))
      \<or> (\<exists>ms. source_walk path (root @ ns') (length ns') cs = Some (Ok (root @ ms)) \<and> list_all plain_name ms)"
    for ns' by simp
  show ?case
  proof (cases c)
    case RootDir
    then show ?thesis using Cons.prems by simp
  next
    case CurDir
    then show ?thesis using ih [OF Cons.prems(3)] by simp
  next
    case ParentDir
    show ?thesis
    proof (cases ns rule: rev_cases)
      case Nil
      then show ?thesis using ParentDir by simp
    next
      case (snoc ms m)
      then show ?thesis using ih [of ms] Cons.prems(3) ParentDir by (simp add: butlast_append)
    qed
  next
    case (Normal n)
    then show ?thesis using ih [of "ns @ [n]"] Cons.prems by (simp add: list_all_iff)
  qed
qed

section \<open>Trees\<close>

lemma tree_lookup_fresh: "tree_lookup ns (fresh_tree ns c) = Some (FileItem c)"
  by (induction ns) auto

lemma tree_lookup_fresh_other:
  "ms \<noteq> ns \<Longrightarrow> tree_lookup ms (fresh_tree ns c) \<noteq> Some (FileItem d)"
proof (induction ns arbitrary: ms)
  case Nil
  then show ?case by (cases ms) auto
next
  case (Cons n ns)
  then show ?case by (cases ms) auto
qed

lemma put_file_lookup: "put_file ns c t = Some t' \<Longrightarrow> tree_lookup ns t' = Some (FileItem c)"
proof (induction ns c t arbitrary: t' rule: put_file.induct)
  case (4 n ns c es)
  then show ?case by (auto simp: tree_lookup_fresh split: option.splits)
qed auto

lemma put_file_other:
  "put_file ns c t = Some t' \<Longrightarrow> ms \<noteq> ns \<Longrightarrow> tree_lookup ms t' = Some (FileItem d)
    \<longleftrightarrow> tree_lookup ms t = Some (FileItem d)"
proof (induction ns c t arbitrary: t' ms rule: put_file.induct)
  case (1 c b)
  then show ?case by (cases ms) auto
next
  case (4 n ns c es)
  show ?case
  proof (cases ms)
    case Nil
    then show ?thesis using 4 by (auto split: option.splits)
  next
    case (Cons m ms')
    then show ?thesis
      using 4 tree_lookup_fresh_other [of ms' ns c d]
      by (cases "m = n") (auto simp: map_of_update_other split: option.splits)
  qed
qed auto

lemma put_file_top:
  "put_file (n # ns) c t = Some t' \<Longrightarrow> n \<noteq> m \<Longrightarrow> tree_lookup [m] t' = tree_lookup [m] t"
  by (cases t) (auto simp: map_of_update_other split: option.splits)

lemma read_json_put:
  "put_file [name] c t = Some t' \<Longrightarrow> parse c = Some x \<Longrightarrow> read_json parse name t' = Ok (Some x)"
  using put_file_lookup [of "[name]" c t t'] by (simp add: read_json_def)

lemma read_json_other:
  "put_file (n # ns) c t = Some t' \<Longrightarrow> n \<noteq> name \<Longrightarrow> read_json parse name t' = read_json parse name t"
  unfolding read_json_def by (subst put_file_top [of n ns c t t' name]) simp_all

text \<open>What is relied on of the JSON printer and parser.\<close>

definition json_law :: "json_ops \<Rightarrow> bool" where
  "json_law J \<longleftrightarrow> (\<forall>i. parse_info J (pretty_info J i @ NEWLINE) = Some i)
     \<and> (\<forall>m. parse_meta J (pretty_meta J m @ NEWLINE) = Some m)"

lemma local_put_info_get:
  assumes "json_law J" and "local_put_info J i ow q = Ok q'" and "local_get_project J q = Ok (a, b)"
  shows "local_get_project J q' = Ok (Some i, b)"
proof -
  obtain t' where t': "put_file [''.project.json''] (pretty_info J i @ NEWLINE) (snd q) = Some t'"
    "q' = (fst q, t')"
    using assms(2) by (auto simp: local_put_info_def put_json_def map_ok_eq_Ok ok_or_eq_Ok split: if_splits)
  show ?thesis
    using assms(1,3) t'(2) read_json_put [OF t'(1), of "parse_info J"]
      read_json_other [OF t'(1), of "''.meta.json''" "parse_meta J"]
    by (auto simp: local_get_project_def json_law_def and_then_eq_Ok)
qed

lemma local_put_meta_get:
  assumes "json_law J" and "local_put_meta J m ow q = Ok q'" and "local_get_project J q = Ok (a, b)"
  shows "local_get_project J q' = Ok (a, Some m)"
proof -
  obtain t' where t': "put_file [''.meta.json''] (pretty_meta J m @ NEWLINE) (snd q) = Some t'"
    "q' = (fst q, t')"
    using assms(2) by (auto simp: local_put_meta_def put_json_def map_ok_eq_Ok ok_or_eq_Ok split: if_splits)
  show ?thesis
    using assms(1,3) t'(2) read_json_put [OF t'(1), of "parse_meta J"]
      read_json_other [OF t'(1), of "''.project.json''" "parse_info J"]
    by (auto simp: local_get_project_def json_law_def and_then_eq_Ok)
qed

lemma get_source_path_cases:
  "(\<exists>e. get_source_path lenient root path = Some (Err e))
   \<or> (\<exists>ns. get_source_path lenient root path = Some (Ok (root @ ns)) \<and> list_all plain_name ns)"
proof -
  have s: "\<forall>n. Normal n \<in> set (tl (components path)) \<longrightarrow> plain_name n"
    "\<forall>n. Normal n \<in> set (components path) \<longrightarrow> plain_name n"
    using components_plain list.set_sel(2) [of "components path"]
    by (metis empty_iff empty_set list.sel(2), blast)
  show ?thesis
    using source_walk_inside [OF components_root(1) s(1), of "[]" path root]
      source_walk_inside [OF components_root(2) s(2), of "[]" path root]
    by (auto simp: get_source_path_def)
qed

lemma local_write_source_Ok:
  assumes "local_write_source lenient p r ow q = Ok q'"
  obtains ns c t' where "r = Ok c" "located lenient q p = Ok (fst q @ ns)"
    "put_file ns c (snd q) = Some t'" "q' = (fst q, t')"
proof -
  obtain sp c t' where sp: "located lenient q p = Ok sp" "r = Ok c"
    "put_file (drop (length (fst q)) sp) c (snd q) = Some t'" "q' = (fst q, t')"
    using assms by (auto simp: local_write_source_def and_then_eq_Ok map_ok_eq_Ok ok_or_eq_Ok
      split: if_splits result.splits)
  moreover have "\<exists>ns. sp = fst q @ ns"
    using get_source_path_cases [of lenient "fst q" p] sp(1) by (auto simp: located_def)
  ultimately show ?thesis by (auto intro: that)
qed

section \<open>Properties\<close>

text \<open>C23: the path of a source file. For every root and every path the assertions hold, and a path
  that is accepted is the root followed by ordinary names: it does not leave the project.\<close>

theorem get_source_path_inside:
  "\<exists>r. get_source_path lenient root path = Some r
    \<and> (is_ok r \<longleftrightarrow> (\<exists>ns. r = Ok (root @ ns) \<and> list_all plain_name ns))"
  using get_source_path_cases [of lenient root path] by (auto simp: is_ok_iff)

text \<open>C24: a source that was written is read back; other sources, and the project information and
  metadata unless the source is one of their files, stay as they were.\<close>

theorem local_write_read:
  assumes "local_write_source lenient p r ow q = Ok q'"
  shows "(\<exists>c. r = Ok c \<and> local_read_source lenient q' p = Ok (Ok c))
    \<and> (located lenient q p' \<noteq> located lenient q p \<longrightarrow>
         (local_read_source lenient q' p' = Ok (Ok d) \<longleftrightarrow> local_read_source lenient q p' = Ok (Ok d)))
    \<and> (located lenient q p = Ok (fst q @ n # ns) \<and> n \<notin> {''.project.json'', ''.meta.json''} \<longrightarrow>
         local_get_project J q' = local_get_project J q)"
proof -
  obtain ms c t' where w: "r = Ok c" "located lenient q p = Ok (fst q @ ms)"
    "put_file ms c (snd q) = Some t'" "q' = (fst q, t')"
    by (rule local_write_source_Ok [OF assms])
  have loc: "located lenient q' x = located lenient q x" for x by (simp add: w(4) located_def)
  have "local_read_source lenient q' p = Ok (Ok c)"
    using put_file_lookup [OF w(3)] w(2,4) loc [of p] by (simp add: local_read_source_def file_of_def)
  moreover have "local_read_source lenient q' p' = Ok (Ok d) \<longleftrightarrow> local_read_source lenient q p' = Ok (Ok d)"
    if ne: "located lenient q p' \<noteq> located lenient q p"
  proof (cases "located lenient q p'")
    case (Ok sp)
    then obtain ns' where sp: "sp = fst q @ ns'"
      using get_source_path_cases [of lenient "fst q" p'] by (auto simp: located_def)
    then have "ns' \<noteq> ms" using Ok ne w(2) by auto
    then show ?thesis
      using put_file_other [OF w(3), of ns' d] Ok loc [of p'] sp w(4)
      by (auto simp: local_read_source_def file_of_def split: option.splits item.splits)
  next
    case (Err e)
    then show ?thesis using loc [of p'] by (simp add: local_read_source_def)
  qed
  moreover have "local_get_project J q' = local_get_project J q"
    if "located lenient q p = Ok (fst q @ n # ns) \<and> n \<notin> {''.project.json'', ''.meta.json''}"
  proof -
    have "ms = n # ns" using that w(2) by simp
    then show ?thesis
      using that w(3,4) read_json_other [of n ns c "snd q" t' "''.project.json''" "parse_info J"]
        read_json_other [of n ns c "snd q" t' "''.meta.json''" "parse_meta J"]
      by (simp add: local_get_project_def)
  qed
  ultimately show ?thesis using w(1) by blast
qed

theorem local_write_read_witness:
  "local_write_source False ''a/b'' (Ok ''x'') False ([''p''], DirItem []) =
     Ok ([''p''], DirItem [(''a'', DirItem [(''b'', FileItem ''x'')])])
   \<and> local_read_source False ([''p''], DirItem [(''a'', DirItem [(''b'', FileItem ''x'')])]) ''a/b'' = Ok (Ok ''x'')"
proof -
  have w: "local_write_source False ''a/b'' (Ok ''x'') False ([''p''], DirItem []) =
     Ok ([''p''], DirItem [(''a'', DirItem [(''b'', FileItem ''x'')])])"
    by code_simp
  show ?thesis using local_write_read [OF w] w by auto
qed

end
