(* ===== verification/LocalEnv.thy ===== *)
theory LocalEnv
  imports IriNames LocalSrc Env "HOL-Library.Multiset"
begin

text \<open>
  The environment in a local directory (\<^verbatim>\<open>core/src/env/local_directory/mod.rs\<close>): where its
  projects are stored, opening and creating it, installing, overwriting and removing projects, and
  taking over the editable projects of a lock.

  Operations that change the directory pass the environment and the file system of theory
  \<open>MoveFiles\<close>, in which every operation may fail. An operation that panics or does not return
  is \<^term>\<open>None\<close>. The metadata of \<^verbatim>\<open>env.toml\<close> are those of theory \<open>LocalMetadata\<close>.
\<close>

section \<open>State\<close>

record LocalDirectoryEnvironment =
  ld_root_dir :: string
  ld_metadata :: EnvMetadata

definition METADATA_PATH :: string where
  "METADATA_PATH = ''env.toml''"

definition PROJECT_PATH_PREFIX :: string where
  "PROJECT_PATH_PREFIX = ''lib/''"

text \<open>External operations: IRIs, JSON, TOML printing.\<close>

record 'iri local_ops =
  lo_iri :: "'iri iri_ops"
  lo_iri_parse :: "string \<Rightarrow> ('iri, string) result"
  lo_json :: json_ops
  lo_print :: "toml_table \<Rightarrow> string"

definition fs_join :: "string \<Rightarrow> string \<Rightarrow> string" where
  "fs_join root rel = (if starts_with [SLASH] rel then rel else path_join root rel)"

definition metadata_path :: "LocalDirectoryEnvironment \<Rightarrow> string" where
  "metadata_path env = fs_join (ld_root_dir env) METADATA_PATH"

section \<open>Files\<close>

definition write_file :: "io \<Rightarrow> string \<Rightarrow> string \<Rightarrow> world \<Rightarrow> world \<times> (unit, FsIoError) result" where
  "write_file io p content w =
    (if op_fails io (tick w) then
       (w\<lparr>tick := tick w + 1, files := (case partial_copy io (tick w) of
            None \<Rightarrow> files w
          | Some part \<Rightarrow> (files w)(p := Some (FileItem part)))\<rparr>, Err (WriteFile p))
     else (w\<lparr>tick := tick w + 1, files := (files w)(p := Some (FileItem content))\<rparr>, Ok ()))"

definition env_write ::
  "'iri local_ops \<Rightarrow> io \<Rightarrow> LocalDirectoryEnvironment \<Rightarrow> world \<Rightarrow> world \<times> (unit, FsIoError) result" where
  "env_write L io env w =
    write_file io (metadata_path env) (lo_print L (metadata_to_toml (ld_metadata env))) w"

definition ensure_lib_dir_exists ::
  "io \<Rightarrow> LocalDirectoryEnvironment \<Rightarrow> world \<Rightarrow> world \<times> (unit, FsIoError) result" where
  "ensure_lib_dir_exists io env w =
    (let lib_dir = fs_join (ld_root_dir env) PROJECT_PATH_PREFIX;
         w' = w\<lparr>tick := tick w + 1\<rparr> in
     if path_exists w lib_dir then (w', Ok ())
     else if op_fails io (tick w) then (w', Err (MkDir lib_dir))
     else (w'\<lparr>files := (files w)(lib_dir \<mapsto> DirItem [])\<rparr>, Ok ()))"

text \<open>\<open>clean_dir\<close> followed by \<^verbatim>\<open>remove_dir\<close>, failures of both ignored.\<close>

definition remove_project_dir :: "io \<Rightarrow> string \<Rightarrow> world \<Rightarrow> world" where
  "remove_project_dir io dir w =
    (case files w dir of
       Some (DirItem es) \<Rightarrow>
         (case clean_dir io es (tick w) of
            (rest, n) \<Rightarrow>
              w\<lparr>tick := n + 1, files := (files w)(dir :=
                (if op_fails io n \<or> rest \<noteq> [] then Some (DirItem rest) else None))\<rparr>)
     | _ \<Rightarrow> w\<lparr>tick := tick w + 2\<rparr>)"

section \<open>Where projects are\<close>

definition is_installed :: "EnvProject \<Rightarrow> bool" where
  "is_installed p \<longleftrightarrow>
    (let pre = components PROJECT_PATH_PREFIX in take (length pre) (components (ep_path p)) = pre)"

definition parent_dir :: "LocalDirectoryEnvironment \<Rightarrow> string list option" where
  "parent_dir env =
    (let ns = abs_names (ld_root_dir env) in if ns = [] then None else Some (butlast ns))"

fun push_components :: "string list \<Rightarrow> Utf8Component list \<Rightarrow> string list option" where
  "push_components absolute [] = Some absolute"
| "push_components absolute (ParentDir # cs) = push_components (butlast absolute) cs"
| "push_components absolute (Normal c # cs) = push_components (absolute @ [c]) cs"
| "push_components absolute (_ # cs) = None"

definition get_project_storage ::
  "LocalDirectoryEnvironment \<Rightarrow> EnvProject \<Rightarrow> string LocalSrcProject option" where
  "get_project_storage env project =
    (let relative = ep_path project in
     if ep_editable project then
       Option.bind (parent_dir env) (\<lambda>parent.
       Option.bind (push_components parent (components relative)) (\<lambda>absolute.
       Some \<lparr>ls_nominal_path = Some relative, ls_project_path = path_string absolute,
         ls_expected_checksum = None\<rparr>))
     else if abs_names (ld_root_dir env) = [] then None
     else Some \<lparr>ls_nominal_path = Some (path_join (last (abs_names (ld_root_dir env))) relative),
       ls_project_path = fs_join (ld_root_dir env) relative, ls_expected_checksum = None\<rparr>)"

definition file_name :: "string \<Rightarrow> string option" where
  "file_name path = (case rev (components path) of Normal n # _ \<Rightarrow> Some n | _ \<Rightarrow> None)"

text \<open>The test of the loop: whether a candidate is taken, \<^term>\<open>None\<close> if the path of an installed
  project has no file name.\<close>

fun name_taken :: "EnvProject list \<Rightarrow> string \<Rightarrow> bool option" where
  "name_taken [] candidate = Some False"
| "name_taken (p # ps) candidate =
    (if is_installed p then
       (case file_name (ep_path p) of
          None \<Rightarrow> None
        | Some n \<Rightarrow> if n = candidate then Some True else name_taken ps candidate)
     else name_taken ps candidate)"

partial_function (option) candidate_loop ::
  "EnvProject list \<Rightarrow> IriVersionFilename \<Rightarrow> string \<Rightarrow> IriVersionFilename option" where
  "candidate_loop ps path_iter candidate =
    Option.bind (name_taken ps candidate) (\<lambda>taken.
      if taken then candidate_loop ps (fst (next_candidate path_iter)) (snd (next_candidate path_iter))
      else Some path_iter)"

definition compute_project_path ::
  "'iri iri_ops \<Rightarrow> EnvProject list \<Rightarrow> 'iri \<Rightarrow> string \<Rightarrow> string option" where
  "compute_project_path U projects iri version =
    Option.bind (filename_new U iri version) (\<lambda>it.
      map_option (\<lambda>path_iter. PROJECT_PATH_PREFIX @ ivf_filename path_iter)
        (candidate_loop projects (fst (next_candidate it)) (snd (next_candidate it))))"

section \<open>Taking over a lock\<close>

fun first_editable :: "Source list \<Rightarrow> string option" where
  "first_editable (Editable editable # _) = Some editable"
| "first_editable _ = None"

definition editable_project ::
  "('p, 'iri) Workspace option \<Rightarrow> LockProject \<Rightarrow> string \<Rightarrow> EnvProject" where
  "editable_project ws project editable =
    \<lparr>ep_publisher = p_publisher project, ep_name = p_name project, ep_version = p_version project,
     ep_path = editable, ep_identifiers = p_identifiers project, ep_usages = p_usages project,
     ep_editable = True,
     ep_workspace = (case ws of
         None \<Rightarrow> False
       | Some w \<Rightarrow> list_ex (\<lambda>p. wp_path p = editable) (wi_projects (ws_info w))),
     ep_checksum = None\<rparr>"

definition merge_lock ::
  "Lock \<Rightarrow> ('p, 'iri) Workspace option \<Rightarrow> LocalDirectoryEnvironment \<Rightarrow> LocalDirectoryEnvironment" where
  "merge_lock lock ws env =
    env\<lparr>ld_metadata := (ld_metadata env)\<lparr>em_projects :=
      filter is_installed (em_projects (ld_metadata env))
      @ List.map_filter (\<lambda>project. map_option (editable_project ws project)
          (first_editable (p_sources project))) (lock_projects lock)\<rparr>\<rparr>"

section \<open>Reading\<close>

datatype LocalReadError = ProjectNotFound string | LocalReadIo FsIoError

definition ld_uris ::
  "LocalDirectoryEnvironment \<Rightarrow> ((string, LocalReadError) result list, LocalReadError) result" where
  "ld_uris env = Ok (map Ok (concat (map ep_identifiers (em_projects (ld_metadata env)))))"

definition ld_versions ::
  "LocalDirectoryEnvironment \<Rightarrow> string \<Rightarrow> ((string, LocalReadError) result list, LocalReadError) result" where
  "ld_versions env uri = Ok (map (\<lambda>p. Ok (ep_version p)) (find_project_versions (ld_metadata env) uri))"

definition ld_get_project ::
  "LocalDirectoryEnvironment \<Rightarrow> string \<Rightarrow> string \<Rightarrow> (string LocalSrcProject, LocalReadError) result option" where
  "ld_get_project env uri version =
    (case find_project_version (ld_metadata env) uri version of
       Some project \<Rightarrow> map_option Ok (get_project_storage env project)
     | None \<Rightarrow> Some (Err (ProjectNotFound uri)))"

definition ld_has_version_verified ::
  "LocalDirectoryEnvironment \<Rightarrow> string \<Rightarrow> string \<Rightarrow> ProjectChecksum
   \<Rightarrow> (ProjectChecksumResult, LocalReadError) result" where
  "ld_has_version_verified env uri version checksum =
    (case find_project_version (ld_metadata env) uri version of
       None \<Rightarrow> Ok VersionNotFound
     | Some p \<Rightarrow>
         (case (checksum, ep_checksum p) of
            (_, None) \<Rightarrow> Ok ChecksumNotPresent
          | (ProjectSum c, Some (SrcCksum src_cksum)) \<Rightarrow> Ok (if c = src_cksum then Match else Mismatch)
          | (KparSum c, Some (KparCksum kpar_cksum)) \<Rightarrow> Ok (if c = kpar_cksum then Match else Mismatch)
          | _ \<Rightarrow> Ok DifferentChecksumKinds))"

section \<open>Writing\<close>

datatype LocalWriteError =
    LwDeserialize string
  | LwSerialize string
  | LwPath PathError
  | LwAlreadyExists string
  | LwIo FsIoError
  | LwTryMove TryMoveError
  | LwLocalRead LocalReadError
  | LwAddProject "LocalSrcError AddProjectError"
  | LwImpossibleRelativePath RelativizePathError
  | LwMissingMeta
  | LwMissingInfoMeta

fun write_error_from_src :: "LocalSrcError \<Rightarrow> LocalWriteError" where
  "write_error_from_src (DeserializeError e) = LwDeserialize e"
| "write_error_from_src (PathErr e) = LwPath e"
| "write_error_from_src (LsAlreadyExists msg) = LwAlreadyExists msg"
| "write_error_from_src (Io e) = LwIo e"
| "write_error_from_src (SerializeError e) = LwSerialize e"
| "write_error_from_src (ImpossibleRelativePath e) = LwImpossibleRelativePath e"
| "write_error_from_src LsMissingMeta = LwMissingMeta"
| "write_error_from_src LsMissingInfoMeta = LwMissingInfoMeta"

fun write_error_from_read :: "LocalReadError \<Rightarrow> LocalWriteError" where
  "write_error_from_read (LocalReadIo e) = LwIo e"
| "write_error_from_read (ProjectNotFound uri) = LwLocalRead (ProjectNotFound uri)"

definition info_at ::
  "'iri local_ops \<Rightarrow> string \<Rightarrow> world \<Rightarrow> (InterchangeProjectInfoRaw option, LocalSrcError) result" where
  "info_at L dir w =
    (case files w dir of
       Some tree \<Rightarrow> local_get_info (lo_json L) (abs_names dir, tree)
     | None \<Rightarrow> Ok None)"

definition overwrite_project ::
  "InterchangeProjectInfoRaw \<Rightarrow> ProjectChecksum option \<Rightarrow> EnvProject \<Rightarrow> EnvProject" where
  "overwrite_project info checksum existing =
    existing\<lparr>ep_publisher := i_publisher info, ep_name := i_name info, ep_version := i_version info,
      ep_usages := usage_resources info, ep_checksum := map_option env_checksum_from checksum\<rparr>"

text \<open>The temporary directory of the project to be installed goes when the operation returns.\<close>

definition drop_dir :: "string \<Rightarrow> world \<Rightarrow> world" where
  "drop_dir d w = w\<lparr>files := (files w)(d := None)\<rparr>"

type_synonym 'c put_result =
  "((LocalDirectoryEnvironment \<times> world)
    \<times> (string LocalSrcProject, (LocalWriteError, 'c) PutProjectError) result) option"

definition finish_put ::
  "'iri local_ops \<Rightarrow> io \<Rightarrow> string \<Rightarrow> string LocalSrcProject \<Rightarrow> LocalDirectoryEnvironment \<Rightarrow> world \<Rightarrow> 'c put_result" where
  "finish_put L io temp project env w =
    (case env_write L io env w of
       (w', Err e) \<Rightarrow> Some ((env, drop_dir temp w'), Err (PutWrite (LwIo e)))
     | (w', Ok _) \<Rightarrow> Some ((env, drop_dir temp w'), Ok project))"

definition put_existing ::
  "'iri local_ops \<Rightarrow> io \<Rightarrow> string \<Rightarrow> string option \<Rightarrow> string \<Rightarrow> string \<Rightarrow> ProjectChecksum option
   \<Rightarrow> EnvProject \<Rightarrow> item \<Rightarrow> LocalDirectoryEnvironment \<Rightarrow> world \<Rightarrow> 'c put_result" where
  "put_existing L io temp move_temp identifier version checksum existing tree env w =
    (let absolute_path = fs_join (ld_root_dir env) (ep_path existing) in
     case try_move_files io move_temp [(temp, absolute_path)] (w\<lparr>files := (files w)(temp \<mapsto> tree)\<rparr>) of
       (w1, Err e) \<Rightarrow> Some ((env, drop_dir temp w1), Err (PutWrite (LwTryMove e)))
     | (w1, Ok _) \<Rightarrow>
         (case info_at L absolute_path w1 of
            Err e \<Rightarrow> Some ((env, drop_dir temp w1), Err (PutWrite (write_error_from_src e)))
          | Ok None \<Rightarrow> Some ((env, drop_dir temp w1), Err (PutWrite LwMissingInfoMeta))
          | Ok (Some info) \<Rightarrow>
              finish_put L io temp
                \<lparr>ls_nominal_path = None, ls_project_path = absolute_path, ls_expected_checksum = None\<rparr>
                (env\<lparr>ld_metadata := (ld_metadata env)\<lparr>em_projects :=
                   update_first (is_version identifier version) (overwrite_project info checksum)
                     (em_projects (ld_metadata env))\<rparr>\<rparr>) w1))"

definition put_new ::
  "'iri local_ops \<Rightarrow> io \<Rightarrow> string \<Rightarrow> string option \<Rightarrow> string \<Rightarrow> string \<Rightarrow> ProjectChecksum option
   \<Rightarrow> item \<Rightarrow> LocalDirectoryEnvironment \<Rightarrow> world \<Rightarrow> 'c put_result" where
  "put_new L io temp move_temp identifier version checksum tree env w =
    (case lo_iri_parse L identifier of
       Err e \<Rightarrow> Some ((env, w), Err (PutIriParse identifier e))
     | Ok iri \<Rightarrow>
        Option.bind (compute_project_path (lo_iri L) (em_projects (ld_metadata env)) iri version) (\<lambda>path.
        let absolute_path = fs_join (ld_root_dir env) path in
        case ensure_lib_dir_exists io env w of
          (w1, Err e) \<Rightarrow> Some ((env, w1), Err (PutWrite (LwIo e)))
        | (w1, Ok _) \<Rightarrow>
            (case try_move_files io move_temp [(temp, absolute_path)]
                (w1\<lparr>files := (files w1)(temp \<mapsto> tree)\<rparr>) of
               (w2, Err e) \<Rightarrow> Some ((env, drop_dir temp w2), Err (PutWrite (LwTryMove e)))
             | (w2, Ok _) \<Rightarrow>
                 let project = \<lparr>ls_nominal_path = Some path, ls_project_path = absolute_path,
                       ls_expected_checksum = None\<rparr> in
                 Option.bind (add_local_project [identifier] project (info_at L absolute_path w2)
                     False False checksum (ld_metadata env)) (\<lambda>added.
                 case added of
                   Err e \<Rightarrow> Some ((env, drop_dir temp w2), Err (PutWrite (LwAddProject e)))
                 | Ok metadata \<Rightarrow> finish_put L io temp project (env\<lparr>ld_metadata := metadata\<rparr>) w2))))"

definition ld_put_project ::
  "'iri local_ops \<Rightarrow> io \<Rightarrow> string option \<Rightarrow> string option \<Rightarrow> string \<Rightarrow> string \<Rightarrow> ProjectChecksum option
   \<Rightarrow> (item \<Rightarrow> (item, 'c) result) \<Rightarrow> LocalDirectoryEnvironment \<Rightarrow> world \<Rightarrow> 'c put_result" where
  "ld_put_project L io project_temp move_temp identifier version checksum write_project env w =
    (case project_temp of
       None \<Rightarrow> Some ((env, w), Err (PutWrite (LwIo MkTempDir)))
     | Some temp \<Rightarrow>
        (case find_project_version (ld_metadata env) identifier version of
           Some existing \<Rightarrow>
             if ep_editable existing \<or> ep_workspace existing then None
             else (case write_project (DirItem []) of
                 Err c \<Rightarrow> Some ((env, w), Err (PutCallback c))
               | Ok tree \<Rightarrow> put_existing L io temp move_temp identifier version checksum existing tree env w)
         | None \<Rightarrow>
            (case write_project (DirItem []) of
               Err c \<Rightarrow> Some ((env, w), Err (PutCallback c))
             | Ok tree \<Rightarrow> put_new L io temp move_temp identifier version checksum tree env w)))"

section \<open>Removing\<close>

definition swap_remove :: "nat \<Rightarrow> 'a list \<Rightarrow> 'a list option" where
  "swap_remove i xs = (if i < length xs then Some (butlast (xs[i := last xs])) else None)"

definition remove_unless_editable ::
  "io \<Rightarrow> LocalDirectoryEnvironment \<Rightarrow> EnvProject \<Rightarrow> world \<Rightarrow> world" where
  "remove_unless_editable io env p w =
    (if ep_editable p then w else remove_project_dir io (fs_join (ld_root_dir env) (ep_path p)) w)"

definition write_removed ::
  "'iri local_ops \<Rightarrow> io \<Rightarrow> EnvProject list \<Rightarrow> LocalDirectoryEnvironment \<Rightarrow> world
   \<Rightarrow> (LocalDirectoryEnvironment \<times> world) \<times> (unit, LocalWriteError) result" where
  "write_removed L io projects env w =
    (let env' = env\<lparr>ld_metadata := (ld_metadata env)\<lparr>em_projects := projects\<rparr>\<rparr> in
     case env_write L io env' w of (w', r) \<Rightarrow> ((env', w'), map_err LwIo r))"

definition ld_del_project_version ::
  "'iri local_ops \<Rightarrow> io \<Rightarrow> string \<Rightarrow> string \<Rightarrow> LocalDirectoryEnvironment \<Rightarrow> world
   \<Rightarrow> ((LocalDirectoryEnvironment \<times> world) \<times> (unit, LocalWriteError) result) option" where
  "ld_del_project_version L io identifier version env w =
    (case find_project_version_idx (ld_metadata env) identifier version of
       None \<Rightarrow> Some ((env, w), Ok ())
     | Some (idx, project) \<Rightarrow>
         if ep_workspace project then None
         else map_option (\<lambda>projects. write_removed L io projects env (remove_unless_editable io env project w))
                (swap_remove idx (em_projects (ld_metadata env))))"

text \<open>The first loop removes directories, the second the entries, from the last to the first.\<close>

fun remove_dirs ::
  "io \<Rightarrow> LocalDirectoryEnvironment \<Rightarrow> (nat \<times> EnvProject) list \<Rightarrow> world \<Rightarrow> world option" where
  "remove_dirs io env [] w = Some w"
| "remove_dirs io env ((idx, p) # ps) w =
    (if ep_workspace p then None else remove_dirs io env ps (remove_unless_editable io env p w))"

fun swap_remove_all :: "nat list \<Rightarrow> 'a list \<Rightarrow> 'a list option" where
  "swap_remove_all [] xs = Some xs"
| "swap_remove_all (i # rest) xs = Option.bind (swap_remove i xs) (swap_remove_all rest)"

definition ld_del_uri ::
  "'iri local_ops \<Rightarrow> io \<Rightarrow> string \<Rightarrow> LocalDirectoryEnvironment \<Rightarrow> world
   \<Rightarrow> ((LocalDirectoryEnvironment \<times> world) \<times> (unit, LocalWriteError) result) option" where
  "ld_del_uri L io uri env w =
    (let idxs = find_project_versions_idxs (ld_metadata env) uri in
     Option.bind (remove_dirs io env idxs w) (\<lambda>w1.
     Option.bind (swap_remove_all (rev (map fst idxs)) (em_projects (ld_metadata env))) (\<lambda>projects.
     Some (write_removed L io projects env w1))))"

section \<open>Free paths\<close>

definition installed_names :: "EnvProject list \<Rightarrow> string list" where
  "installed_names ps = map (\<lambda>p. the (file_name (ep_path p))) (filter is_installed ps)"

text \<open>Every path that counts as installed has a file name.\<close>

definition named :: "EnvProject list \<Rightarrow> bool" where
  "named ps \<longleftrightarrow> list_all (\<lambda>p. \<not> is_installed p \<or> file_name (ep_path p) \<noteq> None) ps"

lemma name_taken_named:
  "named ps \<Longrightarrow> name_taken ps candidate = Some (candidate \<in> set (installed_names ps))"
  by (induction ps) (auto simp: named_def installed_names_def split: option.splits)

text \<open>Among the first candidates of a generator one is free, and the loop finds it.\<close>

lemma free_candidate:
  assumes "inj_on (nth_candidate it) {k. k < 2 ^ 32}" and "length ps < 2 ^ 32"
  shows "\<exists>n < 2 ^ 32. nth_candidate it n \<notin> set (installed_names ps)"
proof (rule ccontr)
  assume none: "\<not> ?thesis"
  have sub: "nth_candidate it ` {k. k \<le> length ps} \<subseteq> set (installed_names ps)"
  proof (rule image_subsetI)
    fix k
    assume "k \<in> {k. k \<le> length ps}"
    then have "k < 2 ^ 32" using assms(2) by simp
    then show "nth_candidate it k \<in> set (installed_names ps)" using none by blast
  qed
  have "inj_on (nth_candidate it) {k. k \<le> length ps}"
    by (rule inj_on_subset [OF assms(1)]) (use assms(2) in auto)
  then have "card (nth_candidate it ` {k. k \<le> length ps}) = Suc (length ps)"
    by (simp add: card_image)
  then have "Suc (length ps) \<le> card (set (installed_names ps))"
    using card_mono [OF finite_set sub] by simp
  also have "\<dots> \<le> length (installed_names ps)" by (rule card_length)
  also have "\<dots> \<le> length ps" by (simp add: installed_names_def)
  finally show False by simp
qed

lemma candidate_loop_finds:
  assumes "named ps" and "nth_candidate it n \<notin> set (installed_names ps)"
    and "k \<le> n"
  shows "\<exists>j. candidate_loop ps (((fst \<circ> next_candidate) ^^ Suc k) it) (nth_candidate it k)
      = Some (((fst \<circ> next_candidate) ^^ Suc j) it)
    \<and> k \<le> j \<and> j \<le> n \<and> nth_candidate it j \<notin> set (installed_names ps)"
  using assms(3)
proof (induction "n - k" arbitrary: k)
  case 0
  then have "k = n" by simp
  then show ?case
    using assms(2) name_taken_named [OF assms(1)] by (subst candidate_loop.simps) auto
next
  case (Suc m)
  show ?case
  proof (cases "nth_candidate it k \<in> set (installed_names ps)")
    case False
    then show ?thesis
      using Suc.prems name_taken_named [OF assms(1)] by (subst candidate_loop.simps) auto
  next
    case True
    then have "k \<noteq> n" using assms(2) by auto
    then have "m = n - Suc k" "Suc k \<le> n" using Suc by auto
    from Suc.hyps(1) [OF this] obtain j where
      "candidate_loop ps (((fst \<circ> next_candidate) ^^ Suc (Suc k)) it) (nth_candidate it (Suc k))
        = Some (((fst \<circ> next_candidate) ^^ Suc j) it)"
      "Suc k \<le> j" "j \<le> n" "nth_candidate it j \<notin> set (installed_names ps)" by blast
    then show ?thesis
      using True name_taken_named [OF assms(1)]
      by (subst candidate_loop.simps) (auto simp: nth_candidate_def)
  qed
qed

lemma nth_candidate_filename:
  "ivf_filename (((fst \<circ> next_candidate) ^^ Suc j) it) = nth_candidate it j"
  by (simp add: nth_candidate_def next_candidate_def Let_def)

lemma components_lib:
  assumes "components name = [Normal name]"
  shows "components (PROJECT_PATH_PREFIX @ name) = [Normal ''lib'', Normal name]"
    and "file_name (PROJECT_PATH_PREFIX @ name) = Some name"
proof -
  have n: "name \<noteq> ''..''" "name \<noteq> ''.''" "name \<noteq> []" "SLASH \<notin> set name"
    using components_Normal [of name name] assms by auto
  have "split_on SLASH (''lib'' @ SLASH # name) = [''lib'', name]"
    using n(4) by (simp add: split_on_append_sep split_on_no_sep)
  then have "split_on SLASH (PROJECT_PATH_PREFIX @ name) = [''lib'', name]"
    by (simp add: PROJECT_PATH_PREFIX_def)
  moreover have "\<not> starts_with [SLASH] (PROJECT_PATH_PREFIX @ name)"
    by (simp add: PROJECT_PATH_PREFIX_def starts_with_def)
  ultimately show c: "components (PROJECT_PATH_PREFIX @ name) = [Normal ''lib'', Normal name]"
    using n by (simp add: components_def)
  then show "file_name (PROJECT_PATH_PREFIX @ name) = Some name" by (simp add: file_name_def)
qed

lemma compute_project_path_free:
  assumes "slash_law U" and "named ps" and "length ps < 2 ^ 32"
  obtains name where "compute_project_path U ps iri version = Some (PROJECT_PATH_PREFIX @ name)"
    "components name = [Normal name]" "name \<notin> set (installed_names ps)" "length name \<le> 162"
proof -
  note fc = candidates_spec [OF assms(1), of _ iri version]
  have "(0 :: nat) < 2 ^ 32" by simp
  from fc [OF this] obtain it where it: "filename_new U iri version = Some it"
    "inj_on (nth_candidate it) {k. k < 2 ^ 32}" by blast
  obtain n where n: "n < 2 ^ 32" "nth_candidate it n \<notin> set (installed_names ps)"
    using free_candidate [OF it(2) assms(3)] by blast
  obtain j where j: "candidate_loop ps (((fst \<circ> next_candidate) ^^ Suc 0) it) (nth_candidate it 0)
      = Some (((fst \<circ> next_candidate) ^^ Suc j) it)" "j \<le> n" "nth_candidate it j \<notin> set (installed_names ps)"
    using candidate_loop_finds [OF assms(2) n(2), of 0] by auto
  have "j < 2 ^ 32" using j(2) n(1) by simp
  from fc [OF this] have "components (nth_candidate it j) = [Normal (nth_candidate it j)]"
    "length (nth_candidate it j) \<le> 162" using it(1) by auto
  moreover have "compute_project_path U ps iri version = Some (PROJECT_PATH_PREFIX @ nth_candidate it j)"
    using it(1) j(1) nth_candidate_filename [of j it]
    by (simp add: compute_project_path_def nth_candidate_def)
  ultimately show ?thesis using j(3) by (intro that)
qed

section \<open>Removal\<close>

lemma swap_remove_Some:
  assumes "i < length xs"
  shows "swap_remove i xs = Some (butlast (xs[i := last xs]))"
    and "take i (butlast (xs[i := last xs])) = take i xs"
    and "mset xs = add_mset (xs ! i) (mset (butlast (xs[i := last xs])))"
    and "length (butlast (xs[i := last xs])) = length xs - 1"
proof -
  show "swap_remove i xs = Some (butlast (xs[i := last xs]))" using assms by (simp add: swap_remove_def)
  show "take i (butlast (xs[i := last xs])) = take i xs"
    using assms by (cases xs rule: rev_cases) (auto simp: butlast_conv_take min_def)
  show "length (butlast (xs[i := last xs])) = length xs - 1" by simp
  obtain ys y where xs: "xs = ys @ [y]" using assms by (cases xs rule: rev_cases) auto
  show "mset xs = add_mset (xs ! i) (mset (butlast (xs[i := last xs])))"
  proof (cases "i = length ys")
    case True
    then show ?thesis by (simp add: xs)
  next
    case False
    then have i: "i < length ys" using assms xs by simp
    then show ?thesis
      by (simp add: xs list_update_append nth_append butlast_append mset_update insert_DiffM)
  qed
qed

text \<open>Removing positions from the last to the first takes away exactly the elements that were at
  these positions to begin with.\<close>

lemma swap_remove_all_mset:
  assumes "sorted_wrt (>) idxs" and "\<forall>i \<in> set idxs. i < length xs"
  shows "\<exists>ys. swap_remove_all idxs xs = Some ys \<and> mset xs = mset ys + mset (map ((!) xs) idxs)"
  using assms
proof (induction idxs arbitrary: xs)
  case Nil
  then show ?case by simp
next
  case (Cons i idxs)
  let ?zs = "butlast (xs[i := last xs])"
  have i: "i < length xs" "\<forall>j \<in> set idxs. j < i" using Cons.prems by auto
  note sr = swap_remove_Some [OF i(1)]
  have "\<forall>j \<in> set idxs. j < length ?zs" using i by auto
  then obtain ys where ys: "swap_remove_all idxs ?zs = Some ys" "mset ?zs = mset ys + mset (map ((!) ?zs) idxs)"
    using Cons.IH [of ?zs] Cons.prems(1) by (auto simp del: mset_map)
  have "?zs ! j = xs ! j" if "j \<in> set idxs" for j
    using sr(2) i(2) that by (metis nth_take)
  then have eq: "map ((!) ?zs) idxs = map ((!) xs) idxs" by simp
  show ?case
    using ys(1) ys(2) [unfolded eq] sr(1,3) by (intro exI [of _ ys]) (simp del: mset_map)
qed

lemma matching_positions:
  fixes xs :: "'a list" and P :: "'a \<Rightarrow> bool"
  defines "hits \<equiv> filter (\<lambda>(_, x). P x) (enumerate 0 xs)"
  shows "sorted_wrt (>) (rev (map fst hits))"
    and "\<forall>i \<in> set (map fst hits). i < length xs"
    and "map ((!) xs) (map fst hits) = filter P xs"
    and "map snd hits = filter P xs"
proof -
  have el: "x = xs ! i \<and> i < length xs" if "(i, x) \<in> set (enumerate 0 xs)" for i x
    using that by (auto simp: in_set_enumerate_eq)
  have "sorted_wrt (<) (map fst (enumerate 0 xs))" by simp
  then have "sorted_wrt (\<lambda>a b. fst a < fst b) hits"
    unfolding hits_def sorted_wrt_map by (rule sorted_wrt_filter)
  then show "sorted_wrt (>) (rev (map fst hits))"
    by (simp add: sorted_wrt_rev sorted_wrt_map)
  show "\<forall>i \<in> set (map fst hits). i < length xs" using el by (auto simp: hits_def)
  have "map snd (filter (\<lambda>(_, x). P x) zs) = filter P (map snd zs)" for zs :: "(nat \<times> 'a) list"
    by (induction zs) auto
  then show s: "map snd hits = filter P xs" by (simp add: hits_def)
  have "map ((!) xs) (map fst hits) = map snd hits"
    using el by (auto simp: hits_def)
  then show "map ((!) xs) (map fst hits) = filter P xs" using s by simp
qed

lemma remove_dirs_no_panic:
  "\<forall>(_, p) \<in> set idxs. \<not> ep_workspace p \<Longrightarrow> \<exists>w'. remove_dirs io env idxs w = Some w'"
  by (induction io env idxs w rule: remove_dirs.induct) auto

text \<open>The entries that are left after the second loop of \<open>del_uri\<close>.\<close>

lemma swap_remove_matching:
  "\<exists>ys. swap_remove_all (rev (map fst (filter (\<lambda>(_, x). P x) (enumerate 0 xs)))) xs = Some ys
    \<and> mset ys = mset (filter (\<lambda>x. \<not> P x) xs)"
proof -
  let ?idxs = "map fst (filter (\<lambda>(_, x). P x) (enumerate 0 xs))"
  obtain ys where ys: "swap_remove_all (rev ?idxs) xs = Some ys"
    "mset xs = mset ys + mset (map ((!) xs) (rev ?idxs))"
    using swap_remove_all_mset [of "rev ?idxs" xs] matching_positions(1,2) [of P xs]
    by (auto simp del: mset_map)
  have "mset (map ((!) xs) (rev ?idxs)) = mset (filter P xs)"
    by (metis matching_positions(3) mset_rev rev_map)
  then have "mset ys + mset (filter P xs) = mset (filter (\<lambda>x. \<not> P x) xs) + mset (filter P xs)"
    using ys(2) by (metis multiset_partition mset_filter union_commute)
  then have "mset ys = mset (filter (\<lambda>x. \<not> P x) xs)" by (rule add_right_imp_eq)
  then show ?thesis using ys(1) by blast
qed

section \<open>Files\<close>

lemma clean_complete:
  assumes "\<forall>n. \<not> op_fails io n"
  shows "fst (clean_entries io es n) = []" and "fst (clean_dir io es n) = []"
  using assms
proof (induction io es n and io es n rule: clean_entries_clean_dir.induct)
  case (3 io name x es n)
  then show ?case by (cases x) (auto split: prod.splits)
qed auto

lemma remove_project_dir_files:
  "p \<noteq> dir \<Longrightarrow> files (remove_project_dir io dir w) p = files w p"
  "\<forall>n. \<not> op_fails io n \<Longrightarrow> files w dir = Some (DirItem es) \<Longrightarrow> files (remove_project_dir io dir w) dir = None"
proof -
  show "p \<noteq> dir \<Longrightarrow> files (remove_project_dir io dir w) p = files w p"
    by (auto simp: remove_project_dir_def split: option.splits item.splits prod.splits)
  assume nf: "\<forall>n. \<not> op_fails io n" and es: "files w dir = Some (DirItem es)"
  then show "files (remove_project_dir io dir w) dir = None"
    using clean_complete(2) [OF nf, of es "tick w"]
    by (cases "clean_dir io es (tick w)") (simp add: remove_project_dir_def del: clean_dir.simps)
qed

lemma remove_dirs_files:
  "remove_dirs io env idxs w = Some w'
    \<Longrightarrow> \<forall>(_, q) \<in> set idxs. p \<noteq> fs_join (ld_root_dir env) (ep_path q) \<Longrightarrow> files w' p = files w p"
  by (induction io env idxs w rule: remove_dirs.induct)
    (auto simp: remove_unless_editable_def remove_project_dir_files split: if_splits)

lemma write_file_files:
  "p \<noteq> t \<Longrightarrow> files (fst (write_file io t c w)) p = files w p"
  "snd (write_file io t c w) = Ok () \<Longrightarrow> files (fst (write_file io t c w)) t = Some (FileItem c)"
  "\<not> op_fails io (tick w) \<Longrightarrow> snd (write_file io t c w) = Ok ()"
  by (auto simp: write_file_def split: option.splits)

lemma write_removed_spec:
  assumes "write_removed L io ps env w = ((env', w'), r)"
  shows "env' = env\<lparr>ld_metadata := (ld_metadata env)\<lparr>em_projects := ps\<rparr>\<rparr>"
    and "p \<noteq> metadata_path env \<Longrightarrow> files w' p = files w p"
    and "r = Ok () \<Longrightarrow> files w' (metadata_path env)
      = Some (FileItem (lo_print L (metadata_to_toml (ld_metadata env'))))"
proof -
  have m: "metadata_path (env\<lparr>ld_metadata := M\<rparr>) = metadata_path env" for M
    by (simp add: metadata_path_def)
  obtain v s where wf: "write_file io (metadata_path env)
      (lo_print L (metadata_to_toml ((ld_metadata env)\<lparr>em_projects := ps\<rparr>))) w = (v, s)" by force
  have e: "env' = env\<lparr>ld_metadata := (ld_metadata env)\<lparr>em_projects := ps\<rparr>\<rparr>" "w' = v" "r = map_err LwIo s"
    using assms wf by (auto simp: write_removed_def env_write_def m Let_def)
  then show "env' = env\<lparr>ld_metadata := (ld_metadata env)\<lparr>em_projects := ps\<rparr>\<rparr>" by simp
  show "p \<noteq> metadata_path env \<Longrightarrow> files w' p = files w p"
    using write_file_files(1) wf e(2) by (metis fst_conv)
  have "r = Ok () \<Longrightarrow> s = Ok ()" using e(3) by (cases s) auto
  then show "r = Ok () \<Longrightarrow> files w' (metadata_path env)
      = Some (FileItem (lo_print L (metadata_to_toml (ld_metadata env'))))"
    using write_file_files(2) [of io "metadata_path env"
        "lo_print L (metadata_to_toml ((ld_metadata env)\<lparr>em_projects := ps\<rparr>))" w] wf e(1,2)
    by simp
qed

section \<open>Properties\<close>

text \<open>C9: deleting an IRI removes exactly the entries that carry it. Unless one of them is a
  workspace project, the call returns whatever I/O errors occur; the entries left are those
  without the IRI, no version of the IRI is found afterwards, and no file changes but
  \<^verbatim>\<open>env.toml\<close> and what is at the paths of the removed projects.\<close>

theorem ld_del_uri_exact:
  assumes "list_all (\<lambda>p. \<not> (has_identifier uri p \<and> ep_workspace p)) (em_projects (ld_metadata env))"
  shows "\<exists>env' w' r. ld_del_uri L io uri env w = Some ((env', w'), r)
    \<and> mset (em_projects (ld_metadata env'))
        = {# p \<in># mset (em_projects (ld_metadata env)). \<not> has_identifier uri p #}
    \<and> ld_versions env' uri = Ok []
    \<and> (\<forall>f. f \<noteq> metadata_path env
        \<longrightarrow> list_all (\<lambda>p. f \<noteq> fs_join (ld_root_dir env) (ep_path p))
              (find_project_versions (ld_metadata env) uri)
        \<longrightarrow> files w' f = files w f)"
proof -
  let ?ps = "em_projects (ld_metadata env)"
  define idxs where "idxs = find_project_versions_idxs (ld_metadata env) uri"
  note mp = matching_positions [where P = "has_identifier uri" and xs = ?ps, folded find_project_versions_idxs_def, folded idxs_def]
  have hits: "snd ` set idxs = set (filter (has_identifier uri) ?ps)"
    using mp(4) by (metis image_set)
  then have "\<forall>(_, p) \<in> set idxs. \<not> ep_workspace p"
    using assms by (fastforce simp: list_all_iff)
  then obtain w1 where w1: "remove_dirs io env idxs w = Some w1" using remove_dirs_no_panic by blast
  obtain ys where ys: "swap_remove_all (rev (map fst idxs)) ?ps = Some ys"
    "mset ys = mset (filter (\<lambda>x. \<not> has_identifier uri x) ?ps)"
    using swap_remove_matching [of "has_identifier uri" ?ps]
    unfolding idxs_def find_project_versions_idxs_def by blast
  obtain env' w' r where wr: "write_removed L io ys env w1 = ((env', w'), r)" by (metis prod.exhaust)
  note spec = write_removed_spec [OF wr]
  have run: "ld_del_uri L io uri env w = Some ((env', w'), r)"
    using w1 ys(1) wr by (simp add: ld_del_uri_def idxs_def Let_def)
  have "set ys = set (filter (\<lambda>x. \<not> has_identifier uri x) ?ps)" using ys(2) by (metis set_mset_mset)
  then have none: "ld_versions env' uri = Ok []"
    using spec(1) by (simp add: ld_versions_def find_project_versions_def)
  have "files w' f = files w f" if "f \<noteq> metadata_path env"
    "list_all (\<lambda>p. f \<noteq> fs_join (ld_root_dir env) (ep_path p)) (find_project_versions (ld_metadata env) uri)" for f
    using spec(2) [OF that(1)] remove_dirs_files [OF w1, of f] that(2) hits
    by (fastforce simp: list_all_iff find_project_versions_def)
  then show ?thesis using run none spec(1) ys(2) by auto
qed

text \<open>the path of a new project. The search for a free directory ends (unless \<open>2 ^ 32\<close>
  projects are installed) and returns \<^verbatim>\<open>lib/\<close> with one ordinary component of at most 162 bytes,
  which no installed project has as its file name.\<close>

theorem compute_project_path_returns:
  assumes "slash_law U" and "named ps" and "length ps < 2 ^ 32"
  shows "\<exists>name. compute_project_path U ps iri version = Some (''lib/'' @ name)
    \<and> components name = [Normal name] \<and> length name \<le> 162
    \<and> list_all (\<lambda>p. \<not> (is_installed p \<and> file_name (ep_path p) = Some name)) ps"
proof -
  obtain name where name: "compute_project_path U ps iri version = Some (PROJECT_PATH_PREFIX @ name)"
    "components name = [Normal name]" "name \<notin> set (installed_names ps)" "length name \<le> 162"
    using compute_project_path_free [OF assms] by metis
  have "list_all (\<lambda>p. \<not> (is_installed p \<and> file_name (ep_path p) = Some name)) ps"
    using name(3) by (force simp: installed_names_def list_all_iff)
  then show ?thesis using name by (auto simp: PROJECT_PATH_PREFIX_def)
qed

definition sample_env_project :: EnvProject where
  "sample_env_project = \<lparr>ep_publisher = None, ep_name = ''old'', ep_version = ''1.0'',
    ep_path = ''lib/old_1.0'', ep_identifiers = [''urn:kpar:old'', ''urn:x''], ep_usages = [],
    ep_editable = False, ep_workspace = False, ep_checksum = None\<rparr>"

definition sample_local_env :: LocalDirectoryEnvironment where
  "sample_local_env = \<lparr>ld_root_dir = ''/w/.sysand'', ld_metadata = \<lparr>em_version = ''0.1'',
    em_projects = [sample_env_project, sample_env_project\<lparr>ep_path := ''lib/b'', ep_identifiers := [''urn:b'']\<rparr>]\<rparr>\<rparr>"

lemma sample_named: "named (em_projects (ld_metadata sample_local_env))"
  by code_simp

theorem compute_project_path_returns_witness:
  "\<exists>name. compute_project_path sample_ops (em_projects (ld_metadata sample_local_env)) ''urn:kpar:old'' ''1.0''
      = Some (''lib/'' @ name) \<and> name \<noteq> ''old_1.0'' \<and> name \<noteq> ''b''"
proof -
  have "length (em_projects (ld_metadata sample_local_env)) < 2 ^ 32" by (simp add: sample_local_env_def)
  from compute_project_path_returns [OF sample_slash_law sample_named this, of "''urn:kpar:old''" "''1.0''"]
  obtain name where name: "compute_project_path sample_ops (em_projects (ld_metadata sample_local_env)) ''urn:kpar:old'' ''1.0''
      = Some (''lib/'' @ name)" "list_all (\<lambda>p. \<not> (is_installed p \<and> file_name (ep_path p) = Some name))
        (em_projects (ld_metadata sample_local_env))" by blast
  have "list_all (\<lambda>p. is_installed p) (em_projects (ld_metadata sample_local_env))"
    "map (\<lambda>p. file_name (ep_path p)) (em_projects (ld_metadata sample_local_env)) = [Some ''old_1.0'', Some ''b'']"
    by code_simp+
  then show ?thesis using name by (auto simp: sample_local_env_def)
qed

definition sample_local_ops :: "string local_ops" where
  "sample_local_ops = \<lparr>lo_iri = sample_ops, lo_iri_parse = Ok,
    lo_json = \<lparr>parse_info = (\<lambda>_. Some \<lparr>i_name = ''n'', i_publisher = None, i_description = None,
        i_version = ''2.0'', i_license = None, i_maintainer = [], i_website = None, i_topic = [], i_usage = []\<rparr>),
      pretty_info = (\<lambda>_. ''x''), parse_meta = (\<lambda>_. None), pretty_meta = (\<lambda>_. ''x'')\<rparr>,
    lo_print = (\<lambda>_. ''printed'')\<rparr>"

theorem ld_del_uri_exact_witness:
  "\<exists>env' w' r. ld_del_uri sample_local_ops sample_io ''urn:x'' sample_local_env sample_world = Some ((env', w'), r)
    \<and> em_projects (ld_metadata env') = [sample_env_project\<lparr>ep_path := ''lib/b'', ep_identifiers := [''urn:b'']\<rparr>]
    \<and> files w' ''/a'' = Some (FileItem ''one'')"
proof -
  have hy: "list_all (\<lambda>p. \<not> (has_identifier ''urn:x'' p \<and> ep_workspace p)) (em_projects (ld_metadata sample_local_env))"
    by code_simp
  have fs: "''/a'' \<noteq> metadata_path sample_local_env"
    "list_all (\<lambda>p. ''/a'' \<noteq> fs_join (ld_root_dir sample_local_env) (ep_path p))
       (find_project_versions (ld_metadata sample_local_env) ''urn:x'')"
    by code_simp+
  obtain env' w' r where run: "ld_del_uri sample_local_ops sample_io ''urn:x'' sample_local_env sample_world
      = Some ((env', w'), r)"
    and ms: "mset (em_projects (ld_metadata env')) = {# p \<in># mset (em_projects (ld_metadata sample_local_env)). \<not> has_identifier ''urn:x'' p #}"
    and f: "files w' ''/a'' = files sample_world ''/a''"
    using ld_del_uri_exact [OF hy, of sample_local_ops sample_io sample_world] fs by blast
  have "em_projects (ld_metadata env') = [sample_env_project\<lparr>ep_path := ''lib/b'', ep_identifiers := [''urn:b'']\<rparr>]"
    using ms by (simp add: sample_local_env_def sample_env_project_def)
  then show ?thesis using run f by (auto simp: sample_world_def)
qed

section \<open>Installing\<close>

text \<open>The two temporary directories, for the project and for the move, are new and outside the
  environment.\<close>

definition fresh_dirs :: "string \<Rightarrow> string \<Rightarrow> LocalDirectoryEnvironment \<Rightarrow> world \<Rightarrow> bool" where
  "fresh_dirs temp d env w \<longleftrightarrow> \<not> in_temp d temp \<and> files w temp = None
    \<and> (\<forall>p. in_temp d p \<longrightarrow> files w p = None)
    \<and> (\<forall>rel. \<not> in_temp d (path_join (ld_root_dir env) rel) \<and> temp \<noteq> path_join (ld_root_dir env) rel)"

definition single_device :: "io \<Rightarrow> bool" where
  "single_device io \<longleftrightarrow> (\<forall>n. rename_outcome io n \<noteq> CrossesDevices) \<or> (\<forall>n. \<not> op_fails io n)"

text \<open>The entry of a project installed under one identifier.\<close>

definition installed_project ::
  "string \<Rightarrow> string \<Rightarrow> InterchangeProjectInfoRaw \<Rightarrow> ProjectChecksum option \<Rightarrow> EnvProject" where
  "installed_project identifier path info checksum =
    \<lparr>ep_publisher = i_publisher info, ep_name = i_name info, ep_version = i_version info,
     ep_path = path, ep_identifiers = [identifier], ep_usages = usage_resources info,
     ep_editable = False, ep_workspace = False, ep_checksum = map_option env_checksum_from checksum\<rparr>"

text \<open>Moving the written project to its place.\<close>

lemma move_project:
  assumes "single_device io" and "fresh_dirs temp d env w"
    and "try_move_files io (Some d) [(temp, path_join (ld_root_dir env) rel)] (w\<lparr>files := (files w)(temp \<mapsto> tree)\<rparr>) = (w', r)"
  shows "r = Ok () \<Longrightarrow> files w' = (files w)(path_join (ld_root_dir env) rel \<mapsto> tree)"
    and "r = Err (RecoveredIO c) \<Longrightarrow> files w' = (files w)(temp \<mapsto> tree)"
    and "faultless io \<Longrightarrow> r = Ok ()"
proof -
  let ?trg = "path_join (ld_root_dir env) rel" and ?w = "w\<lparr>files := (files w)(temp \<mapsto> tree)\<rparr>"
  have rq: "move_request d [(temp, ?trg)] ?w"
    using assms(2) by (auto simp: move_request_def fresh_dirs_def)
  have sp: "(r = Ok () \<longrightarrow> files w' = moved (files ?w) [(temp, ?trg)])
    \<and> (\<forall>c. r = Err (RecoveredIO c) \<longrightarrow> files w' = files ?w)"
    using assms(1) rq assms(3) unfolding single_device_def by (rule try_move_files_spec)
  have "moved (files ?w) [(temp, ?trg)] = (files w)(?trg \<mapsto> tree)"
    using assms(2) by (auto simp: moved_def fresh_dirs_def fun_eq_iff)
  then show "r = Ok () \<Longrightarrow> files w' = (files w)(?trg \<mapsto> tree)" using sp by simp
  show "r = Err (RecoveredIO c) \<Longrightarrow> files w' = (files w)(temp \<mapsto> tree)" using sp by simp
  show "r = Ok ()" if "faultless io"
    using try_move_files_complete [OF that rq] assms(3) by auto
qed

lemma finish_put_spec:
  assumes "finish_put L io temp project env w = Some ((env', w'), r)"
  shows "env' = env"
    and "p \<noteq> temp \<Longrightarrow> p \<noteq> metadata_path env \<Longrightarrow> files w' p = files w p"
    and "files w' temp = None"
    and "r = Ok q \<Longrightarrow> temp \<noteq> metadata_path env \<Longrightarrow> files w' (metadata_path env)
      = Some (FileItem (lo_print L (metadata_to_toml (ld_metadata env)))) \<and> q = project"
    and "r \<noteq> Err (PutWrite (LwTryMove e))"
    and "faultless io \<Longrightarrow> r = Ok project"
proof -
  let ?c = "lo_print L (metadata_to_toml (ld_metadata env))"
  note wf = write_file_files [where io = io and t = "metadata_path env" and c = ?c and w = w]
  obtain v s where vs: "write_file io (metadata_path env) ?c w = (v, s)" by force
  have e: "env' = env" "w' = drop_dir temp v" "r = (case s of Ok _ \<Rightarrow> Ok project | Err e \<Rightarrow> Err (PutWrite (LwIo e)))"
    using assms vs by (auto simp: finish_put_def env_write_def split: result.splits)
  show "env' = env" by (fact e(1))
  show "p \<noteq> temp \<Longrightarrow> p \<noteq> metadata_path env \<Longrightarrow> files w' p = files w p"
    using wf(1) vs e(2) by (simp add: drop_dir_def)
  show "files w' temp = None" using e(2) by (simp add: drop_dir_def)
  show "r = Ok q \<Longrightarrow> temp \<noteq> metadata_path env \<Longrightarrow> files w' (metadata_path env) = Some (FileItem ?c) \<and> q = project"
    using wf(2) vs e(2,3) by (auto simp: drop_dir_def split: result.splits)
  show "r \<noteq> Err (PutWrite (LwTryMove e))" using e(3) by (auto split: result.splits)
  show "faultless io \<Longrightarrow> r = Ok project" using wf(3) vs e(3) by (simp add: faultless_def)
qed

lemma finish_put_returns: "\<exists>env' w' r. finish_put L io temp project env w = Some ((env', w'), r)"
  by (auto simp: finish_put_def split: prod.splits result.splits)

lemma ensure_lib_files:
  "f \<noteq> path_join (ld_root_dir env) ''lib/'' \<Longrightarrow> files (fst (ensure_lib_dir_exists io env w)) f = files w f"
  "faultless io \<Longrightarrow> snd (ensure_lib_dir_exists io env w) = Ok ()"
  by (auto simp: ensure_lib_dir_exists_def fs_join_def PROJECT_PATH_PREFIX_def starts_with_def
      faultless_def Let_def)

lemma fs_join_lib: "fs_join root (PROJECT_PATH_PREFIX @ name) = path_join root (''lib/'' @ name)"
  by (simp add: fs_join_def PROJECT_PATH_PREFIX_def starts_with_def)

lemma metadata_path_eq: "metadata_path env = path_join (ld_root_dir env) ''env.toml''"
  by (simp add: metadata_path_def fs_join_def METADATA_PATH_def starts_with_def)

text \<open>The entries after installing a project: it is recorded under the version its information has;
  when that version of the identifier is there already, the entries stay as they are.\<close>

definition recorded ::
  "string \<Rightarrow> string \<Rightarrow> InterchangeProjectInfoRaw \<Rightarrow> ProjectChecksum option \<Rightarrow> EnvMetadata \<Rightarrow> EnvMetadata" where
  "recorded identifier path info checksum m =
    (if find_project_version m identifier (i_version info) = None
     then m\<lparr>em_projects := em_projects m @ [installed_project identifier path info checksum]\<rparr> else m)"

text \<open>The outcome of installing a new project: what a success has done.\<close>

definition installs ::
  "'iri local_ops \<Rightarrow> string \<Rightarrow> string \<Rightarrow> InterchangeProjectInfoRaw \<Rightarrow> ProjectChecksum option \<Rightarrow> item
   \<Rightarrow> LocalDirectoryEnvironment \<Rightarrow> world \<Rightarrow> LocalDirectoryEnvironment \<Rightarrow> world \<Rightarrow> bool" where
  "installs L identifier name info checksum tree env w env' w' \<longleftrightarrow>
    (let root = path_join (ld_root_dir env) in
     env' = env\<lparr>ld_metadata := recorded identifier (''lib/'' @ name) info checksum (ld_metadata env)\<rparr>
     \<and> files w' (root (''lib/'' @ name)) = Some tree
     \<and> files w' (root ''env.toml'') = Some (FileItem (lo_print L (metadata_to_toml (ld_metadata env'))))
     \<and> (\<forall>f. f \<notin> root ` {''lib/'', ''lib/'' @ name, ''env.toml''} \<longrightarrow> files w' f = files w f))"

lemma put_new_spec:
  assumes "compute_project_path (lo_iri L) (em_projects (ld_metadata env)) iri version = Some (PROJECT_PATH_PREFIX @ name)"
    and "name \<noteq> []" and "single_device io" and "fresh_dirs temp d env w"
    and "lo_iri_parse L identifier = Ok iri"
    and "\<And>names. local_get_info (lo_json L) (names, tree) = Ok (Some info)"
  shows "\<exists>env' w' r. (put_new L io temp (Some d) identifier version checksum tree env w :: 'c put_result) = Some ((env', w'), r)
    \<and> (\<forall>p. r = Ok p \<longrightarrow> installs L identifier name info checksum tree env w env' w')
    \<and> (\<forall>c. r = Err (PutWrite (LwTryMove (RecoveredIO c))) \<longrightarrow> env' = env
        \<and> (\<forall>f. f \<noteq> path_join (ld_root_dir env) ''lib/'' \<longrightarrow> files w' f = files w f))
    \<and> (faultless io \<longrightarrow> (\<exists>p. r = Ok p))"
proof -
  let ?root = "path_join (ld_root_dir env)" and ?rel = "''lib/'' @ name"
  let ?env = "env\<lparr>ld_metadata := recorded identifier ?rel info checksum (ld_metadata env)\<rparr>"
  obtain w1 s where w1: "ensure_lib_dir_exists io env w = (w1, s)" by force
  note lib = ensure_lib_files [where env = env and io = io and w = w, unfolded w1, simplified]
  note st = put_new_def Let_def assms(1,5) fs_join_lib
  have tne: "temp \<noteq> ?root r" for r using assms(4) by (simp add: fresh_dirs_def)
  show ?thesis
  proof (cases s)
    case (Err e)
    then show ?thesis using w1 lib by (auto simp add: st)
  next
    case s: (Ok u)
    have fd: "fresh_dirs temp d env w1"
      using assms(4) lib(1) by (simp add: fresh_dirs_def) metis
    obtain w2 t where w2: "try_move_files io (Some d) [(temp, ?root ?rel)]
        (w1\<lparr>files := (files w1)(temp \<mapsto> tree)\<rparr>) = (w2, t)" by force
    note mv = move_project [OF assms(3) fd w2]
    show ?thesis
    proof (cases t)
      case (Err e)
      have "files (drop_dir temp w2) f = files w f" if "e = RecoveredIO c" "f \<noteq> ?root ''lib/''" for c f
        using mv(2) [of c] Err that lib(1) [OF that(2)] assms(4) by (simp add: drop_dir_def fresh_dirs_def)
      then show ?thesis using Err s w1 w2 mv(3) by (auto simp: st)
    next
      case t: (Ok u)
      have f2: "files w2 = (files w1)(?root ?rel \<mapsto> tree)" using mv(1) t by simp
      let ?project = "\<lparr>ls_nominal_path = Some (PROJECT_PATH_PREFIX @ name), ls_project_path = ?root ?rel,
        ls_expected_checksum = None\<rparr>"
      have "add_local_project [identifier] ?project (info_at L (?root ?rel) w2) False False checksum
          (ld_metadata env) = Some (Ok (ld_metadata ?env))"
        using f2 assms(6) add_project_single [of "installed_project identifier ?rel info checksum" "identifier"]
        by (simp add: add_local_project_def info_at_def installed_project_def recorded_def PROJECT_PATH_PREFIX_def)
      then have "(put_new L io temp (Some d) identifier version checksum tree env w :: 'c put_result)
          = (finish_put L io temp ?project ?env w2 :: 'c put_result)"
        using s t w1 w2 by (simp add: st)
      moreover obtain env' w' r where fin: "(finish_put L io temp ?project ?env w2 :: 'c put_result) = Some ((env', w'), r)"
        using finish_put_returns by blast
      moreover note fp = finish_put_spec [OF fin]
      have mp: "metadata_path ?env = ?root ''env.toml''" by (simp add: metadata_path_eq)
      have "?root ?rel \<noteq> ?root ''env.toml''" by (simp add: path_join_def)
      then have trg: "files w' (?root ?rel) = Some tree" using fp(2) [of "?root ?rel"] f2 tne [symmetric] mp by simp
      have other: "files w' f = files w f" if "f \<notin> ?root ` {''lib/'', ?rel, ''env.toml''}" for f
        using fp(2) [of f] fp(3) f2 lib(1) [of f] that mp assms(4)
        by (cases "f = temp") (auto simp: fresh_dirs_def)
      have "installs L identifier name info checksum tree env w env' w'" if "r = Ok p" for p
        unfolding installs_def Let_def using fp(1) fp(4) [OF that] trg other tne mp by auto
      ultimately show ?thesis using fp(5,6) by (intro exI [of _ env'] exI [of _ w'] exI [of _ r]) auto
    qed
  qed
qed

text \<open>The outcome of overwriting a project: its entry and its directory are replaced.\<close>

definition overwrites ::
  "'iri local_ops \<Rightarrow> string \<Rightarrow> string \<Rightarrow> InterchangeProjectInfoRaw \<Rightarrow> ProjectChecksum option \<Rightarrow> EnvProject
   \<Rightarrow> item \<Rightarrow> LocalDirectoryEnvironment \<Rightarrow> world \<Rightarrow> LocalDirectoryEnvironment \<Rightarrow> world \<Rightarrow> bool" where
  "overwrites L identifier version info checksum existing tree env w env' w' \<longleftrightarrow>
    (let root = path_join (ld_root_dir env) in
     (\<exists>before after. em_projects (ld_metadata env) = before @ existing # after
       \<and> list_all (\<lambda>p. \<not> is_version identifier version p) before
       \<and> env' = env\<lparr>ld_metadata := (ld_metadata env)\<lparr>em_projects :=
            before @ overwrite_project info checksum existing # after\<rparr>\<rparr>)
     \<and> files w' (root (ep_path existing)) = Some tree
     \<and> files w' (root ''env.toml'') = Some (FileItem (lo_print L (metadata_to_toml (ld_metadata env'))))
     \<and> (\<forall>f. f \<notin> root ` {ep_path existing, ''env.toml''} \<longrightarrow> files w' f = files w f))"

lemma update_first_split:
  "List.find P xs = Some x \<Longrightarrow> \<exists>before after. xs = before @ x # after \<and> list_all (\<lambda>y. \<not> P y) before
    \<and> update_first P f xs = before @ f x # after"
proof (induction xs)
  case (Cons y ys)
  show ?case
  proof (cases "P y")
    case True
    then show ?thesis using Cons.prems by (intro exI [of _ "[]"] exI [of _ ys]) auto
  next
    case False
    then obtain before after where "ys = before @ x # after" "list_all (\<lambda>y. \<not> P y) before"
      "update_first P f ys = before @ f x # after" using Cons by auto
    then show ?thesis using False by (intro exI [of _ "y # before"] exI [of _ after]) auto
  qed
qed simp

lemma put_existing_spec:
  assumes "find_project_version (ld_metadata env) identifier version = Some existing"
    and "\<not> starts_with [SLASH] (ep_path existing)" and "ep_path existing \<noteq> ''env.toml''"
    and "single_device io" and "fresh_dirs temp d env w"
    and "\<And>names. local_get_info (lo_json L) (names, tree) = Ok (Some info)"
  shows "\<exists>env' w' r. (put_existing L io temp (Some d) identifier version checksum existing tree env w :: 'c put_result)
      = Some ((env', w'), r)
    \<and> (\<forall>p. r = Ok p \<longrightarrow> overwrites L identifier version info checksum existing tree env w env' w')
    \<and> (\<forall>c. r = Err (PutWrite (LwTryMove (RecoveredIO c))) \<longrightarrow> env' = env \<and> files w' = files w)
    \<and> (faultless io \<longrightarrow> (\<exists>p. r = Ok p))"
proof -
  let ?root = "path_join (ld_root_dir env)" and ?rel = "ep_path existing"
  obtain before after where ps: "em_projects (ld_metadata env) = before @ existing # after"
    "list_all (\<lambda>p. \<not> is_version identifier version p) before"
    "update_first (is_version identifier version) (overwrite_project info checksum) (em_projects (ld_metadata env))
       = before @ overwrite_project info checksum existing # after"
    using update_first_split [of "is_version identifier version" "em_projects (ld_metadata env)" existing]
      assms(1) unfolding find_project_version_def by blast
  let ?env = "env\<lparr>ld_metadata := (ld_metadata env)\<lparr>em_projects :=
      before @ overwrite_project info checksum existing # after\<rparr>\<rparr>"
  have j: "fs_join (ld_root_dir env) ?rel = ?root ?rel" using assms(2) by (simp add: fs_join_def)
  note st = put_existing_def Let_def j
  obtain w2 t where w2: "try_move_files io (Some d) [(temp, ?root ?rel)]
      (w\<lparr>files := (files w)(temp \<mapsto> tree)\<rparr>) = (w2, t)" by force
  note mv = move_project [OF assms(4,5) w2]
  show ?thesis
  proof (cases t)
    case (Err e)
    have "files (drop_dir temp w2) = files w" if "e = RecoveredIO c" for c
      using mv(2) [of c] Err that assms(5) by (auto simp: drop_dir_def fresh_dirs_def)
    then show ?thesis using Err w2 mv(3) by (auto simp: st)
  next
    case t: (Ok u)
    have f2: "files w2 = (files w)(?root ?rel \<mapsto> tree)" using mv(1) t by simp
    let ?project = "\<lparr>ls_nominal_path = None, ls_project_path = ?root ?rel, ls_expected_checksum = None\<rparr>"
    have "(put_existing L io temp (Some d) identifier version checksum existing tree env w :: 'c put_result)
        = (finish_put L io temp ?project ?env w2 :: 'c put_result)"
      using t w2 f2 assms(6) ps(3) by (simp add: st info_at_def)
    moreover obtain env' w' r where fin: "(finish_put L io temp ?project ?env w2 :: 'c put_result) = Some ((env', w'), r)"
      using finish_put_returns by blast
    moreover note fp = finish_put_spec [OF fin]
    have mp: "metadata_path ?env = ?root ''env.toml''" by (simp add: metadata_path_eq)
    have tne: "temp \<noteq> ?root r" for r using assms(5) by (simp add: fresh_dirs_def)
    have "?root ?rel \<noteq> ?root ''env.toml''" using assms(3) by (simp add: path_join_def)
    then have trg: "files w' (?root ?rel) = Some tree" using fp(2) [of "?root ?rel"] f2 tne [symmetric] mp by simp
    have other: "files w' f = files w f" if "f \<notin> ?root ` {?rel, ''env.toml''}" for f
      using fp(2) [of f] fp(3) f2 that mp assms(5) by (cases "f = temp") (auto simp: fresh_dirs_def)
    have "overwrites L identifier version info checksum existing tree env w env' w'" if "r = Ok p" for p
      unfolding overwrites_def Let_def
      using fp(1) fp(4) [OF that] trg other ps(1,2) tne mp by auto
    ultimately show ?thesis using fp(5,6) by (intro exI [of _ env'] exI [of _ w'] exI [of _ r]) auto
  qed
qed

lemma put_project_new_spec:
  assumes "slash_law (lo_iri L)" and "named (em_projects (ld_metadata env))"
    and "length (em_projects (ld_metadata env)) < 2 ^ 32"
    and "single_device io" and "fresh_dirs temp d env w"
    and "lo_iri_parse L identifier = Ok iri" and "write_project (DirItem []) = Ok tree"
    and "\<And>names. local_get_info (lo_json L) (names, tree) = Ok (Some info)"
    and "find_project_version (ld_metadata env) identifier version = None"
  shows "\<exists>env' w' r name.
    ld_put_project L io (Some temp) (Some d) identifier version checksum write_project env w = Some ((env', w'), r)
    \<and> name \<notin> set (installed_names (em_projects (ld_metadata env)))
    \<and> (\<forall>p. r = Ok p \<longrightarrow> installs L identifier name info checksum tree env w env' w')
    \<and> (\<forall>c. r = Err (PutWrite (LwTryMove (RecoveredIO c))) \<longrightarrow> env' = env
        \<and> (\<forall>f. f \<noteq> path_join (ld_root_dir env) ''lib/'' \<longrightarrow> files w' f = files w f))
    \<and> (faultless io \<longrightarrow> (\<exists>p. r = Ok p))"
proof -
  obtain name where name: "compute_project_path (lo_iri L) (em_projects (ld_metadata env)) iri version
      = Some (PROJECT_PATH_PREFIX @ name)"
    "components name = [Normal name]" "name \<notin> set (installed_names (em_projects (ld_metadata env)))"
    using compute_project_path_free [OF assms(1-3)] by metis
  then have "name \<noteq> []" using components_Normal [of name name] by auto
  then show ?thesis
    using put_new_spec [OF name(1) _ assms(4-6,8), of checksum] assms(7,9) name(3)
    by (auto simp: ld_put_project_def)
qed


text \<open>C11: installing a project that is already there, and neither editable nor of the workspace, with
  the temporary and the environment's directory on one device or no failing operation. The call
  returns, and without I/O errors it succeeds. A success has replaced the entry and the directory of
  that project, written \<^verbatim>\<open>env.toml\<close>, and changed no other file; the entry then has the version of
  the new information. A move reported as recovered has changed nothing.\<close>

theorem ld_put_project_overwrites:
  assumes "find_project_version (ld_metadata env) identifier version = Some existing"
    and "\<not> ep_editable existing" and "\<not> ep_workspace existing"
    and "\<not> starts_with [SLASH] (ep_path existing)" and "ep_path existing \<noteq> ''env.toml''"
    and "single_device io" and "fresh_dirs temp d env w" and "write_project (DirItem []) = Ok tree"
    and "\<And>names. local_get_info (lo_json L) (names, tree) = Ok (Some info)"
  shows "\<exists>env' w' r.
    ld_put_project L io (Some temp) (Some d) identifier version checksum write_project env w = Some ((env', w'), r)
    \<and> (\<forall>p. r = Ok p \<longrightarrow> overwrites L identifier version info checksum existing tree env w env' w')
    \<and> (\<forall>c. r = Err (PutWrite (LwTryMove (RecoveredIO c))) \<longrightarrow> env' = env \<and> files w' = files w)
    \<and> (faultless io \<longrightarrow> (\<exists>p. r = Ok p))"
  using put_existing_spec [OF assms(1,4,5,6,7,9), of checksum] assms(1,2,3,8)
  by (simp add: ld_put_project_def)

definition sample_tree :: item where
  "sample_tree = DirItem [(''.project.json'', FileItem ''x'')]"

lemma sample_fresh_dirs: "fresh_dirs ''/tmp/p'' ''/tmp/m'' sample_local_env sample_world"
  by (auto simp: fresh_dirs_def sample_local_env_def sample_world_def starts_with_iff path_join_def)

lemma sample_single_device: "single_device sample_io"
  by (simp add: single_device_def sample_io_def)

lemma sample_tree_info:
  "local_get_info (lo_json sample_local_ops) (names, sample_tree)
    = Ok (parse_info (lo_json sample_local_ops) ''x'')"
  by (simp add: local_get_info_def local_get_project_def read_json_def sample_tree_def
      sample_local_ops_def)


theorem ld_put_project_overwrites_witness:
  "\<exists>env' w' p. ld_put_project sample_local_ops sample_io (Some ''/tmp/p'') (Some ''/tmp/m'') ''urn:b'' ''1.0'' None
      (\<lambda>_. (Ok sample_tree :: (item, unit) result)) sample_local_env sample_world = Some ((env', w'), Ok p)
    \<and> files w' ''/w/.sysand/lib/b'' = Some sample_tree \<and> files w' ''/a'' = Some (FileItem ''one'')"
proof -
  define info where "info = the (parse_info (lo_json sample_local_ops) ''x'')"
  define old where "old = sample_env_project\<lparr>ep_path := ''lib/b'', ep_identifiers := [''urn:b'']\<rparr>"
  have fnd: "find_project_version (ld_metadata sample_local_env) ''urn:b'' ''1.0'' = Some old"
    unfolding old_def by code_simp
  have pre: "\<not> ep_editable old" "\<not> ep_workspace old" "\<not> starts_with [SLASH] (ep_path old)"
    "ep_path old \<noteq> ''env.toml''"
    by (simp_all add: old_def sample_env_project_def starts_with_def)
  have inf: "local_get_info (lo_json sample_local_ops) (names, sample_tree) = Ok (Some info)" for names
    by (simp add: sample_tree_info info_def) (simp add: sample_local_ops_def)
  obtain env' w' r where
    run: "ld_put_project sample_local_ops sample_io (Some ''/tmp/p'') (Some ''/tmp/m'') ''urn:b'' ''1.0'' None
      (\<lambda>_. (Ok sample_tree :: (item, unit) result)) sample_local_env sample_world = Some ((env', w'), r)"
    and eff: "\<forall>p. r = Ok p \<longrightarrow> overwrites sample_local_ops ''urn:b'' ''1.0'' info None old sample_tree
        sample_local_env sample_world env' w'" "\<exists>p. r = Ok p"
    using ld_put_project_overwrites [OF fnd pre sample_single_device sample_fresh_dirs _ inf,
        of "\<lambda>_. (Ok sample_tree :: (item, unit) result)" None] sample_faultless by auto
  then have "overwrites sample_local_ops ''urn:b'' ''1.0'' info None old sample_tree sample_local_env sample_world env' w'"
    by blast
  then have "files w' ''/w/.sysand/lib/b'' = Some sample_tree" "files w' ''/a'' = Some (FileItem ''one'')"
    by (auto simp: overwrites_def sample_local_env_def path_join_def sample_world_def old_def sample_env_project_def)
  then show ?thesis using run eff(2) by auto
qed

section \<open>Editable projects\<close>

lemma is_installed_components:
  "is_installed p \<longleftrightarrow> take 1 (components (ep_path p)) = [Normal ''lib'']"
proof -
  have "components PROJECT_PATH_PREFIX = [Normal ''lib'']" by code_simp
  then show ?thesis by (simp add: is_installed_def Let_def)
qed

text \<open>What the entry of an editable project takes over from the lock.\<close>

definition editable_entry :: "('p, 'iri) Workspace option \<Rightarrow> LockProject \<Rightarrow> EnvProject \<Rightarrow> bool" where
  "editable_entry ws lp p \<longleftrightarrow>
    first_editable (p_sources lp) = Some (ep_path p) \<and> ep_editable p \<and> ep_checksum p = None
    \<and> ep_publisher p = p_publisher lp \<and> ep_name p = p_name lp \<and> ep_version p = p_version lp
    \<and> ep_identifiers p = p_identifiers lp \<and> ep_usages p = p_usages lp
    \<and> (ep_workspace p \<longleftrightarrow> (case ws of None \<Rightarrow> False | Some w \<Rightarrow> ep_path p \<in> wp_path ` set (wi_projects (ws_info w))))"

abbreviation editable_locked :: "Lock \<Rightarrow> LockProject list" where
  "editable_locked lock \<equiv> filter (\<lambda>p. first_editable (p_sources p) \<noteq> None) (lock_projects lock)"

lemma merge_lock_split:
  assumes "list_all (\<lambda>p. \<not> is_installed (editable_project ws p (the (first_editable (p_sources p))))) (editable_locked lock)"
  shows "filter is_installed (em_projects (ld_metadata (merge_lock lock ws env)))
      = filter is_installed (em_projects (ld_metadata env))"
    and "list_all2 (editable_entry ws) (editable_locked lock)
      (filter (\<lambda>p. \<not> is_installed p) (em_projects (ld_metadata (merge_lock lock ws env))))"
    and "merge_lock lock ws (merge_lock lock ws env) = merge_lock lock ws env"
proof -
  define new where "new = List.map_filter (\<lambda>project. map_option (editable_project ws project)
      (first_editable (p_sources project))) (lock_projects lock)"
  have new: "new = map (\<lambda>p. editable_project ws p (the (first_editable (p_sources p)))) (editable_locked lock)"
    by (simp add: new_def List.map_filter_def comp_def option.map_sel cong: map_cong)
  then have ni: "filter is_installed new = []" "filter (\<lambda>p. \<not> is_installed p) new = new"
    using assms by (auto simp: list_all_iff filter_empty_conv filter_id_conv)
  show "filter is_installed (em_projects (ld_metadata (merge_lock lock ws env)))
      = filter is_installed (em_projects (ld_metadata env))"
    "merge_lock lock ws (merge_lock lock ws env) = merge_lock lock ws env"
    using ni by (simp_all add: merge_lock_def new_def [symmetric] comp_def)
  have "list_all2 (editable_entry ws) (editable_locked lock) new"
    unfolding new list_all2_map2
    by (rule list_all2_same [THEN iffD2])
      (auto simp: editable_entry_def editable_project_def list_ex_iff split: option.splits)
  then show "list_all2 (editable_entry ws) (editable_locked lock)
      (filter (\<lambda>p. \<not> is_installed p) (em_projects (ld_metadata (merge_lock lock ws env))))"
    using ni by (simp add: merge_lock_def new_def [symmetric] comp_def)
qed

lemma push_components_Normal: "push_components absolute (map Normal ns) = Some (absolute @ ns)"
  by (induction ns arbitrary: absolute) auto

lemma list_all2_member: "list_all2 R xs ys \<Longrightarrow> x \<in> set xs \<Longrightarrow> \<exists>y \<in> set ys. R x y"
  by (induction rule: list_all2_induct) auto

lemma merge_lock_found:
  assumes "list_all (\<lambda>p. \<not> is_installed (editable_project ws p (the (first_editable (p_sources p))))) (editable_locked lock)"
    and "unique_versions (em_projects (ld_metadata (merge_lock lock ws env)))"
    and "lp \<in> set (lock_projects lock)" and "first_editable (p_sources lp) = Some path" and "i \<in> set (p_identifiers lp)"
    and "components path = map Normal ns" and "abs_names (ld_root_dir env) \<noteq> []"
  shows "map_option (map_ok ls_project_path) (ld_get_project (merge_lock lock ws env) i (p_version lp))
    = Some (Ok (path_string (butlast (abs_names (ld_root_dir env)) @ ns)))"
proof -
  have "lp \<in> set (editable_locked lock)" using assms(3,4) by simp
  from list_all2_member [OF merge_lock_split(2) [OF assms(1)] this] obtain p
    where p: "p \<in> set (em_projects (ld_metadata (merge_lock lock ws env)))" "editable_entry ws lp p" by auto
  then have f: "ep_path p = path" "ep_editable p" "ep_version p = p_version lp" "i \<in> set (ep_identifiers p)"
    using assms(4,5) by (auto simp: editable_entry_def)
  have "find_project_version (ld_metadata (merge_lock lock ws env)) i (p_version lp) = Some p"
    using find_project_version_unique [OF assms(2) p(1) f(4)] f(3) by simp
  moreover have "ld_root_dir (merge_lock lock ws env) = ld_root_dir env" by (simp add: merge_lock_def)
  ultimately show ?thesis
    using f assms(6,7) by (simp add: ld_get_project_def get_project_storage_def parent_dir_def Let_def push_components_Normal)
qed

text \<open>C30: taking over a lock, as long as no editable project is in a directory \<^verbatim>\<open>lib\<close> of the root.
  The installed projects are kept, and the other entries are replaced by one entry for every locked
  project whose first source is editable, in the order of the lock, with the fields of the locked
  project, marked editable and, exactly if its path is that of a project of the workspace, as a
  member. The call is idempotent, as its documentation says. If no identifier and version belong to
  two entries, looking up such a project by any of its identifiers and its version finds the
  directory at its path from the parent of the environment, provided the path has ordinary components
  only.\<close>

theorem merge_lock_idempotent:
  assumes "list_all (\<lambda>p. \<not> is_installed (editable_project ws p (the (first_editable (p_sources p)))))
      (filter (\<lambda>p. first_editable (p_sources p) \<noteq> None) (lock_projects lock))"
  shows "merge_lock lock ws (merge_lock lock ws env) = merge_lock lock ws env
    \<and> filter is_installed (em_projects (ld_metadata (merge_lock lock ws env)))
        = filter is_installed (em_projects (ld_metadata env))
    \<and> list_all2 (editable_entry ws) (filter (\<lambda>p. first_editable (p_sources p) \<noteq> None) (lock_projects lock))
        (filter (\<lambda>p. \<not> is_installed p) (em_projects (ld_metadata (merge_lock lock ws env))))
    \<and> (unique_versions (em_projects (ld_metadata (merge_lock lock ws env))) \<and> abs_names (ld_root_dir env) \<noteq> []
       \<and> lp \<in> set (lock_projects lock) \<and> first_editable (p_sources lp) = Some path \<and> i \<in> set (p_identifiers lp)
       \<and> components path = map Normal ns
       \<longrightarrow> map_option (map_ok ls_project_path) (ld_get_project (merge_lock lock ws env) i (p_version lp))
           = Some (Ok (path_string (butlast (abs_names (ld_root_dir env)) @ ns))))"
  using merge_lock_split [OF assms] merge_lock_found [OF assms] by blast

definition editable_lock :: "string \<Rightarrow> Lock" where
  "editable_lock path = \<lparr>lock_version = CURRENT_LOCK_VERSION, lock_projects =
    [\<lparr>p_publisher = None, p_name = ''e'', p_version = ''1.0'', p_exports = [],
      p_identifiers = [''urn:e''], p_usages = [], p_sources = [Editable path]\<rparr>]\<rparr>"

theorem merge_lock_idempotent_witness:
  "merge_lock (editable_lock ''libs/e'') (None :: (string, string) Workspace option)
      (merge_lock (editable_lock ''libs/e'') (None :: (string, string) Workspace option) sample_local_env)
     = merge_lock (editable_lock ''libs/e'') (None :: (string, string) Workspace option) sample_local_env
   \<and> map_option (map_ok ls_project_path)
       (ld_get_project (merge_lock (editable_lock ''libs/e'') (None :: (string, string) Workspace option) sample_local_env) ''urn:e'' ''1.0'')
     = Some (Ok ''/w/libs/e'')"
proof -
  let ?env = "merge_lock (editable_lock ''libs/e'') (None :: (string, string) Workspace option) sample_local_env"
  have hy: "list_all (\<lambda>p. \<not> is_installed (editable_project (None :: (string, string) Workspace option) p
        (the (first_editable (p_sources p)))))
      (filter (\<lambda>p. first_editable (p_sources p) \<noteq> None) (lock_projects (editable_lock ''libs/e'')))"
    by code_simp
  have c: "components ''libs/e'' = map Normal [''libs'', ''e'']" "abs_names (ld_root_dir sample_local_env) = [''w'', ''.sysand'']"
    "path_string (butlast [''w'', ''.sysand''] @ [''libs'', ''e'']) = ''/w/libs/e''" by code_simp+
  have "em_projects (ld_metadata ?env) = em_projects (ld_metadata sample_local_env)
      @ [sample_env_project\<lparr>ep_name := ''e'', ep_path := ''libs/e'', ep_identifiers := [''urn:e''], ep_editable := True\<rparr>]"
    by code_simp
  then have u: "unique_versions (em_projects (ld_metadata ?env))"
    by (simp add: unique_versions_def sample_local_env_def sample_env_project_def)
  show ?thesis
    using merge_lock_idempotent [OF hy, of sample_local_env "hd (lock_projects (editable_lock ''libs/e''))" "''libs/e''"
        "''urn:e''" "[''libs'', ''e'']"] u c
    by (simp add: editable_lock_def)
qed

text \<open>An editable project in a directory \<^verbatim>\<open>lib\<close> is taken for an installed one: every call adds
  it once more.\<close>

theorem merge_lock_duplicates:
  "length (em_projects (ld_metadata (merge_lock (editable_lock ''lib/e'')
      (None :: (string, string) Workspace option) sample_local_env))) = 3"
  "length (em_projects (ld_metadata (merge_lock (editable_lock ''lib/e'') (None :: (string, string) Workspace option)
      (merge_lock (editable_lock ''lib/e'') (None :: (string, string) Workspace option) sample_local_env)))) = 4"
  by code_simp+

text \<open>The project in the root of the workspace, recorded as the editable project \<^verbatim>\<open>.\<close>, cannot be
  retrieved: the code reaches a branch marked unreachable.\<close>

theorem root_project_panics:
  "ld_get_project (merge_lock (editable_lock ''.'') (None :: (string, string) Workspace option) sample_local_env)
     ''urn:e'' ''1.0'' = None"
  by code_simp

text \<open>Installing the version of a project that is editable panics.\<close>

theorem put_editable_panics:
  "ld_put_project sample_local_ops sample_io (Some ''/tmp/p'') (Some ''/tmp/m'') ''urn:e'' ''1.0'' None
     (\<lambda>_. (Ok sample_tree :: (item, unit) result))
     (merge_lock (editable_lock ''e'') (None :: (string, string) Workspace option) sample_local_env) sample_world = None"
proof -
  have "map_option (\<lambda>p. ep_editable p \<or> ep_workspace p) (find_project_version (ld_metadata
      (merge_lock (editable_lock ''e'') (None :: (string, string) Workspace option) sample_local_env)) ''urn:e'' ''1.0'')
      = Some True"
    by code_simp
  then show ?thesis by (auto simp: ld_put_project_def)
qed

section \<open>Reading back\<close>

lemma find_snoc: "\<not> P x \<Longrightarrow> List.find P (xs @ [x]) = List.find P xs"
  by (induction xs) auto

lemma find_project_version_cong:
  "\<lbrakk>ld_root_dir env' = ld_root_dir env;
    find_project_version (ld_metadata env') i v = find_project_version (ld_metadata env) i v\<rbrakk>
   \<Longrightarrow> ld_get_project env' i v = ld_get_project env i v"
  by (simp add: ld_get_project_def get_project_storage_def parent_dir_def Let_def split: option.splits)

lemma installed_project_found:
  assumes "installs L identifier name info checksum tree env w env' w'"
    and "unique_versions (em_projects (ld_metadata env))"
    and "find_project_version (ld_metadata env) identifier (i_version info) = None"
    and "abs_names (ld_root_dir env) \<noteq> []"
  shows "unique_versions (em_projects (ld_metadata env'))
    \<and> map_option (map_ok ls_project_path) (ld_get_project env' identifier (i_version info))
        = Some (Ok (path_join (ld_root_dir env) (''lib/'' @ name)))
    \<and> (\<forall>c. checksum = Some c \<longrightarrow> ld_has_version_verified env' identifier (i_version info) c = Ok Match)
    \<and> (\<forall>i v. (i, v) \<noteq> (identifier, i_version info) \<longrightarrow> ld_get_project env' i v = ld_get_project env i v)"
proof -
  let ?p = "installed_project identifier (''lib/'' @ name) info checksum"
  let ?ps = "em_projects (ld_metadata env)"
  have e: "env' = env\<lparr>ld_metadata := (ld_metadata env)\<lparr>em_projects := ?ps @ [?p]\<rparr>\<rparr>"
    using assms(1,3) by (simp add: installs_def recorded_def Let_def)
  have nf: "\<forall>q \<in> set ?ps. \<not> is_version identifier (i_version info) q"
    using assms(3) by (simp add: find_project_version_def find_None_iff_set)
  have uq: "unique_versions (?ps @ [?p])"
    using unique_versions_append [OF assms(2), of "identifier" ?p] nf by (simp add: installed_project_def)
  then have fnd: "find_project_version (ld_metadata env') identifier (i_version info) = Some ?p"
    using find_project_version_unique [of "ld_metadata env'" ?p "identifier"] e
    by (simp add: installed_project_def)
  have "List.find (is_version i v) (?ps @ [?p]) = List.find (is_version i v) ?ps"
    if "(i, v) \<noteq> (identifier, i_version info)" for i v
    by (rule find_snoc) (use that in \<open>auto simp: installed_project_def\<close>)
  then have other: "ld_get_project env' i v = ld_get_project env i v"
    if "(i, v) \<noteq> (identifier, i_version info)" for i v
    using that e by (intro find_project_version_cong) (simp_all add: find_project_version_def)
  have "ld_has_version_verified env' identifier (i_version info) c = Ok Match" if "checksum = Some c" for c
    using fnd that by (cases c) (simp_all add: ld_has_version_verified_def installed_project_def)
  then show ?thesis
    using uq e fnd assms(4) other
    by (simp add: ld_get_project_def get_project_storage_def installed_project_def Let_def fs_join_def starts_with_def)
qed

text \<open>Which lookups find the project after a successful installation.\<close>

lemma put_project_lookups:
  assumes "slash_law (lo_iri L)" and "named (em_projects (ld_metadata env))"
    and "length (em_projects (ld_metadata env)) < 2 ^ 32"
    and "single_device io" and "fresh_dirs temp d env w"
    and "lo_iri_parse L identifier = Ok iri" and "write_project (DirItem []) = Ok tree"
    and "\<And>names. local_get_info (lo_json L) (names, tree) = Ok (Some info)"
    and "find_project_version (ld_metadata env) identifier version = None"
    and "unique_versions (em_projects (ld_metadata env))" and "abs_names (ld_root_dir env) \<noteq> []"
    and "ld_put_project L io (Some temp) (Some d) identifier version (Some c) write_project env w
      = Some ((env', w'), Ok p)"
  shows "unique_versions (em_projects (ld_metadata env'))
    \<and> (find_project_version (ld_metadata env) identifier (i_version info) = None \<longrightarrow>
        (\<exists>q. ld_get_project env' identifier (i_version info) = Some (Ok q) \<and> files w' (ls_project_path q) = Some tree)
        \<and> ld_has_version_verified env' identifier (i_version info) c = Ok Match)
    \<and> (i_version info \<noteq> version \<longrightarrow> ld_get_project env' identifier version = Some (Err (ProjectNotFound identifier)))
    \<and> (\<forall>i v. (i, v) \<noteq> (identifier, i_version info) \<longrightarrow> ld_get_project env' i v = ld_get_project env i v)"
proof -
  obtain name where ins: "installs L identifier name info (Some c) tree env w env' w'"
    using put_project_new_spec [where write_project = write_project and tree = tree, OF assms(1-9), of "Some c"] assms(12) by auto
  have nf: "ld_get_project env identifier version = Some (Err (ProjectNotFound identifier))"
    using assms(9) by (simp add: ld_get_project_def)
  show ?thesis
  proof (cases "find_project_version (ld_metadata env) identifier (i_version info)")
    case None
    have "files w' (path_join (ld_root_dir env) (''lib/'' @ name)) = Some tree"
      using ins by (simp add: installs_def Let_def)
    then show ?thesis using installed_project_found [OF ins assms(10) None assms(11)] nf
      by (auto simp: map_ok_eq_Ok)
  next
    case (Some q)
    then have "env' = env" using ins by (simp add: installs_def recorded_def Let_def)
    then show ?thesis using assms(10) Some nf by simp
  qed
qed


text \<open>The sample project has version 2.0. It is installed as asked for, and as version 3.0.\<close>

lemma sample_put_project:
  assumes "version = ''2.0'' \<or> version = ''3.0''"
  shows "\<exists>env' w' p. ld_put_project sample_local_ops sample_io (Some ''/tmp/p'') (Some ''/tmp/m'') ''urn:new'' version
      (Some (KparSum ''k'')) (\<lambda>_. (Ok sample_tree :: (item, unit) result)) sample_local_env sample_world
      = Some ((env', w'), Ok p)"
    and "slash_law (lo_iri sample_local_ops)" and "length (em_projects (ld_metadata sample_local_env)) < 2 ^ 32"
    and "lo_iri_parse sample_local_ops ''urn:new'' = Ok ''urn:new''"
    and "\<And>names. local_get_info (lo_json sample_local_ops) (names, sample_tree)
      = Ok (Some (the (parse_info (lo_json sample_local_ops) ''x'')))"
    and "find_project_version (ld_metadata sample_local_env) ''urn:new'' version = None"
    and "unique_versions (em_projects (ld_metadata sample_local_env))"
    and "abs_names (ld_root_dir sample_local_env) \<noteq> []"
proof -
  show pre: "slash_law (lo_iri sample_local_ops)" "length (em_projects (ld_metadata sample_local_env)) < 2 ^ 32"
    "lo_iri_parse sample_local_ops ''urn:new'' = Ok ''urn:new''"
    by (simp_all add: sample_local_ops_def sample_slash_law sample_local_env_def)
  show inf: "local_get_info (lo_json sample_local_ops) (names, sample_tree)
      = Ok (Some (the (parse_info (lo_json sample_local_ops) ''x'')))" for names
    by (simp add: sample_tree_info) (simp add: sample_local_ops_def)
  have "find_project_version (ld_metadata sample_local_env) ''urn:new'' ''2.0'' = None"
    "find_project_version (ld_metadata sample_local_env) ''urn:new'' ''3.0'' = None" by code_simp+
  then show nf: "find_project_version (ld_metadata sample_local_env) ''urn:new'' version = None" using assms by auto
  show "abs_names (ld_root_dir sample_local_env) \<noteq> []" by code_simp
  show "unique_versions (em_projects (ld_metadata sample_local_env))"
    by (simp add: sample_local_env_def unique_versions_def sample_env_project_def)
  note cb = refl [of "Ok sample_tree :: (item, unit) result"]
  show "\<exists>env' w' p. ld_put_project sample_local_ops sample_io (Some ''/tmp/p'') (Some ''/tmp/m'') ''urn:new'' version
      (Some (KparSum ''k'')) (\<lambda>_. (Ok sample_tree :: (item, unit) result)) sample_local_env sample_world
      = Some ((env', w'), Ok p)"
    using put_project_new_spec [where write_project = "\<lambda>_. (Ok sample_tree :: (item, unit) result)" and tree = sample_tree,
        OF pre(1) sample_named pre(2) sample_single_device sample_fresh_dirs pre(3) cb inf nf,
        of "Some (KparSum ''k'')"] sample_faultless by auto
qed


text \<open>Installed as version 3.0, the project of version 2.0 is not found as version 3.0 afterwards.\<close>

lemma other_version_not_found:
  "\<exists>env' w' p. ld_put_project sample_local_ops sample_io (Some ''/tmp/p'') (Some ''/tmp/m'') ''urn:new'' ''3.0''
      (Some (KparSum ''k'')) (\<lambda>_. (Ok sample_tree :: (item, unit) result)) sample_local_env sample_world
      = Some ((env', w'), Ok p)
    \<and> ld_get_project env' ''urn:new'' ''3.0'' = Some (Err (ProjectNotFound ''urn:new''))"
proof -
  note s = sample_put_project [OF disjI2 [OF refl]]
  have v: "i_version (the (parse_info (lo_json sample_local_ops) ''x'')) \<noteq> ''3.0''" by (simp add: sample_local_ops_def)
  note cb = refl [of "Ok sample_tree :: (item, unit) result"]
  obtain env' w' p where run: "ld_put_project sample_local_ops sample_io (Some ''/tmp/p'') (Some ''/tmp/m'') ''urn:new'' ''3.0''
      (Some (KparSum ''k'')) (\<lambda>_. (Ok sample_tree :: (item, unit) result)) sample_local_env sample_world
      = Some ((env', w'), Ok p)" using s(1) by blast
  show ?thesis
    using put_project_lookups [where write_project = "\<lambda>_. (Ok sample_tree :: (item, unit) result)" and tree = sample_tree,
        OF s(2) sample_named s(3) sample_single_device sample_fresh_dirs s(4) cb s(5,6,7,8) run] v run
    by blast
qed

section \<open>Opening and creating\<close>

datatype EnvMetadataError = EnvMetaIo FsIoError | EnvMetaParse string MetadataParseError

datatype 'w EnvError = EnvAlreadyExists string | EnvWrite 'w

text \<open>Reading a file: the content, or whether the error is that the file does not exist.\<close>

definition read_file :: "io \<Rightarrow> string \<Rightarrow> world \<Rightarrow> (string, bool) result" where
  "read_file io path w =
    (case files w path of
       None \<Rightarrow> Err True
     | Some (FileItem c) \<Rightarrow> if op_fails io (tick w) then Err False else Ok c
     | Some (DirItem _) \<Rightarrow> Err False)"

definition parse_env_metadata ::
  "(string \<Rightarrow> (toml_table, string) result) \<Rightarrow> string \<Rightarrow> string \<Rightarrow> (EnvMetadata, EnvMetadataError) result" where
  "parse_env_metadata toml_parse path metadata =
    map_err (EnvMetaParse path) (metadata_from_str toml_parse metadata)"

definition load_env_metadata ::
  "(string \<Rightarrow> (toml_table, string) result) \<Rightarrow> io \<Rightarrow> string \<Rightarrow> world \<Rightarrow> (EnvMetadata, EnvMetadataError) result" where
  "load_env_metadata toml_parse io path w =
    and_then (map_err (\<lambda>_. EnvMetaIo (ReadFile path)) (read_file io path w)) (parse_env_metadata toml_parse path)"

text \<open>The warning about an old environment takes the parent of a path; where there is none the code
  panics.\<close>

definition has_parent :: "string \<Rightarrow> bool" where
  "has_parent path \<longleftrightarrow> components path \<noteq> [] \<and> components path \<noteq> [RootDir]"

definition ld_read ::
  "(string \<Rightarrow> (toml_table, string) result) \<Rightarrow> (string \<Rightarrow> (string, FsIoError) result) \<Rightarrow> io \<Rightarrow> string \<Rightarrow> world
   \<Rightarrow> (LocalDirectoryEnvironment, EnvMetadataError) result option" where
  "ld_read toml_parse canonical_dir io root_dir w =
    (case canonical_dir root_dir of
       Err e \<Rightarrow> Some (Err (EnvMetaIo e))
     | Ok root_dir \<Rightarrow>
         if \<not> has_parent root_dir then None
         else Some (map_ok (\<lambda>metadata. \<lparr>ld_root_dir = root_dir, ld_metadata = metadata\<rparr>)
           (load_env_metadata toml_parse io (fs_join root_dir METADATA_PATH) w)))"

definition ld_try_read ::
  "(string \<Rightarrow> (toml_table, string) result) \<Rightarrow> (string \<Rightarrow> (string, FsIoError) result) \<Rightarrow> io \<Rightarrow> string \<Rightarrow> world
   \<Rightarrow> (LocalDirectoryEnvironment option, EnvMetadataError) result option" where
  "ld_try_read toml_parse canonical_dir io root_dir w =
    (let meta_path = fs_join root_dir METADATA_PATH in
     if \<not> has_parent root_dir then None
     else Some (case read_file io meta_path w of
         Ok s \<Rightarrow>
           and_then (parse_env_metadata toml_parse meta_path s) (\<lambda>metadata.
           and_then (map_err EnvMetaIo (canonical_dir root_dir)) (\<lambda>root_dir.
           Ok (Some \<lparr>ld_root_dir = root_dir, ld_metadata = metadata\<rparr>)))
       | Err not_found \<Rightarrow> if not_found then Ok None else Err (EnvMetaIo (ReadFile meta_path))))"

definition ld_create ::
  "(toml_table \<Rightarrow> string) \<Rightarrow> (string \<Rightarrow> (string, FsIoError) result) \<Rightarrow> io \<Rightarrow> string \<Rightarrow> world
   \<Rightarrow> (world \<times> (LocalDirectoryEnvironment, FsIoError) result) option" where
  "ld_create toml_print canonical_dir io root_dir w =
    (case canonical_dir root_dir of
       Err e \<Rightarrow> Some (w, Err e)
     | Ok root_dir \<Rightarrow>
         if \<not> has_parent root_dir then None
         else
           (let metadata = metadata_default; path = fs_join root_dir METADATA_PATH;
                w1 = w\<lparr>tick := tick w + 1\<rparr> in
            if path_exists w path \<or> op_fails io (tick w) then Some (w1, Err (CreateFile path))
            else (case write_file io path (toml_print (metadata_to_toml metadata))
                     (w1\<lparr>files := (files w)(path \<mapsto> FileItem [])\<rparr>) of
                (w2, Err e) \<Rightarrow> Some (w2, Err e)
              | (w2, Ok _) \<Rightarrow> Some (w2, Ok \<lparr>ld_root_dir = root_dir, ld_metadata = metadata\<rparr>))))"

definition do_env_local_dir ::
  "(toml_table \<Rightarrow> string) \<Rightarrow> (string \<Rightarrow> (string, FsIoError) result) \<Rightarrow> io \<Rightarrow> string \<Rightarrow> world
   \<Rightarrow> (world \<times> (LocalDirectoryEnvironment, LocalWriteError EnvError) result) option" where
  "do_env_local_dir toml_print canonical_dir io path w =
    (let w1 = w\<lparr>tick := tick w + 1\<rparr> in
     if path_exists w path then Some (w, Err (EnvAlreadyExists path))
     else if op_fails io (tick w) then Some (w1, Err (EnvWrite (LwIo (MkDir path))))
     else map_option (map_prod id (map_err (\<lambda>e. EnvWrite (LwIo e))))
       (ld_create toml_print canonical_dir io path (w1\<lparr>files := (files w)(path \<mapsto> DirItem [])\<rparr>)))"

lemma metadata_default_ok: "metadata_ok metadata_default"
  by code_simp

lemma ld_create_Ok:
  assumes "ld_create toml_print canonical_dir io root w = Some (w', Ok env)"
  shows "canonical_dir root = Ok (ld_root_dir env)" and "has_parent (ld_root_dir env)"
    and "ld_metadata env = metadata_default" and "files w (metadata_path env) = None"
    and "files w' = (files w)(metadata_path env \<mapsto> FileItem (toml_print (metadata_to_toml metadata_default)))"
proof -
  obtain r where r: "canonical_dir root = Ok r" "has_parent r"
    using assms by (auto simp: ld_create_def split: result.splits if_splits)
  let ?path = "fs_join r METADATA_PATH" and ?c = "toml_print (metadata_to_toml metadata_default)"
  have free: "files w ?path = None"
    using assms r by (simp add: ld_create_def Let_def path_exists_def split: if_splits)
  have wf: "write_file io ?path ?c (w\<lparr>tick := tick w + 1, files := (files w)(?path \<mapsto> FileItem [])\<rparr>) = (w', Ok ())"
    and env: "env = \<lparr>ld_root_dir = r, ld_metadata = metadata_default\<rparr>"
    using assms r by (auto simp: ld_create_def Let_def split: if_splits prod.splits result.splits)
  have "files w' = (files w)(?path \<mapsto> FileItem ?c)"
    using wf by (auto simp: write_file_def split: if_splits)
  then show "canonical_dir root = Ok (ld_root_dir env)" "has_parent (ld_root_dir env)"
    "ld_metadata env = metadata_default" "files w (metadata_path env) = None"
    "files w' = (files w)(metadata_path env \<mapsto> FileItem ?c)"
    using r env free by (simp_all add: metadata_path_def)
qed

text \<open>C26: an environment that was created can be opened. A successful creation has written one file,
  \<^verbatim>\<open>env.toml\<close>, where none was before, and unless the read fails, reading the directory yields the
  environment that the creation returned.\<close>

theorem create_read_roundtrip:
  assumes "metadata_print_law toml_parse toml_print"
    and "ld_create toml_print canonical_dir io root w = Some (w', Ok env)"
    and "\<not> op_fails io (tick w')"
  shows "ld_read toml_parse canonical_dir io root w' = Some (Ok env)
    \<and> files w (metadata_path env) = None
    \<and> (\<forall>f. f \<noteq> metadata_path env \<longrightarrow> files w' f = files w f)"
proof -
  note c = ld_create_Ok [OF assms(2)]
  have "metadata_from_str toml_parse (toml_print (metadata_to_toml metadata_default)) = Ok metadata_default"
    using assms(1) metadata_default_ok metadata_toml_roundtrip [of metadata_default]
    by (simp add: metadata_from_str_Ok metadata_print_law_def)
  then have "load_env_metadata toml_parse io (metadata_path env) w' = Ok (ld_metadata env)"
    using c(3,5) assms(3) by (simp add: load_env_metadata_def read_file_def parse_env_metadata_def)
  then show ?thesis using c by (simp add: ld_read_def metadata_path_def)
qed

theorem create_read_roundtrip_witness:
  "\<exists>w' env. ld_create sample_print Ok sample_io ''/w/.sysand'' sample_world = Some (w', Ok env)
    \<and> ld_read sample_metadata_parse Ok sample_io ''/w/.sysand'' w' = Some (Ok env)"
proof -
  have "map_option (is_ok \<circ> snd) (ld_create sample_print Ok sample_io ''/w/.sysand'' sample_world) = Some True"
    by code_simp
  then obtain w' env where run: "ld_create sample_print Ok sample_io ''/w/.sysand'' sample_world = Some (w', Ok env)"
    by (auto simp: is_ok_iff)
  have "metadata_print_law sample_metadata_parse sample_print"
    by (simp add: metadata_print_law_def sample_metadata_parse_def)
  from create_read_roundtrip [OF this run] show ?thesis using run by (auto simp: sample_io_def)
qed

end
