(* ===== verification/Sync.thy ===== *)
theory Sync
  imports IriNames Lockfile Env
begin

text \<open>
  Installing what a lock records (\<^verbatim>\<open>core/src/commands/sync.rs\<close>). The storages a source is
  read from (local directories, archives, downloads, git) are parameters, one type of storage
  standing for the six of the code. A result carries the environment, which keeps what was
  installed before an error; a panic is \<^term>\<open>None\<close>.

  The locale \<open>syncable\<close> adds to an environment one can install into the check whether a version
  with a given checksum is present; the in-memory environment interprets it. The properties: a
  successful run has everything installed that the lock asks for, and whatever a run installs,
  successful or not, comes from a source of the lock whose checksum was verified, or from git.
\<close>

section \<open>Errors and parameters\<close>

datatype ('u, 'g) SyncError =
    BadChecksum string ProjectChecksum ProjectChecksum
  | BadProject string
  | MissingSource "string list"
  | MissingIriSrcPath string
  | MissingIriRemoteSrc string
  | MissingIriLocalKparPath string
  | MissingIriRemoteKparPath string
  | MissingIriIndexKparUrl string
  | MissingIriRemoteGitUrl string
  | MissingSrcPathStorage string
  | MissingRemoteSrcStorage string
  | MissingLocalKparStorage string
  | MissingRemoteKparStorage string
  | MissingIndexKparStorage string
  | MissingRemoteGitStorage string
  | GitDownload string 'g
  | InvalidRemoteSource string 'u
  | UnsupportedSources string
  | InstallFail string string
  | InvalidProvidedVersion string string "string list"
  | SyncProjectRead string

record ('o, 'u, 'g) sync_storages =
  src_path_storage :: "(string \<Rightarrow> string \<Rightarrow> 'o) option"
  remote_src_storage :: "(string \<Rightarrow> string \<Rightarrow> ('o, 'u) result) option"
  kpar_path_storage :: "(string \<Rightarrow> 64 word \<Rightarrow> string \<Rightarrow> 'o) option"
  remote_kpar_storage :: "(string \<Rightarrow> 64 word \<Rightarrow> string \<Rightarrow> ('o, 'u) result) option"
  index_kpar_storage :: "(string \<Rightarrow> 64 word \<Rightarrow> string \<Rightarrow> ('o, 'u) result) option"
  remote_git_storage :: "(string \<Rightarrow> ('o, 'g) result) option"

text \<open>The operations of the environment and the storages: the check for an installed version, the
  canonical checksum of a storage, installing, and the texts of errors.\<close>

record ('s, 'e, 'o, 'r, 'i) sync_ops =
  so_verified :: "'s \<Rightarrow> string \<Rightarrow> string \<Rightarrow> ProjectChecksum \<Rightarrow> (ProjectChecksumResult, 'e) result"
  so_checksum :: "'o \<Rightarrow> (ProjectChecksum, 'r) result"
  so_install :: "string \<Rightarrow> string \<Rightarrow> 'o \<Rightarrow> ProjectChecksum option \<Rightarrow> 's \<Rightarrow> ('s, 'i) result"
  so_env_err :: "'e \<Rightarrow> string"
  so_read_err :: "'r \<Rightarrow> string"
  so_install_err :: "'i \<Rightarrow> string"

section \<open>Provided projects\<close>

text \<open>The versions that are provided: \<^term>\<open>Some None\<close> if the locked one is among them,
  \<^term>\<open>None\<close> if a provided project lacks a version, on which the code panics.\<close>

fun provided_versions_loop :: "string \<Rightarrow> InMemoryProject list \<Rightarrow> string list \<Rightarrow> string list option option" where
  "provided_versions_loop locked [] provided_versions = Some (Some provided_versions)"
| "provided_versions_loop locked (provided # rest) provided_versions =
    (case project_version mem_read provided of
       Ok (Some version) \<Rightarrow>
         if locked = version then Some None
         else provided_versions_loop locked rest (provided_versions @ [version])
     | _ \<Rightarrow> None)"

definition excluded_versions ::
  "'iri iri_ops \<Rightarrow> (string \<Rightarrow> ('iri, string) result) \<Rightarrow> (string \<times> InMemoryProject list) list
   \<Rightarrow> string \<Rightarrow> InMemoryProject list option" where
  "excluded_versions U parse_iri provided_iris iri =
    (case parse_iri iri of
       Ok parsed_iri \<Rightarrow> map_of provided_iris (canonicalize_iri_tolerant U parsed_iri)
     | Err _ \<Rightarrow> map_of provided_iris iri)"

fun provided_check ::
  "'iri iri_ops \<Rightarrow> (string \<Rightarrow> ('iri, string) result) \<Rightarrow> (string \<times> InMemoryProject list) list
   \<Rightarrow> string \<Rightarrow> string list \<Rightarrow> (bool, ('u, 'g) SyncError) result option" where
  "provided_check U parse_iri provided_iris locked [] = Some (Ok False)"
| "provided_check U parse_iri provided_iris locked (iri # iris) =
    (case excluded_versions U parse_iri provided_iris iri of
       None \<Rightarrow> provided_check U parse_iri provided_iris locked iris
     | Some versions \<Rightarrow>
         (case provided_versions_loop locked versions [] of
            None \<Rightarrow> None
          | Some None \<Rightarrow> Some (Ok True)
          | Some (Some provided_versions) \<Rightarrow>
              Some (Err (InvalidProvidedVersion iri locked provided_versions))))"

section \<open>Installed projects\<close>

fun found_source ::
  "('s, 'e, 'o, 'r, 'i) sync_ops \<Rightarrow> 's \<Rightarrow> string \<Rightarrow> string \<Rightarrow> Source list
   \<Rightarrow> (bool, ('u, 'g) SyncError) result" where
  "found_source Y env version iri [] = Ok False"
| "found_source Y env version iri (source # sources) =
    (case to_checksum source of
       None \<Rightarrow> found_source Y env version iri sources
     | Some checksum \<Rightarrow>
         and_then (map_err (\<lambda>e. SyncProjectRead (so_env_err Y e)) (so_verified Y env iri version checksum))
           (\<lambda>r. if r = Match then Ok True else found_source Y env version iri sources))"

fun found_in_env ::
  "('s, 'e, 'o, 'r, 'i) sync_ops \<Rightarrow> 's \<Rightarrow> string \<Rightarrow> Source list \<Rightarrow> string list
   \<Rightarrow> (bool, ('u, 'g) SyncError) result" where
  "found_in_env Y env version sources [] = Ok False"
| "found_in_env Y env version sources (iri # iris) =
    and_then (found_source Y env version iri sources)
      (\<lambda>hit. if hit then Ok True else found_in_env Y env version sources iris)"

section \<open>Installing from sources\<close>

definition install ::
  "('s, 'e, 'o, 'r, 'i) sync_ops \<Rightarrow> string \<Rightarrow> string \<Rightarrow> 'o \<Rightarrow> ProjectChecksum option \<Rightarrow> 's
   \<Rightarrow> ('s, ('u, 'g) SyncError) result" where
  "install Y uri version storage checksum env =
    map_err (\<lambda>e. InstallFail uri (so_install_err Y e)) (so_install Y uri version storage checksum env)"

definition try_install ::
  "('s, 'e, 'o, 'r, 'i) sync_ops \<Rightarrow> string \<Rightarrow> string \<Rightarrow> ProjectChecksum \<Rightarrow> 'o \<Rightarrow> 's
   \<Rightarrow> ('s, ('u, 'g) SyncError) result" where
  "try_install Y uri version expected_checksum storage env =
    and_then (map_err (\<lambda>e. SyncProjectRead (so_read_err Y e)) (so_checksum Y storage)) (\<lambda>actual_checksum.
      if expected_checksum = actual_checksum
      then install Y uri version storage (Some actual_checksum) env
      else Err (BadChecksum uri expected_checksum actual_checksum))"

text \<open>One iteration of the loop over the sources. \<^term>\<open>None\<close> is an editable source, at which the
  code goes on to the next project.\<close>

fun install_source ::
  "('s, 'e, 'o, 'r, 'i) sync_ops \<Rightarrow> ('o, 'u, 'g) sync_storages \<Rightarrow> string option \<Rightarrow> string \<Rightarrow> Source \<Rightarrow> 's
   \<Rightarrow> ('s, ('u, 'g) SyncError) result option" where
  "install_source Y ST main_uri version (Editable editable) env = None"
| "install_source Y ST main_uri version (LocalSrc src_path checksum) env = Some (
    and_then (ok_or main_uri (MissingIriSrcPath src_path)) (\<lambda>uri.
    and_then (ok_or (src_path_storage ST) (MissingSrcPathStorage uri)) (\<lambda>storage.
    try_install Y uri version (ProjectSum checksum) (storage src_path checksum) env)))"
| "install_source Y ST main_uri version (RemoteSrc remote_src checksum) env = Some (
    and_then (ok_or main_uri (MissingIriRemoteSrc remote_src)) (\<lambda>uri.
    and_then (ok_or (remote_src_storage ST) (MissingRemoteSrcStorage uri)) (\<lambda>create.
    and_then (map_err (InvalidRemoteSource remote_src) (create remote_src checksum)) (\<lambda>storage.
    try_install Y uri version (ProjectSum checksum) storage env))))"
| "install_source Y ST main_uri version (LocalKpar kpar_path kpar_size kpar_digest) env = Some (
    and_then (ok_or main_uri (MissingIriLocalKparPath kpar_path)) (\<lambda>uri.
    and_then (ok_or (kpar_path_storage ST) (MissingLocalKparStorage kpar_path)) (\<lambda>create.
    try_install Y uri version (KparSum kpar_digest) (create kpar_path kpar_size kpar_digest) env)))"
| "install_source Y ST main_uri version (RemoteKpar remote_kpar kpar_size kpar_digest) env = Some (
    and_then (ok_or main_uri (MissingIriRemoteKparPath remote_kpar)) (\<lambda>uri.
    and_then (ok_or (remote_kpar_storage ST) (MissingRemoteKparStorage remote_kpar)) (\<lambda>create.
    and_then (map_err (InvalidRemoteSource remote_kpar) (create remote_kpar kpar_size kpar_digest)) (\<lambda>storage.
    try_install Y uri version (KparSum kpar_digest) storage env))))"
| "install_source Y ST main_uri version (IndexKpar index_kpar kpar_size kpar_digest) env = Some (
    and_then (ok_or main_uri (MissingIriIndexKparUrl index_kpar)) (\<lambda>uri.
    and_then (ok_or (index_kpar_storage ST) (MissingIndexKparStorage uri)) (\<lambda>create.
    and_then (map_err (InvalidRemoteSource index_kpar) (create index_kpar kpar_size kpar_digest)) (\<lambda>storage.
    try_install Y uri version (KparSum kpar_digest) storage env))))"
| "install_source Y ST main_uri version (RemoteGit remote_git) env = Some (
    and_then (ok_or main_uri (MissingIriRemoteGitUrl remote_git)) (\<lambda>uri.
    and_then (ok_or (remote_git_storage ST) (MissingRemoteGitStorage remote_git)) (\<lambda>create.
    and_then (map_err (GitDownload remote_git) (create remote_git)) (\<lambda>storage.
    install Y uri version storage None env))))"

datatype loop_end = ContinueMain | SourcesDone bool

fun sync_sources ::
  "('s, 'e, 'o, 'r, 'i) sync_ops \<Rightarrow> ('o, 'u, 'g) sync_storages \<Rightarrow> string option \<Rightarrow> string \<Rightarrow> bool
   \<Rightarrow> Source list \<Rightarrow> 's \<Rightarrow> 's \<times> (loop_end, ('u, 'g) SyncError) result" where
  "sync_sources Y ST main_uri version no_supported [] env = (env, Ok (SourcesDone no_supported))"
| "sync_sources Y ST main_uri version no_supported (source # sources) env =
    (case install_source Y ST main_uri version source env of
       None \<Rightarrow> (env, Ok ContinueMain)
     | Some (Err e) \<Rightarrow> (env, Err e)
     | Some (Ok env') \<Rightarrow> sync_sources Y ST main_uri version False sources env')"

section \<open>The command\<close>

text \<open>One iteration of the main loop; the flag tells whether anything was installed.\<close>

definition sync_project ::
  "'iri iri_ops \<Rightarrow> (string \<Rightarrow> ('iri, string) result) \<Rightarrow> ('s, 'e, 'o, 'r, 'i) sync_ops
   \<Rightarrow> ('o, 'u, 'g) sync_storages \<Rightarrow> (string \<times> InMemoryProject list) list \<Rightarrow> LockProject \<Rightarrow> 's
   \<Rightarrow> ('s \<times> (bool, ('u, 'g) SyncError) result) option" where
  "sync_project U parse_iri Y ST provided_iris project env =
    (let main_uri = (case p_identifiers project of [] \<Rightarrow> None | iri # _ \<Rightarrow> Some iri);
         version = p_version project in
     case provided_check U parse_iri provided_iris version (p_identifiers project) of
       None \<Rightarrow> None
     | Some (Err e) \<Rightarrow> Some (env, Err e)
     | Some (Ok True) \<Rightarrow> Some (env, Ok False)
     | Some (Ok False) \<Rightarrow> Some (
         if p_sources project = [] then (env, Err (MissingSource (p_identifiers project)))
         else (case found_in_env Y env version (p_sources project) (p_identifiers project) of
             Err e \<Rightarrow> (env, Err e)
           | Ok True \<Rightarrow> (env, Ok False)
           | Ok False \<Rightarrow>
               (case sync_sources Y ST main_uri version True (p_sources project) env of
                  (env', Err e) \<Rightarrow> (env', Err e)
                | (env', Ok ContinueMain) \<Rightarrow> (env', Ok False)
                | (env', Ok (SourcesDone no_supported)) \<Rightarrow>
                    if no_supported
                    then (env', Err (UnsupportedSources
                      (case main_uri of Some u \<Rightarrow> u | None \<Rightarrow> ''project without IRI'')))
                    else (env', Ok True)))))"

fun sync_projects ::
  "'iri iri_ops \<Rightarrow> (string \<Rightarrow> ('iri, string) result) \<Rightarrow> ('s, 'e, 'o, 'r, 'i) sync_ops
   \<Rightarrow> ('o, 'u, 'g) sync_storages \<Rightarrow> (string \<times> InMemoryProject list) list \<Rightarrow> bool \<Rightarrow> LockProject list \<Rightarrow> 's
   \<Rightarrow> ('s \<times> (bool, ('u, 'g) SyncError) result) option" where
  "sync_projects U parse_iri Y ST provided_iris updated [] env = Some (env, Ok updated)"
| "sync_projects U parse_iri Y ST provided_iris updated (project # projects) env =
    (case sync_project U parse_iri Y ST provided_iris project env of
       None \<Rightarrow> None
     | Some (env', Err e) \<Rightarrow> Some (env', Err e)
     | Some (env', Ok u) \<Rightarrow> sync_projects U parse_iri Y ST provided_iris (updated \<or> u) projects env')"

definition do_sync ::
  "'iri iri_ops \<Rightarrow> (string \<Rightarrow> ('iri, string) result) \<Rightarrow> ('s, 'e, 'o, 'r, 'i) sync_ops
   \<Rightarrow> ('o, 'u, 'g) sync_storages \<Rightarrow> (string \<times> InMemoryProject list) list \<Rightarrow> Lock \<Rightarrow> 's
   \<Rightarrow> ('s \<times> (unit, ('u, 'g) SyncError) result) option" where
  "do_sync U parse_iri Y ST provided_iris lockfile env =
    map_option (\<lambda>(env', r). (env', map_ok (\<lambda>_. ()) r))
      (sync_projects U parse_iri Y ST provided_iris False (lock_projects lockfile) env)"

text \<open>The operations of the command on a given environment: what is installed may overwrite and
  stand beside other versions.\<close>

definition install_ops ::
  "project_externs \<Rightarrow> ('s, 'p, 'e) ReadEnvironment \<Rightarrow> ('s, 'q, 'w, ('r, 'u) CloneError) WriteEnvironment
   \<Rightarrow> ('o, 'r) ProjectRead \<Rightarrow> ('q, 'u) ProjectMut
   \<Rightarrow> ('s \<Rightarrow> string \<Rightarrow> string \<Rightarrow> ProjectChecksum \<Rightarrow> (ProjectChecksumResult, 'e) result)
   \<Rightarrow> ('o \<Rightarrow> (ProjectChecksum, 'r) result) \<Rightarrow> ('e \<Rightarrow> string) \<Rightarrow> ('r \<Rightarrow> string)
   \<Rightarrow> (('e, ('w, ('r, 'u) CloneError) PutProjectError) EnvInstallError \<Rightarrow> string)
   \<Rightarrow> ('s, 'e, 'o, 'r, ('e, ('w, ('r, 'u) CloneError) PutProjectError) EnvInstallError) sync_ops" where
  "install_ops X E V S W verified checksum env_err read_err install_err =
    \<lparr>so_verified = verified, so_checksum = checksum,
     so_install = (\<lambda>uri version storage c env.
       do_env_install_project X E V S W uri version storage c env True True),
     so_env_err = env_err, so_read_err = read_err, so_install_err = install_err\<rparr>"

section \<open>What is installed\<close>

text \<open>The storage of a source, if it can be created.\<close>

fun storage_of :: "('o, 'u, 'g) sync_storages \<Rightarrow> Source \<Rightarrow> 'o option" where
  "storage_of ST (Editable p) = None"
| "storage_of ST (LocalSrc p c) = map_option (\<lambda>f. f p c) (src_path_storage ST)"
| "storage_of ST (RemoteSrc u c) = Option.bind (remote_src_storage ST) (\<lambda>f. ok (f u c))"
| "storage_of ST (LocalKpar p n c) = map_option (\<lambda>f. f p n c) (kpar_path_storage ST)"
| "storage_of ST (RemoteKpar u n c) = Option.bind (remote_kpar_storage ST) (\<lambda>f. ok (f u n c))"
| "storage_of ST (IndexKpar u n c) = Option.bind (index_kpar_storage ST) (\<lambda>f. ok (f u n c))"
| "storage_of ST (RemoteGit u) = Option.bind (remote_git_storage ST) (\<lambda>f. ok (f u))"

definition checked :: "('s, 'e, 'o, 'r, 'i) sync_ops \<Rightarrow> Source \<Rightarrow> 'o \<Rightarrow> bool" where
  "checked Y source storage \<longleftrightarrow>
    (\<forall>c. to_checksum source = Some c \<longrightarrow> so_checksum Y storage = Ok c)"

lemma try_install_Ok:
  "try_install Y uri version c storage env = Ok env' \<longleftrightarrow>
    so_checksum Y storage = Ok c \<and> so_install Y uri version storage (Some c) env = Ok env'"
  by (auto simp: try_install_def install_def)

lemma install_source_Ok:
  assumes "install_source Y ST main_uri version source env = Some (Ok env')"
  obtains uri storage where "main_uri = Some uri" "storage_of ST source = Some storage"
    "checked Y source storage" "so_install Y uri version storage (to_checksum source) env = Ok env'"
  using assms
  by (cases source) (auto simp: try_install_Ok install_def checked_def)

lemma install_source_None: "install_source Y ST main_uri version source env = None \<longleftrightarrow> (\<exists>e. source = Editable e)"
  by (cases source) auto

text \<open>A copy of the project in a storage: the same information, metadata and source files.\<close>

definition copy_of ::
  "('o, 'r) ProjectRead \<Rightarrow> ('q, 'u) ProjectRead \<Rightarrow> 'o \<Rightarrow> 'q \<Rightarrow> bool" where
  "copy_of S R storage q \<longleftrightarrow> (\<exists>info meta. get_project S storage = Ok (Some info, Some meta)
    \<and> get_project R q = Ok (Some info, Some meta)
    \<and> (\<forall>p \<in> source_paths True meta. \<exists>b. read_source S storage p = Ok (Ok b) \<and> read_source R q p = Ok (Ok b)))"

text \<open>A project in one of the locked identifiers is provided with the locked version.\<close>

definition is_provided ::
  "'iri iri_ops \<Rightarrow> (string \<Rightarrow> ('iri, string) result) \<Rightarrow> (string \<times> InMemoryProject list) list
   \<Rightarrow> LockProject \<Rightarrow> bool" where
  "is_provided U parse_iri provided_iris project \<longleftrightarrow>
    (\<exists>iri \<in> set (p_identifiers project). \<exists>versions. excluded_versions U parse_iri provided_iris iri = Some versions
      \<and> (\<exists>q \<in> set versions. project_version mem_read q = Ok (Some (p_version project))))"

lemma provided_versions_loop_hit:
  "provided_versions_loop locked versions acc = Some None
    \<Longrightarrow> \<exists>q \<in> set versions. project_version mem_read q = Ok (Some locked)"
  by (induction locked versions acc rule: provided_versions_loop.induct)
    (auto split: result.splits option.splits if_splits)

lemma provided_check_True:
  assumes "provided_check U parse_iri provided_iris (p_version project) (p_identifiers project) = Some (Ok True)"
  shows "is_provided U parse_iri provided_iris project"
proof -
  have "provided_check U parse_iri provided_iris locked iris = Some (Ok True) \<Longrightarrow>
    \<exists>iri \<in> set iris. \<exists>versions. excluded_versions U parse_iri provided_iris iri = Some versions
      \<and> (\<exists>q \<in> set versions. project_version mem_read q = Ok (Some locked))" for locked iris
    by (induction U parse_iri provided_iris locked iris rule: provided_check.induct)
      (auto split: option.splits dest: provided_versions_loop_hit)
  from this [OF assms] show ?thesis by (simp add: is_provided_def)
qed

lemma provided_check_error:
  "provided_check U parse_iri provided_iris locked iris \<noteq> Some (Err (UnsupportedSources u))"
  by (induction U parse_iri provided_iris locked iris rule: provided_check.induct)
    (auto split: option.splits)

lemma found_source_error: "found_source Y env version iri sources \<noteq> Err (UnsupportedSources u)"
proof (induction sources)
  case (Cons a sources)
  then show ?case
    by (cases "to_checksum a"; cases "so_verified Y env iri version (the (to_checksum a))") auto
qed simp

lemma found_error: "found_in_env Y env version sources iris \<noteq> Err (UnsupportedSources u)"
proof (induction iris)
  case (Cons iri iris)
  then show ?case
    using found_source_error [of Y env version iri sources u]
    by (cases "found_source Y env version iri sources :: (bool, ('a, 'b) SyncError) result") auto
qed simp

lemma ok_or_eq_Err: "ok_or v e = Err x \<longleftrightarrow> v = None \<and> x = e"
  by (cases v) auto

lemma install_source_error: "install_source Y ST main_uri version source env \<noteq> Some (Err (UnsupportedSources u))"
  by (cases source) (auto simp: try_install_def install_def and_then_eq_Err map_err_eq_Err ok_or_eq_Err)

lemma sync_sources_error:
  "sync_sources Y ST main_uri version flag sources env \<noteq> (env', Err (UnsupportedSources u))"
proof (induction sources arbitrary: flag env)
  case (Cons source sources)
  then show ?case using install_source_error [of Y ST main_uri version source env u]
    by (auto split: option.splits result.splits)
qed simp

text \<open>What a run may change of the contents of an environment.\<close>

definition admissible ::
  "('s, 'e, 'o, 'r, 'i) sync_ops \<Rightarrow> ('o, 'u, 'g) sync_storages \<Rightarrow> ('o, 'r) ProjectRead \<Rightarrow> ('q, 'v) ProjectRead
   \<Rightarrow> LockProject list \<Rightarrow> (string \<times> string \<Rightarrow> 'q option) \<Rightarrow> (string \<times> string \<Rightarrow> 'q option) \<Rightarrow> bool" where
  "admissible Y ST S R projects before after \<longleftrightarrow>
    (\<forall>u v. after (u, v) = before (u, v) \<or> (\<exists>project source storage q.
      project \<in> set projects \<and> p_identifiers project \<noteq> [] \<and> hd (p_identifiers project) = u
      \<and> p_version project = v \<and> source \<in> set (p_sources project) \<and> storage_of ST source = Some storage
      \<and> checked Y source storage \<and> after (u, v) = Some q \<and> copy_of S R storage q))"

lemma admissible_refl: "admissible Y ST S R ps f f"
  by (simp add: admissible_def)

lemma admissible_trans:
  "admissible Y ST S R ps f g \<Longrightarrow> admissible Y ST S R ps g h \<Longrightarrow> admissible Y ST S R ps f h"
  unfolding admissible_def by metis

lemma admissible_mono:
  "admissible Y ST S R ps f g \<Longrightarrow> set ps \<subseteq> set qs \<Longrightarrow> admissible Y ST S R qs f g"
  unfolding admissible_def by (meson subsetD)

lemma admissible_keeps: "admissible Y ST S R ps f g \<Longrightarrow> f x \<noteq> None \<Longrightarrow> g x \<noteq> None"
  unfolding admissible_def by (cases x) (metis option.distinct(1))

locale syncable =
  installable R W accepts E V installed invar fresh
  for R :: "('p, 'u) ProjectRead" and W :: "('p, 'u) ProjectMut" and accepts :: "string \<Rightarrow> bool"
    and E :: "('s, 'p, 'e) ReadEnvironment"
    and V :: "('s, 'p, 'w, ('r, 'u) CloneError) WriteEnvironment"
    and installed :: "'s \<Rightarrow> string \<times> string \<Rightarrow> 'p option"
    and invar :: "'s \<Rightarrow> bool" and fresh :: 'p +
  fixes verified :: "'s \<Rightarrow> string \<Rightarrow> string \<Rightarrow> ProjectChecksum \<Rightarrow> (ProjectChecksumResult, 'e) result"
  assumes verified_law: "invar s \<Longrightarrow> verified s u v c = Ok Match \<Longrightarrow> installed s (u, v) \<noteq> None"
begin

lemma sync_sources_step:
  fixes checksum :: "'o \<Rightarrow> (ProjectChecksum, 'r) result" and S :: "('o, 'r) ProjectRead"
  assumes "hash_order_law X" and "Y = install_ops X E V S W verified checksum env_err read_err install_err"
    and "main_uri = (case p_identifiers project of [] \<Rightarrow> None | iri # _ \<Rightarrow> Some iri)"
    and "sync_sources Y ST main_uri (p_version project) flag sources s = (s', r)"
    and "set sources \<subseteq> set (p_sources project)" and "invar s"
  shows "invar s' \<and> admissible Y ST S R [project] (installed s) (installed s')
    \<and> (r = Ok ContinueMain \<longrightarrow> (\<exists>e. Editable e \<in> set sources))
    \<and> (r = Ok (SourcesDone False) \<longrightarrow> flag = False
        \<or> (\<exists>uri \<in> set (p_identifiers project). installed s' (uri, p_version project) \<noteq> None))
    \<and> (r = Ok (SourcesDone True) \<longrightarrow> flag \<and> sources = [])"
  using assms(4-6)
proof (induction sources arbitrary: flag s)
  case Nil
  then show ?case by (auto simp: admissible_refl)
next
  case (Cons source sources)
  consider (editable) "install_source Y ST main_uri (p_version project) source s = None"
    | (err) e where "install_source Y ST main_uri (p_version project) source s = Some (Err e)"
    | (ok) s1 where "install_source Y ST main_uri (p_version project) source s = Some (Ok s1)"
    by (metis option.exhaust result.exhaust)
  then show ?case
  proof cases
    case editable
    then show ?thesis using Cons.prems install_source_None [of Y ST main_uri "p_version project" source s]
      by (auto simp: admissible_refl)
  next
    case err
    then show ?thesis using Cons.prems by (auto simp: admissible_refl)
  next
    case ok
    from install_source_Ok [OF this] obtain uri storage where i: "main_uri = Some uri"
      "storage_of ST source = Some storage" "checked Y source storage"
      "so_install Y uri (p_version project) storage (to_checksum source) s = Ok s1" by metis
    have "do_env_install_project X E V S W uri (p_version project) storage (to_checksum source) s True True = Ok s1"
      using i(4) assms(2) by (simp add: install_ops_def)
    from install_spec [OF Cons.prems(3) assms(1) this] obtain q where q: "invar s1"
      "installed s1 = (installed s)((uri, p_version project) \<mapsto> q)" "copy_of S R storage q"
      unfolding copy_of_def by blast
    have u: "p_identifiers project \<noteq> []" "hd (p_identifiers project) = uri"
      using i(1) assms(3) by (cases "p_identifiers project"; simp)+
    have step: "admissible Y ST S R [project] (installed s) (installed s1)"
      unfolding admissible_def using q(2,3) i(2,3) u Cons.prems(2) by fastforce
    have run: "sync_sources Y ST main_uri (p_version project) False sources s1 = (s', r)"
      using Cons.prems(1) ok by simp
    note ih = Cons.IH [OF run _ q(1)]
    have "admissible Y ST S R [project] (installed s1) (installed s')" using ih Cons.prems(2) by simp
    moreover have "installed s1 (uri, p_version project) \<noteq> None" by (simp add: q(2))
    ultimately have "installed s' (uri, p_version project) \<noteq> None" using admissible_keeps by metis
    then show ?thesis
      using ih Cons.prems(2) step u admissible_trans [OF step] hd_in_set [OF u(1)] by auto
  qed
qed

lemma found_in_env_installed:
  assumes "invar s" and "so_verified Y = verified"
    and "found_in_env Y s version sources iris = Ok True"
  shows "\<exists>iri \<in> set iris. installed s (iri, version) \<noteq> None"
proof -
  have src: "found_source Y s version iri ss = Ok True \<Longrightarrow> installed s (iri, version) \<noteq> None" for iri ss
  proof (induction ss)
    case (Cons a ss)
    then show ?case using verified_law [OF assms(1)] assms(2)
      by (auto split: option.splits if_splits)
  qed simp
  show ?thesis using assms(3)
  proof (induction iris)
    case (Cons iri iris)
    then show ?case using src by (auto split: if_splits)
  qed simp
qed

end

lemma flag_cases:
  obtains e where "r = Err e" | "r = Ok True" | "r = Ok False"
proof (cases r)
  case (Ok b)
  then show ?thesis using that by (cases b) auto
qed (use that in auto)

text \<open>An iteration of the main loop either leaves the environment alone or runs through the
  sources of the project.\<close>

lemma sync_project_cases:
  fixes ST :: "('o, 'x, 'y) sync_storages"
  assumes "sync_project U parse_iri Y ST provided_iris project s = Some (s', r)"
  obtains (stop) "s' = s" "\<forall>b. r = Ok b \<longrightarrow> is_provided U parse_iri provided_iris project
      \<or> found_in_env Y s (p_version project) (p_sources project) (p_identifiers project)
          = (Ok True :: (bool, ('x, 'y) SyncError) result)"
      "\<forall>u. r \<noteq> Err (UnsupportedSources u)"
    | (run) t where "p_sources project \<noteq> []"
      "sync_sources Y ST (case p_identifiers project of [] \<Rightarrow> None | iri # _ \<Rightarrow> Some iri)
        (p_version project) True (p_sources project) s = (s', t)"
      "\<forall>e. t = Err e \<longrightarrow> r = Err e" "t = Ok ContinueMain \<longrightarrow> r = Ok False" "t = Ok (SourcesDone False) \<longrightarrow> r = Ok True"
proof -
  let ?mu = "case p_identifiers project of [] \<Rightarrow> None | iri # _ \<Rightarrow> Some iri"
  define chk where "chk = (provided_check U parse_iri provided_iris (p_version project) (p_identifiers project)
    :: (bool, ('x, 'y) SyncError) result option)"
  define fnd where "fnd = (found_in_env Y s (p_version project) (p_sources project) (p_identifiers project)
    :: (bool, ('x, 'y) SyncError) result)"
  obtain s1 t where srcs: "sync_sources Y ST ?mu (p_version project) True (p_sources project) s = (s1, t)" by force
  note st = sync_project_def Let_def chk_def [symmetric] fnd_def [symmetric] srcs
  consider "chk = None" | e where "chk = Some (Err e)" | "chk = Some (Ok True)" | "chk = Some (Ok False)"
    by (cases chk; rule flag_cases [of "the chk"]) auto
  then show ?thesis
  proof cases
    case 1
    then show ?thesis using assms by (simp add: st)
  next
    case 2
    then have "s' = s" "r = Err e" using assms by (simp_all add: st)
    moreover have "e \<noteq> UnsupportedSources u" for u using 2 provided_check_error unfolding chk_def by fastforce
    ultimately show ?thesis using stop by auto
  next
    case 3
    then have "s' = s" "r = Ok False" using assms by (simp_all add: st)
    then show ?thesis using stop provided_check_True 3 [unfolded chk_def] by auto
  next
    case chk: 4
    show ?thesis
    proof (cases "p_sources project = []")
      case True
      then have "s' = s" "r = Err (MissingSource (p_identifiers project))" using assms chk by (simp_all add: st)
      then show ?thesis using stop by auto
    next
      case ne: False
      consider e where "fnd = Err e" | "fnd = Ok True" | "fnd = Ok False" by (rule flag_cases)
      then show ?thesis
      proof cases
        case 1
        then have "s' = s" "r = Err e" using assms chk ne by (simp_all add: st)
        moreover have "e \<noteq> UnsupportedSources u" for u using 1 found_error unfolding fnd_def by fastforce
        ultimately show ?thesis using stop by auto
      next
        case 2
        then have "s' = s" "r = Ok False" using assms chk ne by (simp_all add: st)
        then show ?thesis using stop 2 [unfolded fnd_def] by auto
      next
        case 3
        then have "s' = s1" "\<forall>e. t = Err e \<longrightarrow> r = Err e" "t = Ok ContinueMain \<longrightarrow> r = Ok False"
            "t = Ok (SourcesDone False) \<longrightarrow> r = Ok True"
          using assms chk ne by (auto simp: st split: result.splits loop_end.splits if_splits)
        then show ?thesis using run ne srcs by blast
      qed
    qed
  qed
qed

context syncable
begin

lemma sync_project_step:
  fixes checksum :: "'o \<Rightarrow> (ProjectChecksum, 'r) result" and S :: "('o, 'r) ProjectRead"
    and ST :: "('o, 'x, 'y) sync_storages"
  assumes "hash_order_law X" and "Y = install_ops X E V S W verified checksum env_err read_err install_err"
    and "sync_project U parse_iri Y ST provided_iris project s = Some (s', r)" and "invar s"
  shows "invar s' \<and> admissible Y ST S R [project] (installed s) (installed s')
    \<and> (\<forall>b. r = Ok b \<longrightarrow> is_provided U parse_iri provided_iris project \<or> (\<exists>e. Editable e \<in> set (p_sources project))
        \<or> (\<exists>uri \<in> set (p_identifiers project). installed s' (uri, p_version project) \<noteq> None))
    \<and> (\<forall>u. r \<noteq> Err (UnsupportedSources u))"
proof -
  have v: "so_verified Y = verified" by (simp add: assms(2) install_ops_def)
  from assms(3) show ?thesis
  proof (cases rule: sync_project_cases)
    case stop
    have "found_in_env Y s (p_version project) (p_sources project) (p_identifiers project)
          = (Ok True :: (bool, ('x, 'y) SyncError) result)
        \<Longrightarrow> \<exists>iri \<in> set (p_identifiers project). installed s (iri, p_version project) \<noteq> None"
      by (rule found_in_env_installed [OF assms(4) v])
    then show ?thesis using stop assms(4) by (auto simp: admissible_refl)
  next
    case (run t)
    note step = sync_sources_step [OF assms(1,2) refl run(2) subset_refl assms(4)]
    have ne: "t \<noteq> Err (UnsupportedSources u)" for u using run(2) sync_sources_error by metis
    consider e where "t = Err e" | "t = Ok ContinueMain" | "t = Ok (SourcesDone False)"
      using step run(1) by (metis (full_types) loop_end.exhaust result.exhaust)
    then show ?thesis using step run(3-5) ne by cases auto
  qed
qed

lemma sync_projects_step:
  fixes checksum :: "'o \<Rightarrow> (ProjectChecksum, 'r) result" and S :: "('o, 'r) ProjectRead"
    and ST :: "('o, 'x, 'y) sync_storages"
  assumes "hash_order_law X" and "Y = install_ops X E V S W verified checksum env_err read_err install_err"
    and "sync_projects U parse_iri Y ST provided_iris updated projects s = Some (s', r)" and "invar s"
  shows "invar s' \<and> admissible Y ST S R projects (installed s) (installed s')
    \<and> (\<forall>b. r = Ok b \<longrightarrow> (\<forall>project \<in> set projects. is_provided U parse_iri provided_iris project
        \<or> (\<exists>e. Editable e \<in> set (p_sources project))
        \<or> (\<exists>uri \<in> set (p_identifiers project). installed s' (uri, p_version project) \<noteq> None)))
    \<and> (\<forall>u. r \<noteq> Err (UnsupportedSources u))"
  using assms(3,4)
proof (induction projects arbitrary: updated s)
  case Nil
  then show ?case by (auto simp: admissible_refl)
next
  case (Cons project projects)
  from Cons.prems(1) obtain s1 t where one: "sync_project U parse_iri Y ST provided_iris project s = Some (s1, t)"
    by (auto split: option.splits)
  note step = sync_project_step [OF assms(1,2) one Cons.prems(2)]
  have adm: "admissible Y ST S R (project # projects) (installed s) (installed s1)"
    by (rule admissible_mono [of _ _ _ _ "[project]"]) (use step in auto)
  show ?case
  proof (cases t)
    case (Err e)
    then have "s' = s1" "r = Err e" using Cons.prems(1) one by simp_all
    then show ?thesis using step adm Err by auto
  next
    case (Ok u)
    then have run: "sync_projects U parse_iri Y ST provided_iris (updated \<or> u) projects s1 = Some (s', r)"
      using Cons.prems(1) one by simp
    note ih = Cons.IH [OF run conjunct1 [OF step]]
    have rest: "admissible Y ST S R (project # projects) (installed s1) (installed s')"
      by (rule admissible_mono [of _ _ _ _ projects]) (use ih in auto)
    have "is_provided U parse_iri provided_iris project \<or> (\<exists>e. Editable e \<in> set (p_sources project))
        \<or> (\<exists>uri \<in> set (p_identifiers project). installed s' (uri, p_version project) \<noteq> None)"
    proof -
      have "is_provided U parse_iri provided_iris project \<or> (\<exists>e. Editable e \<in> set (p_sources project))
          \<or> (\<exists>uri \<in> set (p_identifiers project). installed s1 (uri, p_version project) \<noteq> None)"
        using step Ok by simp
      moreover have "installed s' (uri, p_version project) \<noteq> None"
        if "installed s1 (uri, p_version project) \<noteq> None" for uri
        using that by (rule admissible_keeps [OF rest])
      ultimately show ?thesis by meson
    qed
    then show ?thesis using ih admissible_trans [OF adm rest] by auto
  qed
qed

end

lemma ms_verified_installed:
  "ms_has_version_verified checksum s u v c = Ok Match \<Longrightarrow> ms_installed s (u, v) \<noteq> None"
  by (auto simp: ms_has_version_verified_def ms_installed_def split: option.splits)

interpretation msync: syncable mem_read mem_mut utf8_valid ms_read "ms_write mem_new"
    ms_installed ms_invar mem_new "ms_has_version_verified checksum"
  for checksum
  by unfold_locales (rule ms_verified_installed)

abbreviation mem_sync_ops ::
  "project_externs \<Rightarrow> ('o, 'r) ProjectRead \<Rightarrow> (InMemoryProject \<Rightarrow> (ProjectChecksum, InMemoryError) result)
   \<Rightarrow> ('o \<Rightarrow> (ProjectChecksum, 'r) result) \<Rightarrow> (MemoryReadError \<Rightarrow> string) \<Rightarrow> ('r \<Rightarrow> string)
   \<Rightarrow> ((MemoryReadError, ('w, ('r, InMemoryError) CloneError) PutProjectError) EnvInstallError \<Rightarrow> string)
   \<Rightarrow> (InMemoryProject MemoryStorageEnvironment, MemoryReadError, 'o, 'r,
       (MemoryReadError, ('w, ('r, InMemoryError) CloneError) PutProjectError) EnvInstallError) sync_ops" where
  "mem_sync_ops X S mem_checksum checksum env_err read_err install_err \<equiv>
    install_ops X ms_read (ms_write mem_new) S mem_mut (ms_has_version_verified mem_checksum) checksum
      env_err read_err install_err"

lemma provided_check_total:
  assumes "list_all (\<lambda>(iri, versions). list_all (\<lambda>q. im_info q \<noteq> None) versions) provided_iris"
  shows "provided_check U parse_iri provided_iris locked iris \<noteq> None"
proof -
  have loop: "list_all (\<lambda>q. im_info q \<noteq> None) versions \<Longrightarrow> provided_versions_loop locked versions acc \<noteq> None"
    for versions acc
    by (induction locked versions acc rule: provided_versions_loop.induct)
      (auto simp: project_version_def get_info_def mem_read_def mem_get_project_def)
  have "list_all (\<lambda>q. im_info q \<noteq> None) versions"
    if "excluded_versions U parse_iri provided_iris iri = Some versions" for iri versions
    using that assms map_of_SomeD [of provided_iris _ versions]
    by (fastforce simp: excluded_versions_def list_all_iff split: result.splits)
  then have "provided_versions_loop locked versions [] \<noteq> None"
    if "excluded_versions U parse_iri provided_iris iri = Some versions" for iri versions
    using that loop by blast
  then show ?thesis by (induction iris) (fastforce split: option.splits)+
qed

section \<open>Properties\<close>




definition sample_sync_ops ::
  "(InMemoryProject MemoryStorageEnvironment, MemoryReadError, InMemoryProject, InMemoryError,
    (MemoryReadError, (unit, (InMemoryError, InMemoryError) CloneError) PutProjectError) EnvInstallError) sync_ops" where
  "sample_sync_ops = mem_sync_ops sample_project_externs mem_read (\<lambda>_. Ok (ProjectSum ''c'')) (\<lambda>_. Ok (ProjectSum ''c''))
    (\<lambda>_. ''env'') (\<lambda>_. ''read'') (\<lambda>_. ''install'')"

definition sample_storages :: "(InMemoryProject, unit, unit) sync_storages" where
  "sample_storages = \<lparr>src_path_storage = Some (\<lambda>_ _. sample_mem), remote_src_storage = None,
    kpar_path_storage = None, remote_kpar_storage = None, index_kpar_storage = None, remote_git_storage = None\<rparr>"

definition sample_sync_lock :: Lock where
  "sample_sync_lock = \<lparr>lock_version = CURRENT_LOCK_VERSION, lock_projects =
    [\<lparr>p_publisher = None, p_name = ''demo'', p_version = ''1.0.0'', p_exports = [],
      p_identifiers = [''urn:demo''], p_usages = [], p_sources = [LocalSrc ''demo'' ''c'']\<rparr>]\<rparr>"

lemma sample_sync_run:
  "map_option snd (do_sync sample_ops Ok sample_sync_ops sample_storages [] sample_sync_lock ms_default) = Some (Ok ())"
  by code_simp




end
