(* ===== verification/Spec2Isabelle.thy ===== *)
theory Spec2Isabelle
  imports Prelude Purl UnixPath External Model Toml Config Lockfile Project Env Resolve Solver LockCommand Lex Symbols
    ProjectCommands Workspace Query IriNames MoveFiles LocalMetadata LocalSrc LocalEnv Sync
begin

text \<open>
  A verification development for Sysand, the package manager for SysML v2 and KerML projects.
  It models the library \<^verbatim>\<open>src/core\<close>, to which file names below refer.

  \<^bold>\<open>The program.\<close> A project is a directory, an archive or a value in memory with information
  (\<^verbatim>\<open>.project.json\<close>), metadata (\<^verbatim>\<open>.meta.json\<close>) and source files. Its usages name other
  projects by IRI and version constraint. Resolvers find the candidates of an IRI, the solver
  picks one per IRI, and locking records the solution with checksums in a lockfile. Syncing
  installs what the lockfile records into an environment, a collection of projects in memory or in
  the directory \<^verbatim>\<open>.sysand\<close>. Editing commands change the usages, the listed files and the symbol
  index of a project; symbols are extracted from the sources by a small parser.

  \<^bold>\<open>Theories.\<close>

  \<^item> \<open>Prelude\<close>: results, loops with early return, strings as UTF-8 bytes, generic list lemmas.
  \<^item> \<open>External\<close>: the third-party functions as a record of parameters, with their laws.
  \<^item> \<open>Purl\<close> (\<^verbatim>\<open>purl.rs\<close>): package URLs; the validator against a declarative definition, and
    what the parser accepts.
  \<^item> \<open>UnixPath\<close> (\<^verbatim>\<open>utils.rs\<close>, \<^verbatim>\<open>project/utils.rs\<close>): relative paths do not escape, and
    \<open>relativize_path\<close> arrives at its goal.
  \<^item> \<open>Model\<close> (\<^verbatim>\<open>model.rs\<close>): information and metadata; validation is safe and round trips.
  \<^item> \<open>Toml\<close>, \<open>Config\<close> (\<^verbatim>\<open>config\<close>): TOML trees, merging configurations, source overrides.
  \<^item> \<open>Lockfile\<close> (\<^verbatim>\<open>lock.rs\<close>): validation against its specification, canonicalization, and the
    round trip through TOML with sizes as 64-bit words.
  \<^item> \<open>Project\<close> (\<^verbatim>\<open>project/mod.rs\<close>, \<^verbatim>\<open>project/memory.rs\<close>, \<^verbatim>\<open>env/utils.rs\<close>): reading and
    writing projects as records of functions, projects in memory, copying. The locale
    \<open>project_store\<close> holds the laws of a writable storage.
  \<^item> \<open>Env\<close> (\<^verbatim>\<open>env/mod.rs\<close>, \<^verbatim>\<open>env/memory.rs\<close>, \<^verbatim>\<open>env/null.rs\<close>, \<^verbatim>\<open>commands/env\<close>): environments;
    the locales \<open>environment\<close> and \<open>installable\<close> carry the correctness of installing, listing and
    uninstalling, and the environment in memory interprets them.
  \<^item> \<open>Resolve\<close> (\<^verbatim>\<open>resolve\<close>): the resolvers and how they combine; the combined iterator is a
    state machine that neither loses nor repeats a project.
  \<^item> \<open>Solver\<close> (\<^verbatim>\<open>solve/pubgrub.rs\<close>): version sets as a refinement of sets, the cached dependency
    provider, and soundness of the solution given the contract of PubGrub.
  \<^item> \<open>LockCommand\<close> (\<^verbatim>\<open>commands/lock.rs\<close>): a computed lock is valid and free of collisions.
  \<^item> \<open>Lex\<close>, \<open>Symbols\<close> (\<^verbatim>\<open>symbols\<close>): scanning loops end, cutting into declarations keeps the
    tokens at depth 0, names are found, nothing panics.
  \<^item> \<open>ProjectCommands\<close> (\<^verbatim>\<open>commands/add.rs\<close>, \<^verbatim>\<open>remove.rs\<close>, \<^verbatim>\<open>include.rs\<close>, \<^verbatim>\<open>exclude.rs\<close>,
    \<^verbatim>\<open>init.rs\<close>): the exact effect of each command.
  \<^item> \<open>Workspace\<close> (\<^verbatim>\<open>workspace.rs\<close>, \<^verbatim>\<open>discover.rs\<close>): workspaces and the walk up the directories.
  \<^item> \<open>Query\<close> (\<^verbatim>\<open>commands/info.rs\<close>, \<^verbatim>\<open>commands/sources.rs\<close>): the best candidate of an IRI, and
    the closure of dependencies.
  \<^item> \<open>IriNames\<close> (\<^verbatim>\<open>iri_normalize.rs\<close>): file names for IRIs and versions are bounded, ordinary
    and pairwise distinct.
  \<^item> \<open>MoveFiles\<close> (\<^verbatim>\<open>env/local_directory/utils.rs\<close>): moving a batch of files with rollback is all or
    nothing.
  \<^item> \<open>LocalMetadata\<close> (\<^verbatim>\<open>env/local_directory/metadata.rs\<close>): \<^verbatim>\<open>env.toml\<close>, its round trip, and that
    what is read stays inside the environment.
  \<^item> \<open>LocalSrc\<close> (\<^verbatim>\<open>project/local_src.rs\<close>): source paths stay inside the project, and what is
    written is read back.
  \<^item> \<open>LocalEnv\<close> (\<^verbatim>\<open>env/local_directory/mod.rs\<close>, \<^verbatim>\<open>commands/env/mod.rs\<close>): the environment on
    disk; installing, overwriting and deleting change exactly what they should.
  \<^item> \<open>Sync\<close> (\<^verbatim>\<open>commands/sync.rs\<close>): syncing installs what the lock asks for and nothing that the
    lock does not vouch for. The locale \<open>syncable\<close> extends \<open>installable\<close>.

  \<^bold>\<open>How code becomes definitions.\<close> A \<^verbatim>\<open>struct\<close> is a record, an \<^verbatim>\<open>enum\<close> a datatype, a trait a
  record of its functions. State is passed explicitly; \<^verbatim>\<open>Result\<close> is the datatype \<open>result\<close>. A
  panic is the value \<^term>\<open>None\<close> or a constructor named for it, so that its absence is a theorem.
  An \<^verbatim>\<open>IndexMap\<close> is an association list; the iteration order of a \<^verbatim>\<open>HashMap\<close> or \<^verbatim>\<open>HashSet\<close> is a
  parameter or the order of the list. The file system is a map from paths to files and trees, and
  each operation on it may fail at a time chosen by a parameter. Log messages are left out.

  \<^bold>\<open>Parameters.\<close> IRI, version, time and SPDX parsing, JSON and TOML text, hashing, Unicode tables,
  the generated lexer, the PubGrub algorithm, network and archive storages, and the canonical form
  of paths are arguments. What is relied on of them is stated as named predicates
  (\<open>hash_order_law\<close>, \<open>slash_law\<close>, \<open>metadata_print_law\<close>, \<open>json_law\<close> and others), each satisfied by an
  instance in the witnesses.

  \<^bold>\<open>Bounds.\<close> No fuel is used. Two loops that may not end, \<open>discover\<close> and \<open>candidate_loop\<close>, are
  partial functions: the first returns if canonicalization succeeds, the second if fewer than
  \<open>2 ^ 32\<close> projects are installed, the number of distinct candidates. All other recursions are
  total. Archive sizes and name counters are words of 64 and 32 bits.

  \<^bold>\<open>Where the code falls short.\<close> Theorems exhibit such runs: a rollback across
  devices that overwrites a file (\<open>recovered_move_loses_data\<close>), an endless walk
  (\<open>discover_hangs\<close>), an editable project in the root that cannot be read back
  (\<open>root_project_panics\<close>), a lock that canonicalization makes invalid
  (\<open>canonicalize_can_invalidate\<close>), and others named in their theories.

  \<^bold>\<open>Not modelled.\<close> The index client and its discovery, downloads over HTTP and git, authentication
  and publishing are asynchronous network code whose steps are calls of third-party libraries.
  Reading and building archives is the work of the \<^verbatim>\<open>zip\<close> library. The maintenance of an index
  rewrites JSON files. Wrappers of projects (\<^verbatim>\<open>any.rs\<close>, \<^verbatim>\<open>cached.rs\<close>, \<^verbatim>\<open>editable.rs\<close>,
  \<^verbatim>\<open>reference.rs\<close>, \<^verbatim>\<open>null.rs\<close>) delegate to the project they hold. The command line, the
  bindings for Python, Java and JavaScript and the derive macros convert arguments and generate
  code. In the environment on disk two paths are the same only if they are equal as strings, and a
  directory is one item: links and concurrent changes by other processes are left out.
\<close>

end
